(* ===== verification/Cognis_Prelude.thy ===== *)
theory Cognis_Prelude
  imports Complex_Main "HOL-Library.Word"
begin

text \<open>
  Shared vocabulary of the development: Rust's fixed-width integers as words, the result of a
  Rust computation that may panic or meet undefined behaviour, the saturating operators of
  \<open>u64\<close> and their meaning over the naturals, and a few list lemmas.

  \<^item> \<open>fault + 'a\<close> is the outcome of running a piece of Rust: \<open>Inl\<close> when the
    thread panics or executes undefined behaviour, \<open>Inr\<close> for a value. \<open>bindR\<close> sequences
    two such computations.
  \<^item> The plain operators \<open>+\<close>, \<open>*\<close> on words wrap, as the release build of the
    program does; \<open>sat_add\<close>, \<open>sat_sub\<close>, \<open>sat_mul\<close> are the \<open>saturating_*\<close>
    methods of the standard library.
  \<^item> \<open>clampR\<close> is \<open>Ord::clamp\<close>, which panics when the bounds are crossed.
\<close>

section \<open>Collections of rewrite rules\<close>

named_theorems rust_simps "unfolding of the sequencing of fallible computations"
named_theorems unat_simps "reading machine words as natural numbers"
named_theorems probe_simps "facts about the open-addressing probe sequence"
named_theorems fl_simps "facts about rounded floating-point values"

section \<open>Machine integers\<close>

type_synonym u8 = "8 word"
type_synonym u16 = "16 word"
type_synonym u32 = "32 word"
type_synonym u64 = "64 word"
type_synonym i32 = "32 word"

text \<open>A signed 32-bit value is stored as its bit pattern and read with \<open>sint\<close>.\<close>

abbreviation is_pos_i32 :: "i32 \<Rightarrow> bool" where
  "is_pos_i32 p \<equiv> 0 < sint p"

definition sat_add :: "'a::len word \<Rightarrow> 'a word \<Rightarrow> 'a word" where
  "sat_add a b = (if unat a + unat b < 2 ^ LENGTH('a) then a + b else - 1)"

definition sat_sub :: "'a::len word \<Rightarrow> 'a word \<Rightarrow> 'a word" where
  "sat_sub a b = (if b \<le> a then a - b else 0)"

definition sat_mul :: "'a::len word \<Rightarrow> 'a word \<Rightarrow> 'a word" where
  "sat_mul a b = (if unat a * unat b < 2 ^ LENGTH('a) then a * b else - 1)"

text \<open>The panic-free clamp, for bounds that are constants in the right order.\<close>

definition clamp :: "'a::linorder \<Rightarrow> 'a \<Rightarrow> 'a \<Rightarrow> 'a" where
  "clamp x lo hi = (if x < lo then lo else if hi < x then hi else x)"

lemma unat_all_ones [unat_simps]: "unat (- 1 :: 'a::len word) = 2 ^ LENGTH('a) - 1"
  by (simp add: unsigned_minus_1_eq_mask mask_eq_exp_minus_1)

lemma unat_sat_add [unat_simps]:
  "unat (sat_add a b) = min (unat a + unat b) (2 ^ LENGTH('a) - 1)" for a b :: "'a::len word"
  by (auto simp: sat_add_def unat_word_ariths unat_all_ones)

lemma unat_sat_sub [unat_simps]: "unat (sat_sub a b) = unat a - unat b"
  by (auto simp: sat_sub_def unat_sub word_le_nat_alt)

lemma unat_sat_mul [unat_simps]:
  "unat (sat_mul a b) = min (unat a * unat b) (2 ^ LENGTH('a) - 1)" for a b :: "'a::len word"
  by (auto simp: sat_mul_def unat_word_ariths unat_all_ones)

lemma unat_max_word [unat_simps]: "unat (max a b) = max (unat a) (unat b)"
  by (simp add: max_def word_le_nat_alt)

lemma unat_min_word [unat_simps]: "unat (min a b) = min (unat a) (unat b)"
  by (simp add: min_def word_le_nat_alt)

lemma unat_div_word [unat_simps]: "unat (a div b) = unat a div unat b"
  by (rule unat_div)

lemma clamp_bounds: "lo \<le> hi \<Longrightarrow> lo \<le> clamp x lo hi \<and> clamp x lo hi \<le> hi"
  by (auto simp: clamp_def)

lemma clamp_mono: "x \<le> y \<Longrightarrow> lo \<le> hi \<Longrightarrow> clamp x lo hi \<le> clamp y lo hi"
  by (auto simp: clamp_def)

lemma clamp_id: "lo \<le> x \<Longrightarrow> x \<le> hi \<Longrightarrow> clamp x lo hi = x"
  by (auto simp: clamp_def)

lemma unat_clamp [unat_simps]: "unat (clamp x lo hi) = clamp (unat x) (unat lo) (unat hi)"
  by (simp add: clamp_def word_less_nat_alt)

section \<open>Panics and undefined behaviour\<close>

text \<open>\<open>Divergence\<close> stands for a loop that does not end.\<close>

datatype fault = Panic | Undefined_Behaviour | Divergence

fun bindR :: "fault + 'a \<Rightarrow> ('a \<Rightarrow> fault + 'b) \<Rightarrow> fault + 'b" where
  "bindR (Inl e) f = Inl e"
| "bindR (Inr x) f = f x"

definition clampR :: "'a::linorder \<Rightarrow> 'a \<Rightarrow> 'a \<Rightarrow> fault + 'a" where
  "clampR x lo hi = (if lo \<le> hi then Inr (clamp x lo hi) else Inl Panic)"

text \<open>Indexing a slice panics out of range.\<close>

definition index_at :: "'a list \<Rightarrow> nat \<Rightarrow> fault + 'a" where
  "index_at xs i = (if i < length xs then Inr (xs ! i) else Inl Panic)"

lemma index_at_ok [rust_simps]: "i < length xs \<Longrightarrow> index_at xs i = Inr (xs ! i)"
  by (simp add: index_at_def)

lemma bindR_eq_Inr [rust_simps]: "bindR m f = Inr y \<longleftrightarrow> (\<exists>x. m = Inr x \<and> f x = Inr y)"
  by (cases m) auto

lemma bindR_assoc: "bindR (bindR m f) g = bindR m (\<lambda>x. bindR (f x) g)"
  by (cases m) auto

lemma clampR_ok [rust_simps]: "lo \<le> hi \<Longrightarrow> clampR x lo hi = Inr (clamp x lo hi)"
  by (simp add: clampR_def)

section \<open>Stateful computations\<close>

text \<open>
  A method on mutable state is a function from the state to a fault or a result with the new state.
  \<open>wp m Q s\<close> says that \<open>m\<close> returns from \<open>s\<close>, without a fault, and that result and state satisfy \<open>Q\<close>;
  it is a statement of total correctness, since these functions are total.
\<close>

type_synonym ('s, 'a) action = "'s \<Rightarrow> fault + ('a \<times> 's)"

named_theorems wp_simps "weakest preconditions of the combinators and of the environment's calls"

definition return :: "'a \<Rightarrow> ('s, 'a) action" where "return x = (\<lambda>s. Inr (x, s))"
definition gets :: "('s \<Rightarrow> 'a) \<Rightarrow> ('s, 'a) action" where "gets f = (\<lambda>s. Inr (f s, s))"
definition modify :: "('s \<Rightarrow> 's) \<Rightarrow> ('s, unit) action" where "modify f = (\<lambda>s. Inr ((), f s))"
definition panic :: "('s, 'a) action" where "panic = (\<lambda>s. Inl Panic)"

definition lift_fault :: "fault + 'a \<Rightarrow> ('s, 'a) action" where
  "lift_fault r = (\<lambda>s. bindR r (\<lambda>x. Inr (x, s)))"

definition bindS :: "('s, 'a) action \<Rightarrow> ('a \<Rightarrow> ('s, 'b) action) \<Rightarrow> ('s, 'b) action" where
  "bindS m f = (\<lambda>s. bindR (m s) (\<lambda>(x, s'). f x s'))"

definition wp :: "('s, 'a) action \<Rightarrow> ('a \<Rightarrow> 's \<Rightarrow> bool) \<Rightarrow> 's \<Rightarrow> bool" where
  "wp m Q s \<longleftrightarrow> (case m s of Inr (x, s') \<Rightarrow> Q x s' | Inl _ \<Rightarrow> False)"

text \<open>A loop that may run forever, as an option, becomes an action that diverges with it.\<close>

definition of_loop :: "('s \<Rightarrow> (fault + ('a \<times> 's)) option) \<Rightarrow> ('s, 'a) action" where
  "of_loop f = (\<lambda>s. case f s of Some r \<Rightarrow> r | None \<Rightarrow> Inl Divergence)"

text \<open>Running an action on one field of a larger state.\<close>

definition on_part :: "('s \<Rightarrow> 'p) \<Rightarrow> ('p \<Rightarrow> 's \<Rightarrow> 's) \<Rightarrow> ('p \<times> 'w, 'a) action \<Rightarrow> ('s \<times> 'w, 'a) action" where
  "on_part get put m = (\<lambda>(s, w). bindR (m (get s, w)) (\<lambda>(x, (p, w')). Inr (x, (put p s, w'))))"

lemma wp_on_part [wp_simps]:
  "wp (on_part get put m) Q (s, w) \<longleftrightarrow> wp m (\<lambda>x (p, w'). Q x (put p s, w')) (get s, w)"
  by (cases "m (get s, w)") (auto simp: wp_def on_part_def)

lemma wp_return [wp_simps]: "wp (return x) Q s \<longleftrightarrow> Q x s"
  by (simp add: wp_def return_def)

lemma wp_gets [wp_simps]: "wp (gets f) Q s \<longleftrightarrow> Q (f s) s"
  by (simp add: wp_def gets_def)

lemma wp_modify [wp_simps]: "wp (modify f) Q s \<longleftrightarrow> Q () (f s)"
  by (simp add: wp_def modify_def)

lemma wp_panic [wp_simps]: "wp panic Q s \<longleftrightarrow> False"
  by (simp add: wp_def panic_def)

lemma wp_lift_fault [wp_simps]: "wp (lift_fault r) Q s \<longleftrightarrow> (\<exists>x. r = Inr x \<and> Q x s)"
  by (cases r) (simp_all add: wp_def lift_fault_def)

lemma wp_bindS [wp_simps]: "wp (bindS m f) Q s \<longleftrightarrow> wp m (\<lambda>x. wp (f x) Q) s"
  by (cases "m s") (auto simp: wp_def bindS_def)

lemma wp_iff: "wp m Q s \<longleftrightarrow> (\<exists>x s'. m s = Inr (x, s') \<and> Q x s')"
  by (auto simp: wp_def split: sum.splits)

lemma wp_mono: "wp m P s \<Longrightarrow> (\<And>x s'. P x s' \<Longrightarrow> Q x s') \<Longrightarrow> wp m Q s"
  by (auto simp: wp_iff)

lemma wp_conj: "wp m P s \<Longrightarrow> wp m Q s \<Longrightarrow> wp m (\<lambda>x s'. P x s' \<and> Q x s') s"
  by (auto simp: wp_iff)

lemma wp_if [wp_simps]: "wp (if b then m else n) Q s \<longleftrightarrow> (if b then wp m Q s else wp n Q s)"
  by simp

section \<open>Lists\<close>

lemma mod_shift_inj:
  fixes h i j n :: nat
  assumes "i < n" "j < n" "(h + i) mod n = (h + j) mod n"
  shows "i = j"
proof -
  have "int i mod int n = int j mod int n"
    using assms(3) by (metis add_diff_cancel_left' mod_diff_left_eq of_nat_add zmod_int)
  then show ?thesis using assms(1,2) by simp
qed

lemma rotate_list_update:
  assumes "i < length xs"
  shows "rotate h (xs[(h + i) mod length xs := v]) = (rotate h xs)[i := v]"
proof (rule nth_equalityI)
  have pos: "0 < length xs" using assms by linarith
  fix j assume "j < length (rotate h (xs[(h + i) mod length xs := v]))"
  then have j: "j < length xs" by simp
  have iff: "(h + j) mod length xs = (h + i) mod length xs \<longleftrightarrow> j = i"
    using mod_shift_inj [OF j assms] by blast
  have "(h + j) mod length xs < length xs" using pos by simp
  then show "rotate h (xs[(h + i) mod length xs := v]) ! j = (rotate h xs)[i := v] ! j"
    using j assms iff by (cases "j = i") (simp_all add: nth_rotate nth_list_update)
qed simp

lemma rotate_Suc_Cons: "rotate h xs = y # ys \<Longrightarrow> rotate (Suc h) xs = ys @ [y]"
  by simp

lemma rotate_mod_length: "rotate (n mod length xs) xs = rotate n xs"
  by (metis rotate_conv_mod)

end
