(* ===== verification/Task_Queue.thy ===== *)
theory Task_Queue
  imports Cognis_Prelude
begin

text \<open>
  The fixed-capacity queues of \<open>src/task_queue.rs\<close>: \<open>TaskRing\<close>, a ring buffer over
  possibly uninitialised memory, and \<open>TaskQueue\<close>, a ring with one inline deferred slot.

  A cell of \<open>Box<[MaybeUninit<T>]>\<close> is \<open>Uninit\<close> or \<open>Init v\<close>. Moving a value out
  (\<open>assume_init_read\<close>) leaves the cell \<open>Uninit\<close>, so reading a value twice, reading
  memory never written and leaking a value are all visible in the model: a read of \<open>Uninit\<close>
  is \<open>Undefined_Behaviour\<close>, an index out of range is \<open>Panic\<close>. Rust's
  \<open>Result<A, B>\<close> is the sum \<open>B + A\<close>.

  The locale \<open>bounded_fifo\<close> is the contract both queues promise to the scheduler: a FIFO
  list of at most \<open>capacity\<close> values whose operations never fault.
\<close>

section \<open>TaskRing\<close>

datatype 'a mem = Uninit | Init 'a

fun the_init :: "'a mem \<Rightarrow> 'a" where
  "the_init (Init v) = v"
| "the_init Uninit = undefined"

record 'a task_ring =
  ring_buf :: "'a mem list"
  ring_head :: nat
  ring_tail :: nat
  ring_len :: nat

definition ring_with_capacity :: "nat \<Rightarrow> fault + 'a task_ring" where
  "ring_with_capacity capacity =
     (if capacity > 0
      then Inr \<lparr>ring_buf = replicate capacity Uninit, ring_head = 0, ring_tail = 0, ring_len = 0\<rparr>
      else Inl Panic)"

definition ring_push_back :: "'a task_ring \<Rightarrow> 'a \<Rightarrow> fault + (('a + unit) \<times> 'a task_ring)" where
  "ring_push_back r v =
     (if ring_len r = length (ring_buf r) then Inr (Inl v, r)
      else if ring_tail r < length (ring_buf r)
      then Inr (Inr (), r\<lparr>ring_buf := (ring_buf r)[ring_tail r := Init v],
                         ring_tail := (ring_tail r + 1) mod length (ring_buf r),
                         ring_len := ring_len r + 1\<rparr>)
      else Inl Panic)"

definition ring_pop_front :: "'a task_ring \<Rightarrow> fault + ('a option \<times> 'a task_ring)" where
  "ring_pop_front r =
     (if ring_len r = 0 then Inr (None, r)
      else let idx = ring_head r in
        if idx < length (ring_buf r) then
          (case ring_buf r ! idx of
             Uninit \<Rightarrow> Inl Undefined_Behaviour
           | Init v \<Rightarrow> Inr (Some v, r\<lparr>ring_buf := (ring_buf r)[idx := Uninit],
                                     ring_head := (ring_head r + 1) mod length (ring_buf r),
                                     ring_len := ring_len r - 1\<rparr>))
        else Inl Panic)"

definition ring_front :: "'a task_ring \<Rightarrow> fault + 'a option" where
  "ring_front r =
     (if ring_len r = 0 then Inr None
      else if ring_head r < length (ring_buf r) then
        (case ring_buf r ! ring_head r of
           Uninit \<Rightarrow> Inl Undefined_Behaviour | Init v \<Rightarrow> Inr (Some v))
      else Inl Panic)"

definition ring_is_empty :: "'a task_ring \<Rightarrow> bool" where
  "ring_is_empty r \<longleftrightarrow> ring_len r = 0"

definition ring_capacity :: "'a task_ring \<Rightarrow> nat" where
  "ring_capacity r = length (ring_buf r)"

definition ring_is_full :: "'a task_ring \<Rightarrow> bool" where
  "ring_is_full r \<longleftrightarrow> ring_len r = length (ring_buf r)"

text \<open>\<open>Drop for TaskRing\<close>: pop until the ring is empty.\<close>

lemma ring_pop_front_len:
  "ring_pop_front r = Inr (Some v, r') \<Longrightarrow> ring_len r' < ring_len r"
  by (auto simp: ring_pop_front_def Let_def split: if_splits mem.splits)

function ring_drop :: "'a task_ring \<Rightarrow> fault + 'a task_ring" where
  "ring_drop r =
     (case ring_pop_front r of
        Inl e \<Rightarrow> Inl e
      | Inr (x, r') \<Rightarrow> (case x of None \<Rightarrow> Inr r' | Some v \<Rightarrow> ring_drop r'))"
  by pat_completeness auto
termination
  by (relation "measure ring_len") (auto dest: ring_pop_front_len)

declare ring_drop.simps [simp del]

section \<open>TaskQueue\<close>

datatype queue_push = Primary | Deferred

record 'a task_queue =
  primary :: "'a task_ring"
  deferred :: "'a option"

definition queue_with_capacity :: "nat \<Rightarrow> fault + 'a task_queue" where
  "queue_with_capacity capacity =
     bindR (ring_with_capacity capacity) (\<lambda>r. Inr \<lparr>primary = r, deferred = None\<rparr>)"

definition queue_push_back ::
    "'a task_queue \<Rightarrow> 'a \<Rightarrow> fault + (('a + queue_push) \<times> 'a task_queue)" where
  "queue_push_back q v =
     (if \<not> ring_is_full (primary q) then
        bindR (ring_push_back (primary q) v) (\<lambda>(res, r).
          Inr (map_sum id (\<lambda>_. Primary) res, q\<lparr>primary := r\<rparr>))
      else if deferred q = None then Inr (Inr Deferred, q\<lparr>deferred := Some v\<rparr>)
      else Inr (Inl v, q))"

definition refill_from_deferred :: "'a task_queue \<Rightarrow> fault + 'a task_queue" where
  "refill_from_deferred q =
     (if deferred q = None \<or> ring_is_full (primary q) then Inr q
      else case deferred q of
        None \<Rightarrow> Inr q
      | Some d \<Rightarrow>
          bindR (ring_push_back (primary q) d) (\<lambda>(res, r).
            case res of
              Inl task \<Rightarrow> Inr (q\<lparr>primary := r, deferred := Some task\<rparr>)
            | Inr _ \<Rightarrow> Inr (q\<lparr>primary := r, deferred := None\<rparr>)))"

definition queue_pop_front :: "'a task_queue \<Rightarrow> fault + ('a option \<times> 'a task_queue)" where
  "queue_pop_front q =
     bindR (ring_pop_front (primary q)) (\<lambda>(x, r).
       case x of
         Some task \<Rightarrow> bindR (refill_from_deferred (q\<lparr>primary := r\<rparr>)) (\<lambda>q'. Inr (Some task, q'))
       | None \<Rightarrow> Inr (deferred q, q\<lparr>primary := r, deferred := None\<rparr>))"

definition queue_front :: "'a task_queue \<Rightarrow> fault + 'a option" where
  "queue_front q =
     bindR (ring_front (primary q)) (\<lambda>x.
       Inr (case x of Some v \<Rightarrow> Some v | None \<Rightarrow> deferred q))"

definition queue_is_empty :: "'a task_queue \<Rightarrow> bool" where
  "queue_is_empty q \<longleftrightarrow> ring_is_empty (primary q) \<and> deferred q = None"

definition queue_len :: "'a task_queue \<Rightarrow> nat" where
  "queue_len q = ring_len (primary q) + (if deferred q \<noteq> None then 1 else 0)"

definition queue_capacity :: "'a task_queue \<Rightarrow> nat" where
  "queue_capacity q = ring_capacity (primary q) + 1"

definition has_deferred :: "'a task_queue \<Rightarrow> bool" where
  "has_deferred q \<longleftrightarrow> deferred q \<noteq> None"

section \<open>The contract of a bounded FIFO\<close>

text \<open>
  A client sequence of pushes and pops. \<open>fifo_run\<close> returns the values popped, the values
  accepted by a push (a rejected value stays with the caller) and the final queue.
\<close>

datatype 'a fifo_op = Push 'a | Pop

fun fifo_run ::
    "('q \<Rightarrow> 'a \<Rightarrow> fault + (('a + 'k) \<times> 'q)) \<Rightarrow> ('q \<Rightarrow> fault + ('a option \<times> 'q)) \<Rightarrow>
     'a fifo_op list \<Rightarrow> 'q \<Rightarrow> fault + ('a list \<times> 'a list \<times> 'q)" where
  "fifo_run push pop [] q = Inr ([], [], q)"
| "fifo_run push pop (Push v # ops) q =
     bindR (push q v) (\<lambda>(res, q').
       bindR (fifo_run push pop ops q') (\<lambda>(popped, accepted, q'').
         Inr (popped, (case res of Inl _ \<Rightarrow> accepted | Inr _ \<Rightarrow> v # accepted), q'')))"
| "fifo_run push pop (Pop # ops) q =
     bindR (pop q) (\<lambda>(x, q').
       bindR (fifo_run push pop ops q') (\<lambda>(popped, accepted, q'').
         Inr ((case x of None \<Rightarrow> popped | Some v \<Rightarrow> v # popped), accepted, q'')))"

locale bounded_fifo =
  fixes push :: "'q \<Rightarrow> 'a \<Rightarrow> fault + (('a + 'k) \<times> 'q)"
    and pop :: "'q \<Rightarrow> fault + ('a option \<times> 'q)"
    and front :: "'q \<Rightarrow> fault + 'a option"
    and len :: "'q \<Rightarrow> nat"
    and cap :: "'q \<Rightarrow> nat"
    and contents :: "'q \<Rightarrow> 'a list"
    and valid :: "'q \<Rightarrow> bool"
  assumes push_room: "valid q \<Longrightarrow> length (contents q) < cap q \<Longrightarrow>
      \<exists>k q'. push q v = Inr (Inr k, q') \<and> valid q' \<and> contents q' = contents q @ [v] \<and> cap q' = cap q"
    and push_full: "valid q \<Longrightarrow> length (contents q) = cap q \<Longrightarrow> push q v = Inr (Inl v, q)"
    and pop_empty: "valid q \<Longrightarrow> contents q = [] \<Longrightarrow> pop q = Inr (None, q)"
    and pop_cons: "valid q \<Longrightarrow> contents q = x # xs \<Longrightarrow>
      \<exists>q'. pop q = Inr (Some x, q') \<and> valid q' \<and> contents q' = xs \<and> cap q' = cap q"
    and front_nil: "valid q \<Longrightarrow> contents q = [] \<Longrightarrow> front q = Inr None"
    and front_cons: "valid q \<Longrightarrow> contents q = x # xs \<Longrightarrow> front q = Inr (Some x)"
    and len_contents: "valid q \<Longrightarrow> len q = length (contents q)"
    and within_cap: "valid q \<Longrightarrow> length (contents q) \<le> cap q"
begin

lemma push_total:
  assumes "valid q"
  shows "\<exists>res q'. push q v = Inr (res, q') \<and> valid q' \<and> cap q' = cap q \<and>
    contents q' = contents q @ (case res of Inl _ \<Rightarrow> [] | Inr _ \<Rightarrow> [v])"
proof (cases "length (contents q) < cap q")
  case True
  with push_room [OF assms True, of v] show ?thesis by fastforce
next
  case False
  with within_cap [OF assms] have "length (contents q) = cap q" by simp
  with push_full [OF assms, of v] assms show ?thesis by auto
qed

lemma pop_total:
  assumes "valid q"
  shows "\<exists>x q'. pop q = Inr (x, q') \<and> valid q' \<and> cap q' = cap q \<and>
    contents q = (case x of None \<Rightarrow> [] | Some v \<Rightarrow> [v]) @ contents q'"
  using pop_empty [OF assms] pop_cons [OF assms] assms
  by (cases "contents q") fastforce+

lemma run_conserves:
  "valid q \<Longrightarrow> \<exists>popped accepted q'. fifo_run push pop ops q = Inr (popped, accepted, q') \<and>
     valid q' \<and> cap q' = cap q \<and> contents q @ accepted = popped @ contents q'"
proof (induction ops arbitrary: q)
  case Nil
  then show ?case by simp
next
  case (Cons a ops)
  show ?case
  proof (cases a)
    case (Push v)
    obtain res q1 where 1: "push q v = Inr (res, q1)" "valid q1" "cap q1 = cap q"
        "contents q1 = contents q @ (case res of Inl _ \<Rightarrow> [] | Inr _ \<Rightarrow> [v])"
      using push_total [OF Cons.prems] by blast
    from Cons.IH [OF 1(2)] obtain popped accepted q2 where
        "fifo_run push pop ops q1 = Inr (popped, accepted, q2)" "valid q2" "cap q2 = cap q1"
        "contents q1 @ accepted = popped @ contents q2"
      by blast
    with 1 Push show ?thesis by (cases res) auto
  next
    case Pop
    obtain x q1 where 1: "pop q = Inr (x, q1)" "valid q1" "cap q1 = cap q"
        "contents q = (case x of None \<Rightarrow> [] | Some v \<Rightarrow> [v]) @ contents q1"
      using pop_total [OF Cons.prems] by blast
    from Cons.IH [OF 1(2)] obtain popped accepted q2 where
        "fifo_run push pop ops q1 = Inr (popped, accepted, q2)" "valid q2" "cap q2 = cap q1"
        "contents q1 @ accepted = popped @ contents q2"
      by blast
    with 1 Pop show ?thesis by (cases x) auto
  qed
qed

text \<open>After a successful pop there is room for one more value.\<close>

lemma pop_push_room:
  assumes "valid q" and "pop q = Inr (Some x, q')"
  shows "valid q' \<and> cap q' = cap q \<and> contents q = x # contents q' \<and> length (contents q') < cap q'"
  using pop_total [OF assms(1)] within_cap [OF assms(1)] assms(2) by auto

end

section \<open>TaskRing implements the contract\<close>

definition ring_contents :: "'a task_ring \<Rightarrow> 'a list" where
  "ring_contents r = map the_init (take (ring_len r) (rotate (ring_head r) (ring_buf r)))"

text \<open>
  The live cells are the \<open>len\<close> cells from \<open>head\<close> on, cyclically, and exactly those are
  initialised.
\<close>

definition ring_valid :: "'a task_ring \<Rightarrow> bool" where
  "ring_valid r \<longleftrightarrow>
     ring_head r < length (ring_buf r) \<and> ring_len r \<le> length (ring_buf r) \<and>
     ring_tail r = (ring_head r + ring_len r) mod length (ring_buf r) \<and>
     rotate (ring_head r) (ring_buf r) =
       map Init (ring_contents r) @ replicate (length (ring_buf r) - ring_len r) Uninit"

lemma the_init_Init [simp]: "map (the_init \<circ> Init) xs = xs"
  by (induction xs) auto

lemma length_ring_contents:
  "ring_len r \<le> length (ring_buf r) \<Longrightarrow> length (ring_contents r) = ring_len r"
  by (simp add: ring_contents_def)

lemma ring_contentsI:
  "rotate (ring_head r) (ring_buf r) = map Init xs @ ys \<Longrightarrow> length xs = ring_len r \<Longrightarrow>
   ring_contents r = xs"
  by (simp add: ring_contents_def)

lemma ring_validI:
  assumes "rotate (ring_head r) (ring_buf r) = map Init xs @ replicate n Uninit"
    and "length xs = ring_len r" and "ring_head r < length (ring_buf r)"
    and "ring_tail r = (ring_head r + ring_len r) mod length (ring_buf r)"
  shows "ring_valid r \<and> ring_contents r = xs"
proof -
  have "length (ring_buf r) = length xs + n"
    using arg_cong [OF assms(1), of length] by simp
  with ring_contentsI [OF assms(1,2)] assms show ?thesis by (simp add: ring_valid_def)
qed

lemma ring_with_capacity_valid:
  assumes "0 < n"
  shows "\<exists>r. ring_with_capacity n = Inr r \<and> ring_valid r \<and> ring_contents r = [] \<and> ring_capacity r = n"
  using assms by (simp add: ring_with_capacity_def ring_valid_def ring_contents_def ring_capacity_def)

lemma ring_push_room:
  assumes "ring_valid r" and room: "length (ring_contents r) < ring_capacity r"
  shows "\<exists>r'. ring_push_back r v = Inr (Inr (), r') \<and> ring_valid r' \<and>
           ring_contents r' = ring_contents r @ [v] \<and> ring_capacity r' = ring_capacity r"
proof -
  let ?n = "length (ring_buf r)"
  note v = assms(1) [unfolded ring_valid_def]
  have lenc: "length (ring_contents r) = ring_len r" and lt: "ring_len r < ?n"
    using v room by (auto simp: length_ring_contents ring_capacity_def)
  define r' where "r' = r\<lparr>ring_buf := (ring_buf r)[ring_tail r := Init v],
      ring_tail := (ring_tail r + 1) mod ?n, ring_len := ring_len r + 1\<rparr>"
  have "0 < ?n" using lt by linarith
  then have tail: "ring_tail r < ?n" using v by simp
  have push: "ring_push_back r v = Inr (Inr (), r')"
    using lt tail by (simp add: ring_push_back_def r'_def)
  have "rotate (ring_head r) ((ring_buf r)[ring_tail r := Init v])
      = (map Init (ring_contents r) @ replicate (?n - ring_len r) Uninit)[ring_len r := Init v]"
    using v lt rotate_list_update [OF lt, of "ring_head r" "Init v"] by simp
  also have "\<dots> = map Init (ring_contents r @ [v]) @ replicate (?n - Suc (ring_len r)) Uninit"
    using lt lenc by (simp add: list_update_append Suc_diff_Suc [OF lt, symmetric])
  finally have "ring_valid r' \<and> ring_contents r' = ring_contents r @ [v]"
    using v lenc by (intro ring_validI) (auto simp: r'_def mod_Suc_eq)
  with push show ?thesis by (auto simp: r'_def ring_capacity_def)
qed

lemma ring_pop_cons:
  assumes "ring_valid r" and cons: "ring_contents r = x # xs"
  shows "\<exists>r'. ring_pop_front r = Inr (Some x, r') \<and> ring_valid r' \<and>
           ring_contents r' = xs \<and> ring_capacity r' = ring_capacity r"
    and "ring_front r = Inr (Some x)"
proof -
  let ?n = "length (ring_buf r)" and ?h = "ring_head r"
  note v = assms(1) [unfolded ring_valid_def]
  have len: "ring_len r = Suc (length xs)" using v cons length_ring_contents [of r] by simp
  have rot: "rotate ?h (ring_buf r) = Init x # map Init xs @ replicate (?n - ring_len r) Uninit"
    using v cons by simp
  have pos: "0 < ?n" using v by linarith
  have hd: "?h < ?n" using v by simp
  have "ring_buf r ! ?h = rotate ?h (ring_buf r) ! 0"
    using nth_rotate [OF pos, of ?h] hd by simp
  also have "\<dots> = Init x" by (subst rot) simp
  finally have head: "ring_buf r ! ?h = Init x" .
  define r' where "r' = r\<lparr>ring_buf := (ring_buf r)[?h := Uninit],
      ring_head := (?h + 1) mod ?n, ring_len := ring_len r - 1\<rparr>"
  have pop: "ring_pop_front r = Inr (Some x, r')"
    using v len head by (simp add: ring_pop_front_def r'_def Let_def)
  show "ring_front r = Inr (Some x)"
    using v len head by (simp add: ring_front_def)
  have "rotate ?h ((ring_buf r)[?h := Uninit]) = (rotate ?h (ring_buf r))[0 := Uninit]"
    using rotate_list_update [OF pos, of ?h Uninit] hd by simp
  also have "\<dots> = Uninit # map Init xs @ replicate (?n - ring_len r) Uninit"
    by (subst rot) simp
  finally have "rotate ?h ((ring_buf r)[?h := Uninit])
      = Uninit # map Init xs @ replicate (?n - ring_len r) Uninit" .
  moreover have "?n - length xs = Suc (?n - ring_len r)" using len v by linarith
  ultimately have "rotate (Suc ?h) ((ring_buf r)[?h := Uninit])
      = map Init xs @ replicate (?n - length xs) Uninit"
    by (simp add: replicate_append_same)
  then have rot': "rotate (ring_head r') (ring_buf r') = map Init xs @ replicate (?n - length xs) Uninit"
    using rotate_mod_length [of "Suc ?h" "(ring_buf r)[?h := Uninit]"] by (simp add: r'_def)
  have "ring_valid r' \<and> ring_contents r' = xs"
    using v len rot' pos
    by (intro ring_validI) (auto simp: r'_def mod_add_left_eq mod_simps)
  with pop show "\<exists>r'. ring_pop_front r = Inr (Some x, r') \<and> ring_valid r' \<and>
           ring_contents r' = xs \<and> ring_capacity r' = ring_capacity r"
    by (auto simp: r'_def ring_capacity_def)
qed

lemma ring_len_contents: "ring_valid r \<Longrightarrow> ring_len r = length (ring_contents r)"
  by (simp add: ring_valid_def length_ring_contents)

lemma ring_nil:
  assumes "ring_valid r" and "ring_contents r = []"
  shows "ring_pop_front r = Inr (None, r)" and "ring_front r = Inr None"
  using ring_len_contents [OF assms(1)] assms(2)
  by (simp_all add: ring_pop_front_def ring_front_def)

lemma ring_push_full:
  "ring_valid r \<Longrightarrow> length (ring_contents r) = ring_capacity r \<Longrightarrow> ring_push_back r v = Inr (Inl v, r)"
  using ring_len_contents [of r] by (simp add: ring_push_back_def ring_capacity_def)

lemma ring_full_contents:
  "ring_valid r \<Longrightarrow> ring_is_full r \<longleftrightarrow> length (ring_contents r) = ring_capacity r"
  using ring_len_contents [of r] by (simp add: ring_is_full_def ring_capacity_def)

lemma ring_within_cap: "ring_valid r \<Longrightarrow> length (ring_contents r) \<le> ring_capacity r"
  by (simp add: ring_len_contents [symmetric] ring_capacity_def) (simp add: ring_valid_def)

interpretation ring: bounded_fifo ring_push_back ring_pop_front ring_front ring_len ring_capacity
    ring_contents ring_valid
  by unfold_locales
    (use ring_push_room in fastforce,
      auto simp: ring_push_full ring_nil ring_len_contents ring_within_cap
           dest: ring_pop_cons)

section \<open>TaskQueue implements the contract\<close>

definition queue_contents :: "'a task_queue \<Rightarrow> 'a list" where
  "queue_contents q =
     ring_contents (primary q) @ (case deferred q of None \<Rightarrow> [] | Some d \<Rightarrow> [d])"

text \<open>The deferred slot is used only while the primary ring is full.\<close>

definition queue_valid :: "'a task_queue \<Rightarrow> bool" where
  "queue_valid q \<longleftrightarrow>
     ring_valid (primary q) \<and> (deferred q \<noteq> None \<longrightarrow> ring_is_full (primary q))"

lemma queue_with_capacity_valid:
  assumes "0 < n"
  shows "\<exists>q :: 'a task_queue. queue_with_capacity n = Inr q \<and> queue_valid q \<and> queue_contents q = [] \<and>
    queue_capacity q = n + 1"
proof -
  obtain r :: "'a task_ring" where
    "ring_with_capacity n = Inr r" "ring_valid r" "ring_contents r = []" "ring_capacity r = n"
    using ring_with_capacity_valid [OF assms] by blast
  then show ?thesis
    by (simp add: queue_with_capacity_def queue_valid_def queue_contents_def queue_capacity_def)
qed

lemma queue_push_primary:
  assumes "queue_valid q" and room: "\<not> ring_is_full (primary q)"
  shows "\<exists>q'. queue_push_back q v = Inr (Inr Primary, q') \<and> queue_valid q' \<and>
    queue_contents q' = queue_contents q @ [v] \<and> queue_capacity q' = queue_capacity q"
proof -
  have v: "ring_valid (primary q)" and d: "deferred q = None"
    using assms by (auto simp: queue_valid_def)
  have "length (ring_contents (primary q)) < ring_capacity (primary q)"
    using room ring_full_contents [OF v] ring_within_cap [OF v] by linarith
  from ring_push_room [OF v this, of v] obtain r where
      "ring_push_back (primary q) v = Inr (Inr (), r)" "ring_valid r"
      "ring_contents r = ring_contents (primary q) @ [v]"
      "ring_capacity r = ring_capacity (primary q)"
    by blast
  with room d show ?thesis
    by (auto simp: queue_push_back_def queue_valid_def queue_contents_def queue_capacity_def)
qed

lemma queue_push_deferred:
  assumes "queue_valid q" and "ring_is_full (primary q)" and "deferred q = None"
  shows "\<exists>q'. queue_push_back q v = Inr (Inr Deferred, q') \<and> queue_valid q' \<and>
    queue_contents q' = queue_contents q @ [v] \<and> queue_capacity q' = queue_capacity q"
  using assms
  by (auto simp: queue_push_back_def queue_valid_def queue_contents_def queue_capacity_def)

lemma length_queue_contents:
  assumes "queue_valid q"
  shows "length (queue_contents q) = queue_len q"
    and "queue_len q \<le> queue_capacity q"
    and "queue_len q = queue_capacity q \<longleftrightarrow> ring_is_full (primary q) \<and> deferred q \<noteq> None"
proof -
  have v: "ring_valid (primary q)" using assms by (simp add: queue_valid_def)
  note facts = ring_len_contents [OF v] ring_within_cap [OF v] ring_full_contents [OF v]
  show "length (queue_contents q) = queue_len q"
    using facts by (auto simp: queue_contents_def queue_len_def split: option.splits)
  show "queue_len q \<le> queue_capacity q"
    using facts by (auto simp: queue_len_def queue_capacity_def)
  show "queue_len q = queue_capacity q \<longleftrightarrow> ring_is_full (primary q) \<and> deferred q \<noteq> None"
    using facts by (auto simp: queue_len_def queue_capacity_def)
qed

lemma queue_pop_nil:
  assumes "queue_valid q" and "queue_contents q = []"
  shows "queue_pop_front q = Inr (None, q)" and "queue_front q = Inr None"
  using assms ring_nil [of "primary q"]
  by (auto simp: queue_pop_front_def queue_front_def queue_valid_def queue_contents_def
           split: option.splits)

lemma queue_contents_cons:
  assumes "queue_valid q" and "queue_contents q = x # xs"
  obtains ys where "ring_contents (primary q) = x # ys"
    and "xs = ys @ (case deferred q of None \<Rightarrow> [] | Some d \<Rightarrow> [d])"
proof (cases "ring_contents (primary q)")
  case Nil
  have v: "ring_valid (primary q)" using assms by (simp add: queue_valid_def)
  have "0 < ring_capacity (primary q)"
    using v by (auto simp: ring_valid_def ring_capacity_def)
  with Nil ring_full_contents [OF v] have "deferred q = None"
    using assms(1) by (auto simp: queue_valid_def)
  with Nil assms(2) show ?thesis by (simp add: queue_contents_def)
next
  case (Cons y ys)
  with assms(2) that show ?thesis by (simp add: queue_contents_def)
qed

lemma queue_pop_cons:
  assumes "queue_valid q" and "queue_contents q = x # xs"
  shows "\<exists>q'. queue_pop_front q = Inr (Some x, q') \<and> queue_valid q' \<and> queue_contents q' = xs \<and>
           queue_capacity q' = queue_capacity q \<and> deferred q' = None"
proof -
  obtain ys where ys: "ring_contents (primary q) = x # ys"
      and xs: "xs = ys @ (case deferred q of None \<Rightarrow> [] | Some d \<Rightarrow> [d])"
    using queue_contents_cons [OF assms] .
  have v: "ring_valid (primary q)" using assms by (simp add: queue_valid_def)
  obtain r where r: "ring_pop_front (primary q) = Inr (Some x, r)" "ring_valid r"
      "ring_contents r = ys" "ring_capacity r = ring_capacity (primary q)"
    using ring_pop_cons(1) [OF v ys] by blast
  have room: "length (ring_contents r) < ring_capacity r"
    using ring_within_cap [OF v] ys r by simp
  then have nfull: "\<not> ring_is_full r" using ring_full_contents [OF r(2)] by simp
  show ?thesis
  proof (cases "deferred q")
    case None
    with r xs show ?thesis
      by (auto simp: queue_pop_front_def refill_from_deferred_def queue_valid_def
          queue_contents_def queue_capacity_def)
  next
    case (Some d)
    from ring_push_room [OF r(2) room, of d] obtain r2 where
        "ring_push_back r d = Inr (Inr (), r2)" "ring_valid r2"
        "ring_contents r2 = ys @ [d]" "ring_capacity r2 = ring_capacity r"
      using r by auto
    with Some r xs nfull show ?thesis
      by (auto simp: queue_pop_front_def refill_from_deferred_def queue_valid_def
          queue_contents_def queue_capacity_def)
  qed
qed

lemma queue_front_cons:
  assumes "queue_valid q" and "queue_contents q = x # xs"
  shows "queue_front q = Inr (Some x)"
proof -
  obtain ys where "ring_contents (primary q) = x # ys"
    using queue_contents_cons [OF assms] .
  with ring_pop_cons(2) [of "primary q"] assms(1) show ?thesis
    by (simp add: queue_front_def queue_valid_def)
qed

lemma queue_push_room:
  assumes "queue_valid q" and "length (queue_contents q) < queue_capacity q"
  shows "\<exists>k q'. queue_push_back q v = Inr (Inr k, q') \<and> queue_valid q' \<and>
    queue_contents q' = queue_contents q @ [v] \<and> queue_capacity q' = queue_capacity q"
  using queue_push_primary [OF assms(1), of v] queue_push_deferred [OF assms(1), of v]
    length_queue_contents [OF assms(1)] assms(2)
  by (metis order_less_irrefl)

lemma queue_push_full:
  assumes "queue_valid q" and "length (queue_contents q) = queue_capacity q"
  shows "queue_push_back q v = Inr (Inl v, q)"
  using length_queue_contents [OF assms(1)] assms(2) by (auto simp: queue_push_back_def)

interpretation queue: bounded_fifo queue_push_back queue_pop_front queue_front queue_len
    queue_capacity queue_contents queue_valid
  by unfold_locales
    (use queue_push_room in fastforce,
      auto simp: queue_push_full queue_pop_nil queue_front_cons length_queue_contents
           dest: queue_pop_cons)

lemma queue_is_empty_contents:
  "queue_valid q \<Longrightarrow> queue_is_empty q \<longleftrightarrow> queue_contents q = []"
  using ring_len_contents [of "primary q"]
  by (auto simp: queue_is_empty_def queue_valid_def queue_contents_def ring_is_empty_def
           split: option.splits)

lemma ring_drop_uninit:
  assumes "ring_valid r"
  shows "\<exists>r'. ring_drop r = Inr r' \<and> ring_buf r' = replicate (ring_capacity r) Uninit"
  using assms
proof (induction "ring_contents r" arbitrary: r)
  case Nil
  then have "rotate (ring_head r) (ring_buf r) = replicate (ring_capacity r) Uninit"
    using ring_len_contents [OF Nil.prems] by (simp add: ring_valid_def ring_capacity_def)
  then have "set (ring_buf r) \<subseteq> {Uninit}"
    by (metis set_replicate_conv_if set_rotate subset_insertI subset_refl)
  then have "ring_buf r = replicate (ring_capacity r) Uninit"
    by (auto simp: ring_capacity_def intro!: replicate_eqI)
  moreover have "ring_drop r = Inr r"
    using ring_nil(1) [OF Nil.prems] Nil.hyps by (simp add: ring_drop.simps)
  ultimately show ?case by simp
next
  case (Cons x xs)
  from ring_pop_cons(1) [OF Cons.prems Cons.hyps(2) [symmetric]] obtain r' where
      r': "ring_pop_front r = Inr (Some x, r')" "ring_valid r'" "ring_contents r' = xs"
      "ring_capacity r' = ring_capacity r"
    by blast
  with Cons.hyps(1) [of r'] show ?case by (auto simp: ring_drop.simps [of r])
qed

section \<open>Properties\<close>

text \<open>
  C16. From a freshly built \<open>TaskQueue\<close>, every sequence of pushes and pops runs without a panic
  and without touching uninitialised memory; the accepted values come out in the order they were
  accepted, none lost and none duplicated: the values popped so far followed by what the queue
  still holds are exactly the accepted values, and the queue never holds more than one value above
  the ring's capacity.
\<close>

theorem task_queue_fifo:
  fixes q :: "'a task_queue"
  assumes "queue_with_capacity n = Inr q"
  shows "\<exists>popped accepted q'. fifo_run queue_push_back queue_pop_front ops q = Inr (popped, accepted, q') \<and>
    accepted = popped @ queue_contents q' \<and> queue_len q' = length (queue_contents q') \<and>
    queue_len q' \<le> n + 1"
proof -
  have "0 < n" using assms by (auto simp: queue_with_capacity_def ring_with_capacity_def split: if_splits)
  then have q: "queue_valid q" "queue_contents q = []" "queue_capacity q = n + 1"
    using queue_with_capacity_valid [OF \<open>0 < n\<close>, where 'a = 'a] assms by auto
  from queue.run_conserves [OF q(1), of ops] q(2,3) show ?thesis
    using queue.len_contents queue.within_cap by fastforce
qed

theorem task_queue_fifo_witness:
  "\<exists>popped accepted q'.
     fifo_run queue_push_back queue_pop_front [Push 1, Push 2, Push 3, Push 4, Pop, Pop, Push 5, Pop]
       \<lparr>primary = \<lparr>ring_buf = [Uninit, Uninit], ring_head = 0, ring_tail = 0, ring_len = 0\<rparr>,
        deferred = None\<rparr> = Inr (popped, accepted, q') \<and>
     accepted = popped @ queue_contents q' \<and> queue_len q' = length (queue_contents q') \<and>
     queue_len q' \<le> 2 + (1 :: nat) \<and> popped = [1, 2, 3 :: nat]"
proof -
  let ?q = "\<lparr>primary = \<lparr>ring_buf = [Uninit, Uninit], ring_head = 0, ring_tail = 0, ring_len = 0\<rparr>,
        deferred = None\<rparr> :: nat task_queue"
  let ?ops = "[Push 1, Push 2, Push 3, Push 4, Pop, Pop, Push 5, Pop] :: nat fifo_op list"
  have "queue_with_capacity 2 = Inr ?q"
    by (simp add: queue_with_capacity_def ring_with_capacity_def numeral_2_eq_2)
  from task_queue_fifo [OF this, of ?ops]
  show ?thesis
    by (auto simp: queue_push_back_def queue_pop_front_def ring_push_back_def ring_pop_front_def
        ring_is_full_def refill_from_deferred_def Let_def mod_Suc numeral_2_eq_2)
qed

text \<open>
  \<open>TaskQueue::push_back\<close> on every branch: it answers \<open>Primary\<close> while the ring has room,
  \<open>Deferred\<close> for exactly one more value once the ring is full, and hands the value back
  untouched when the deferred slot is taken too.
\<close>

theorem queue_push_back_branches:
  assumes "queue_valid q"
  shows "\<exists>res q'. queue_push_back q v = Inr (res, q') \<and> queue_valid q' \<and>
     res = (if queue_len q < ring_capacity (primary q) then Inr Primary
            else if queue_len q = ring_capacity (primary q) then Inr Deferred else Inl v) \<and>
     queue_contents q' = queue_contents q @ (case res of Inl _ \<Rightarrow> [] | Inr _ \<Rightarrow> [v]) \<and>
     (has_deferred q' \<longleftrightarrow> ring_capacity (primary q) \<le> queue_len q)"
proof -
  have v: "ring_valid (primary q)" using assms by (simp add: queue_valid_def)
  have len: "queue_len q = length (ring_contents (primary q)) + (if deferred q \<noteq> None then 1 else 0)"
    using ring_len_contents [OF v] by (simp add: queue_len_def)
  note cap = ring_within_cap [OF v] ring_full_contents [OF v]
  consider (room) "\<not> ring_is_full (primary q)" | (spill) "ring_is_full (primary q)" "deferred q = None"
    | (full) "ring_is_full (primary q)" "deferred q \<noteq> None" by blast
  then show ?thesis
  proof cases
    case room
    then have "deferred q = None" using assms by (auto simp: queue_valid_def)
    moreover have "queue_len q < ring_capacity (primary q)"
      using room len cap \<open>deferred q = None\<close> by simp
    moreover have "\<And>q' res. queue_push_back q v = Inr (res, q') \<Longrightarrow> has_deferred q' = has_deferred q"
      using room by (auto simp: queue_push_back_def has_deferred_def rust_simps)
    ultimately show ?thesis
      using queue_push_primary [OF assms room, of v] by (fastforce simp: has_deferred_def)
  next
    case spill
    then have "queue_len q = ring_capacity (primary q)" using len cap by simp
    moreover have "\<And>q' res. queue_push_back q v = Inr (res, q') \<Longrightarrow> has_deferred q'"
      using spill by (auto simp: queue_push_back_def has_deferred_def)
    ultimately show ?thesis using queue_push_deferred [OF assms spill, of v] by fastforce
  next
    case full
    then have "queue_len q = Suc (ring_capacity (primary q))" using len cap by simp
    with full show ?thesis using assms by (simp add: queue_push_back_def has_deferred_def)
  qed
qed

theorem queue_push_back_branches_witness:
  "\<exists>res q'. queue_push_back
      \<lparr>primary = \<lparr>ring_buf = [Init (7 :: nat)], ring_head = 0, ring_tail = 0, ring_len = 1\<rparr>,
       deferred = None\<rparr> 8 = Inr (res, q') \<and> res = Inr Deferred \<and> queue_contents q' = [7, 8]"
proof -
  let ?q = "\<lparr>primary = \<lparr>ring_buf = [Init (7 :: nat)], ring_head = 0, ring_tail = 0, ring_len = 1\<rparr>,
       deferred = None\<rparr>"
  have "queue_valid ?q" by (simp add: queue_valid_def ring_valid_def ring_contents_def)
  from queue_push_back_branches [OF this, of 8] show ?thesis
    by (auto simp: queue_len_def ring_capacity_def queue_contents_def ring_contents_def)
qed

text \<open>
  Dropping a \<open>TaskRing\<close> terminates without a fault and moves every stored value out exactly
  once: no cell is left initialised, so nothing leaks and nothing is read twice.
\<close>

theorem task_ring_drop_releases_all:
  assumes "ring_valid r"
  shows "\<exists>r'. ring_drop r = Inr r' \<and> ring_buf r' = replicate (ring_capacity r) Uninit"
  using assms by (rule ring_drop_uninit)

theorem task_ring_drop_releases_all_witness:
  "\<exists>r'. ring_drop \<lparr>ring_buf = [Init (2 :: nat), Uninit, Init 1], ring_head = 2, ring_tail = 1, ring_len = 2\<rparr>
      = Inr r' \<and> ring_buf r' = [Uninit, Uninit, Uninit]"
proof -
  let ?r = "\<lparr>ring_buf = [Init (2 :: nat), Uninit, Init 1], ring_head = 2, ring_tail = 1, ring_len = 2\<rparr>"
  have "ring_valid ?r" by (simp add: ring_valid_def ring_contents_def rotate_def numeral_2_eq_2)
  from task_ring_drop_releases_all [OF this] show ?thesis
    by (simp add: ring_capacity_def numeral_3_eq_3)
qed

end
