(* ===== verification/Pid_Table.thy ===== *)
theory Pid_Table
  imports Cognis_Prelude
begin

text \<open>
  The fixed-size open-addressing PID table that \<open>TrustTable\<close> (\<open>src/ai/trust.rs\<close>) and the
  scheduler's lifetime table (\<open>src/main.rs\<close>) both implement: Fibonacci hashing to one of 4096
  slots, linear probing with wrap-around, tombstones on removal, eviction of the home slot when the
  table is full.

  An array \<open>[T; 4096]\<close> is a function from slot numbers; \<open>probe_pos_less\<close> shows that only
  slots below 4096 are ever addressed. The table is a hash map as long as \<open>pids_valid\<close> holds: no
  live PID owns two slots, and no empty slot lies between a PID's home slot and the slot it owns.

  The locale \<open>pid_store\<close> is the contract of a table that keeps a row of data per slot; its
  lemmas describe the table as a partial map from PIDs to rows.
\<close>

unbundle bit_operations_syntax

section \<open>Hashing and probing\<close>

definition TABLE_SIZE :: nat where "TABLE_SIZE = 4096"
definition PID_EMPTY :: i32 where "PID_EMPTY = 0"
definition PID_TOMBSTONE :: i32 where "PID_TOMBSTONE = - 1"
definition FIB32 :: u32 where "FIB32 = 2654435769"

definition slot :: "i32 \<Rightarrow> nat" where
  "slot pid = unat (drop_bit 20 (pid * FIB32))"

definition probe_pos :: "nat \<Rightarrow> nat \<Rightarrow> nat" where
  "probe_pos start step = (start + step) AND (TABLE_SIZE - 1)"

text \<open>The loop of \<open>find_slot\<close>, from iteration \<open>step\<close> on.\<close>

function find_from :: "(nat \<Rightarrow> i32) \<Rightarrow> i32 \<Rightarrow> nat \<Rightarrow> nat \<Rightarrow> nat option" where
  "find_from pids pid start step =
     (if step < TABLE_SIZE then
        let s = probe_pos start step; cur = pids s in
          if cur = pid then Some s
          else if cur = PID_EMPTY then None
          else find_from pids pid start (step + 1)
      else None)"
  by pat_completeness auto
termination
  by (relation "measure (\<lambda>(pids, pid, start, step). TABLE_SIZE - step)") auto

definition find_slot :: "(nat \<Rightarrow> i32) \<Rightarrow> i32 \<Rightarrow> nat option" where
  "find_slot pids pid = find_from pids pid (slot pid) 0"

text \<open>
  The loop of \<open>get_or_insert_slot\<close>: \<open>Existing s\<close> when the PID owns slot \<open>s\<close>, \<open>Fresh d\<close>
  when it takes slot \<open>d\<close> and the caller resets the slot's data.
\<close>

datatype probe_result = Existing nat | Fresh nat

function insert_from :: "(nat \<Rightarrow> i32) \<Rightarrow> i32 \<Rightarrow> nat \<Rightarrow> nat \<Rightarrow> nat option \<Rightarrow> probe_result" where
  "insert_from pids pid start step first_tombstone =
     (if step < TABLE_SIZE then
        let s = probe_pos start step; cur = pids s in
          if cur = pid then Existing s
          else if cur = PID_TOMBSTONE \<and> first_tombstone = None
          then insert_from pids pid start (step + 1) (Some s)
          else if cur = PID_EMPTY
          then Fresh (case first_tombstone of Some d \<Rightarrow> d | None \<Rightarrow> s)
          else insert_from pids pid start (step + 1) first_tombstone
      else Fresh (case first_tombstone of Some d \<Rightarrow> d | None \<Rightarrow> start))"
  by pat_completeness auto
termination
  by (relation "measure (\<lambda>(pids, pid, start, step, ft). TABLE_SIZE - step)") auto

definition insert_probe :: "(nat \<Rightarrow> i32) \<Rightarrow> i32 \<Rightarrow> probe_result" where
  "insert_probe pids pid = insert_from pids pid (slot pid) 0 None"

declare find_from.simps [simp del] insert_from.simps [simp del]

section \<open>The probe sequence\<close>

definition live :: "i32 \<Rightarrow> bool" where
  "live pid \<longleftrightarrow> pid \<noteq> PID_EMPTY \<and> pid \<noteq> PID_TOMBSTONE"

lemma live_pos: "is_pos_i32 pid \<Longrightarrow> live pid"
  by (auto simp: live_def PID_EMPTY_def PID_TOMBSTONE_def)

lemma TABLE_SIZE_pos [simp]: "0 < TABLE_SIZE"
  by (simp add: TABLE_SIZE_def)

lemma not_live [simp]: "\<not> live PID_EMPTY" "\<not> live PID_TOMBSTONE"
  by (simp_all add: live_def)

lemma PID_neq [simp]: "PID_EMPTY \<noteq> PID_TOMBSTONE" "PID_TOMBSTONE \<noteq> PID_EMPTY"
  by (simp_all add: PID_EMPTY_def PID_TOMBSTONE_def)

lemma slot_less [probe_simps]: "slot pid < TABLE_SIZE"
proof -
  have "unat (pid * FIB32) < 2 ^ 32" using unsigned_less [of "pid * FIB32"] by simp
  then show ?thesis
    by (simp add: slot_def TABLE_SIZE_def unat_drop_bit_eq) (simp add: drop_bit_eq_div)
qed

lemma probe_pos_mod: "probe_pos start step = (start + step) mod TABLE_SIZE"
  using take_bit_eq_mask [of 12 "start + step"]
  by (simp add: probe_pos_def TABLE_SIZE_def take_bit_eq_mod mask_eq_exp_minus_1)

lemma probe_pos_less [probe_simps]: "probe_pos start step < TABLE_SIZE"
  by (simp add: probe_pos_mod TABLE_SIZE_def)

lemma probe_pos_0 [probe_simps]: "start < TABLE_SIZE \<Longrightarrow> probe_pos start 0 = start"
  by (simp add: probe_pos_mod)

lemma probe_pos_inj:
  "i < TABLE_SIZE \<Longrightarrow> j < TABLE_SIZE \<Longrightarrow> probe_pos h i = probe_pos h j \<longleftrightarrow> i = j"
  unfolding probe_pos_mod using mod_shift_inj [of i TABLE_SIZE j h] by blast

text \<open>How far a slot lies from a home slot, along the probe sequence.\<close>

definition probe_dist :: "nat \<Rightarrow> nat \<Rightarrow> nat" where
  "probe_dist h s = (s + TABLE_SIZE - h) mod TABLE_SIZE"

lemma probe_dist_less [probe_simps]: "probe_dist h s < TABLE_SIZE"
  by (simp add: probe_dist_def TABLE_SIZE_def)

lemma probe_pos_probe_dist [probe_simps]:
  "h < TABLE_SIZE \<Longrightarrow> s < TABLE_SIZE \<Longrightarrow> probe_pos h (probe_dist h s) = s"
  by (simp add: probe_pos_mod probe_dist_def mod_add_right_eq)

lemma probe_dist_probe_pos [probe_simps]:
  "h < TABLE_SIZE \<Longrightarrow> k < TABLE_SIZE \<Longrightarrow> probe_dist h (probe_pos h k) = k"
  using probe_pos_inj [of "probe_dist h (probe_pos h k)" k h] probe_pos_probe_dist [of h "probe_pos h k"]
    probe_dist_less probe_pos_less by blast

section \<open>What the loops compute\<close>

lemma find_from_steps [probe_simps]:
  "\<not> step < TABLE_SIZE \<Longrightarrow> find_from pids pid start step = None"
  "step < TABLE_SIZE \<Longrightarrow> pids (probe_pos start step) = pid \<Longrightarrow>
     find_from pids pid start step = Some (probe_pos start step)"
  "step < TABLE_SIZE \<Longrightarrow> pids (probe_pos start step) \<noteq> pid \<Longrightarrow>
     pids (probe_pos start step) = PID_EMPTY \<Longrightarrow> find_from pids pid start step = None"
  "step < TABLE_SIZE \<Longrightarrow> pids (probe_pos start step) \<noteq> pid \<Longrightarrow>
     pids (probe_pos start step) \<noteq> PID_EMPTY \<Longrightarrow>
     find_from pids pid start step = find_from pids pid start (step + 1)"
  by (simp_all add: find_from.simps [of pids pid start step] Let_def)

lemma find_from_Some:
  "find_from pids pid start step = Some s \<Longrightarrow>
   \<exists>k. step \<le> k \<and> k < TABLE_SIZE \<and> s = probe_pos start k \<and> pids s = pid \<and>
     (\<forall>j. step \<le> j \<longrightarrow> j < k \<longrightarrow> pids (probe_pos start j) \<noteq> PID_EMPTY)"
proof (induction "TABLE_SIZE - step" arbitrary: step)
  case 0
  then show ?case by (simp add: probe_simps)
next
  case (Suc n)
  then have lt: "step < TABLE_SIZE" and n: "n = TABLE_SIZE - (step + 1)" by simp_all
  let ?c = "pids (probe_pos start step)"
  consider "?c = pid" | "?c \<noteq> pid" "?c = PID_EMPTY" | "?c \<noteq> pid" "?c \<noteq> PID_EMPTY" by blast
  then show ?case
  proof cases
    case 1
    with Suc.prems lt show ?thesis by (intro exI [of _ step]) (auto simp: probe_simps)
  next
    case 2
    with Suc.prems lt show ?thesis by (simp add: probe_simps)
  next
    case 3
    with Suc.prems lt have "find_from pids pid start (step + 1) = Some s" by (simp add: probe_simps)
    from Suc.hyps(1) [OF n this] obtain k where k: "step + 1 \<le> k" "k < TABLE_SIZE"
        "s = probe_pos start k" "pids s = pid"
        "\<forall>j. step + 1 \<le> j \<longrightarrow> j < k \<longrightarrow> pids (probe_pos start j) \<noteq> PID_EMPTY"
      by blast
    have "pids (probe_pos start j) \<noteq> PID_EMPTY" if "step \<le> j" "j < k" for j
      using k(5) 3 that by (cases "j = step") auto
    with k show ?thesis by (intro exI [of _ k]) auto
  qed
qed

lemma find_from_None:
  "find_from pids pid start step = None \<Longrightarrow> step \<le> k \<Longrightarrow> k < TABLE_SIZE \<Longrightarrow>
   pids (probe_pos start k) = pid \<Longrightarrow>
   \<exists>j. step \<le> j \<and> j < k \<and> pids (probe_pos start j) = PID_EMPTY"
proof (induction "TABLE_SIZE - step" arbitrary: step)
  case 0
  then show ?case by simp
next
  case (Suc n)
  then have lt: "step < TABLE_SIZE" and n: "n = TABLE_SIZE - (step + 1)" by simp_all
  have c: "pids (probe_pos start step) \<noteq> pid" using Suc.prems(1) lt by (auto simp: probe_simps)
  with Suc.prems have k: "step + 1 \<le> k" by (cases "k = step") auto
  show ?case
  proof (cases "pids (probe_pos start step) = PID_EMPTY")
    case True
    with k show ?thesis by auto
  next
    case False
    with c lt Suc.prems(1) have "find_from pids pid start (step + 1) = None" by (simp add: probe_simps)
    from Suc.hyps(1) [OF n this k Suc.prems(3,4)] obtain j where
      "step + 1 \<le> j" "j < k" "pids (probe_pos start j) = PID_EMPTY" by blast
    then show ?thesis by (intro exI [of _ j]) simp
  qed
qed

section \<open>Valid tables\<close>

definition pids_valid :: "(nat \<Rightarrow> i32) \<Rightarrow> bool" where
  "pids_valid pids \<longleftrightarrow>
     (\<forall>s < TABLE_SIZE. \<forall>s' < TABLE_SIZE. live (pids s) \<longrightarrow> pids s = pids s' \<longrightarrow> s = s') \<and>
     (\<forall>s < TABLE_SIZE. live (pids s) \<longrightarrow>
        (\<forall>k < probe_dist (slot (pids s)) s. pids (probe_pos (slot (pids s)) k) \<noteq> PID_EMPTY))"

lemma pids_valid_unique:
  "pids_valid pids \<Longrightarrow> s < TABLE_SIZE \<Longrightarrow> s' < TABLE_SIZE \<Longrightarrow> live (pids s) \<Longrightarrow> pids s = pids s' \<Longrightarrow> s = s'"
  by (simp add: pids_valid_def)

lemma find_slot_Some:
  "find_slot pids pid = Some s \<Longrightarrow> s < TABLE_SIZE \<and> pids s = pid"
  using find_from_Some [of pids pid "slot pid" 0 s] by (auto simp: find_slot_def probe_simps)

lemma find_slot_iff:
  assumes "pids_valid pids" and "live pid"
  shows "find_slot pids pid = Some s \<longleftrightarrow> s < TABLE_SIZE \<and> pids s = pid"
proof
  assume "find_slot pids pid = Some s"
  then show "s < TABLE_SIZE \<and> pids s = pid" by (rule find_slot_Some)
next
  assume s: "s < TABLE_SIZE \<and> pids s = pid"
  let ?d = "probe_dist (slot pid) s"
  have pos: "probe_pos (slot pid) ?d = s" "?d < TABLE_SIZE"
    using s by (simp_all add: probe_simps)
  have "\<not> (\<exists>j. 0 \<le> j \<and> j < ?d \<and> pids (probe_pos (slot pid) j) = PID_EMPTY)"
    using assms s unfolding pids_valid_def by blast
  with find_from_None [of pids pid "slot pid" 0 ?d] s pos
  have "find_slot pids pid \<noteq> None"
    unfolding find_slot_def by auto
  then obtain t where t: "find_slot pids pid = Some t" by blast
  from find_slot_Some [OF t] s assms have "t = s" by (auto simp: pids_valid_def)
  with t show "find_slot pids pid = Some s" by simp
qed

lemma find_slot_None_iff:
  assumes "pids_valid pids" and "live pid"
  shows "find_slot pids pid = None \<longleftrightarrow> (\<forall>s < TABLE_SIZE. pids s \<noteq> pid)"
  using find_slot_iff [OF assms] by (cases "find_slot pids pid") auto

lemma pids_valid_empty: "pids_valid (\<lambda>_. PID_EMPTY)"
  by (simp add: pids_valid_def)

section \<open>Insertion\<close>

lemma insert_from_steps [probe_simps]:
  "\<not> step < TABLE_SIZE \<Longrightarrow>
     insert_from pids pid start step ft = Fresh (case ft of Some d \<Rightarrow> d | None \<Rightarrow> start)"
  "step < TABLE_SIZE \<Longrightarrow> pids (probe_pos start step) = pid \<Longrightarrow>
     insert_from pids pid start step ft = Existing (probe_pos start step)"
  "step < TABLE_SIZE \<Longrightarrow> pids (probe_pos start step) \<noteq> pid \<Longrightarrow>
     pids (probe_pos start step) = PID_TOMBSTONE \<Longrightarrow>
     insert_from pids pid start step ft = insert_from pids pid start (step + 1)
       (Some (case ft of Some d \<Rightarrow> d | None \<Rightarrow> probe_pos start step))"
  "step < TABLE_SIZE \<Longrightarrow> pids (probe_pos start step) \<noteq> pid \<Longrightarrow>
     pids (probe_pos start step) = PID_EMPTY \<Longrightarrow>
     insert_from pids pid start step ft = Fresh (case ft of Some d \<Rightarrow> d | None \<Rightarrow> probe_pos start step)"
  "step < TABLE_SIZE \<Longrightarrow> pids (probe_pos start step) \<noteq> pid \<Longrightarrow> live (pids (probe_pos start step)) \<Longrightarrow>
     insert_from pids pid start step ft = insert_from pids pid start (step + 1) ft"
  by (auto simp: insert_from.simps [of pids pid start step ft] Let_def live_def split: option.splits)

lemma insert_from_Existing:
  "live pid \<Longrightarrow> find_from pids pid start step = Some s \<Longrightarrow>
   insert_from pids pid start step ft = Existing s"
proof (induction "TABLE_SIZE - step" arbitrary: step ft)
  case 0
  then show ?case by (simp add: probe_simps)
next
  case (Suc n)
  then have lt: "step < TABLE_SIZE" and n: "n = TABLE_SIZE - (step + 1)" by simp_all
  let ?c = "pids (probe_pos start step)"
  consider "?c = pid" | "?c \<noteq> pid" "?c = PID_EMPTY" | "?c \<noteq> pid" "?c = PID_TOMBSTONE"
    | "?c \<noteq> pid" "live ?c" unfolding live_def by blast
  then show ?case
  proof cases
    case 1
    with Suc.prems lt show ?thesis by (simp add: probe_simps)
  next
    case 2
    with Suc.prems lt show ?thesis by (simp add: probe_simps)
  next
    case 3
    with Suc.prems lt have "find_from pids pid start (step + 1) = Some s" by (simp add: probe_simps)
    from Suc.hyps(1) [OF n Suc.prems(1) this] lt 3 show ?thesis by (simp add: probe_simps)
  next
    case 4
    with Suc.prems lt have "find_from pids pid start (step + 1) = Some s"
      by (auto simp: probe_simps live_def)
    from Suc.hyps(1) [OF n Suc.prems(1) this] lt 4 show ?thesis by (simp add: probe_simps)
  qed
qed

text \<open>Where a new PID goes: the first reusable slot before the first empty one, or its home slot.\<close>

definition reusable :: "(nat \<Rightarrow> i32) \<Rightarrow> nat \<Rightarrow> nat \<Rightarrow> nat \<Rightarrow> bool" where
  "reusable pids start step d \<longleftrightarrow>
     (\<exists>k. step \<le> k \<and> k < TABLE_SIZE \<and> d = probe_pos start k \<and> \<not> live (pids d) \<and>
        (\<forall>j. step \<le> j \<longrightarrow> j < k \<longrightarrow> live (pids (probe_pos start j))))"

lemma reusable_here:
  "step < TABLE_SIZE \<Longrightarrow> \<not> live (pids (probe_pos start step)) \<Longrightarrow>
   reusable pids start step (probe_pos start step)"
  unfolding reusable_def by (intro exI [of _ step]) auto

lemma reusable_next:
  assumes "reusable pids start (step + 1) d" and "live (pids (probe_pos start step))"
  shows "reusable pids start step d"
proof -
  from assms(1) obtain k where k: "step + 1 \<le> k" "k < TABLE_SIZE" "d = probe_pos start k"
      "\<not> live (pids d)" "\<And>j. step + 1 \<le> j \<Longrightarrow> j < k \<Longrightarrow> live (pids (probe_pos start j))"
    unfolding reusable_def by blast
  have "live (pids (probe_pos start j))" if "step \<le> j" "j < k" for j
    using k(5) assms(2) that by (cases "j = step") auto
  with k show ?thesis unfolding reusable_def by (intro exI [of _ k]) auto
qed

lemma insert_from_Fresh:
  "find_from pids pid start step = None \<Longrightarrow>
   \<exists>d. insert_from pids pid start step ft = Fresh d \<and>
     (case ft of Some t \<Rightarrow> d = t
      | None \<Rightarrow> reusable pids start step d \<or>
          d = start \<and> (\<forall>k. step \<le> k \<longrightarrow> k < TABLE_SIZE \<longrightarrow> live (pids (probe_pos start k))))"
proof (induction "TABLE_SIZE - step" arbitrary: step ft)
  case 0
  then show ?case by (simp add: probe_simps split: option.splits)
next
  case (Suc n)
  then have lt: "step < TABLE_SIZE" and n: "n = TABLE_SIZE - (step + 1)" by simp_all
  let ?c = "pids (probe_pos start step)"
  have nm: "?c \<noteq> pid" using Suc.prems lt by (auto simp: probe_simps)
  consider "?c = PID_EMPTY" | "?c = PID_TOMBSTONE" | "live ?c" by (auto simp: live_def)
  then show ?case
  proof cases
    case 1
    with lt nm reusable_here [OF lt, of pids start] show ?thesis
      by (auto simp: probe_simps split: option.splits)
  next
    case 2
    with Suc.prems lt nm have "find_from pids pid start (step + 1) = None" by (simp add: probe_simps)
    from Suc.hyps(1) [OF n this, of "Some (case ft of Some d \<Rightarrow> d | None \<Rightarrow> probe_pos start step)"]
      2 lt nm reusable_here [OF lt, of pids start] show ?thesis
      by (auto simp: probe_simps split: option.splits)
  next
    case 3
    with Suc.prems lt nm have "find_from pids pid start (step + 1) = None"
      by (auto simp: probe_simps live_def)
    from Suc.hyps(1) [OF n this, of ft] obtain d where d:
        "insert_from pids pid start (step + 1) ft = Fresh d"
        "case ft of Some t \<Rightarrow> d = t
         | None \<Rightarrow> reusable pids start (step + 1) d \<or> d = start \<and>
             (\<forall>k. step + 1 \<le> k \<longrightarrow> k < TABLE_SIZE \<longrightarrow> live (pids (probe_pos start k)))"
      by blast
    have "live (pids (probe_pos start k))"
      if "\<forall>k. step + 1 \<le> k \<longrightarrow> k < TABLE_SIZE \<longrightarrow> live (pids (probe_pos start k))"
        "step \<le> k" "k < TABLE_SIZE" for k
      using that 3 by (cases "k = step") auto
    with d 3 lt nm reusable_next [of pids start step d] show ?thesis
      by (auto simp: probe_simps split: option.splits)
  qed
qed

text \<open>A probe of a valid table, summarised.\<close>

definition table_full :: "(nat \<Rightarrow> i32) \<Rightarrow> bool" where
  "table_full pids \<longleftrightarrow> (\<forall>s < TABLE_SIZE. live (pids s))"

lemma insert_probe_cases:
  assumes "live pid"
  obtains (existing) s where "find_slot pids pid = Some s" "insert_probe pids pid = Existing s"
  | (free) d where "find_slot pids pid = None" "insert_probe pids pid = Fresh d"
      "reusable pids (slot pid) 0 d"
  | (full) "find_slot pids pid = None" "insert_probe pids pid = Fresh (slot pid)" "table_full pids"
proof (cases "find_slot pids pid")
  case (Some s)
  with existing insert_from_Existing [OF assms] show ?thesis
    unfolding find_slot_def insert_probe_def by blast
next
  case None
  then obtain d where d: "insert_probe pids pid = Fresh d"
      "reusable pids (slot pid) 0 d \<or> d = slot pid \<and> (\<forall>k < TABLE_SIZE. live (pids (probe_pos (slot pid) k)))"
    using insert_from_Fresh [of pids pid "slot pid" 0 None]
    unfolding find_slot_def insert_probe_def by auto
  have "table_full pids" if all: "\<forall>k < TABLE_SIZE. live (pids (probe_pos (slot pid) k))"
    unfolding table_full_def
  proof (intro allI impI)
    fix s assume "s < TABLE_SIZE"
    then show "live (pids s)"
      using all [rule_format, of "probe_dist (slot pid) s"] by (simp add: probe_simps)
  qed
  with d None free full show ?thesis by blast
qed

lemma reusable_path:
  assumes "reusable pids h 0 d" and "h < TABLE_SIZE"
  shows "d < TABLE_SIZE" and "\<not> live (pids d)" and "\<forall>k < probe_dist h d. live (pids (probe_pos h k))"
  using assms unfolding reusable_def by (auto simp: probe_simps)

lemma pids_valid_take:
  assumes v: "pids_valid pids" and "live pid" and "find_slot pids pid = None" and "d < TABLE_SIZE"
    and path: "\<forall>k < probe_dist (slot pid) d. pids (probe_pos (slot pid) k) \<noteq> PID_EMPTY"
  shows "pids_valid (pids(d := pid))"
proof -
  have absent: "\<forall>s < TABLE_SIZE. pids s \<noteq> pid"
    using find_slot_None_iff [OF v assms(2)] assms(3) by simp
  have "s = s'" if "s < TABLE_SIZE" "s' < TABLE_SIZE" "live ((pids(d := pid)) s)"
    "(pids(d := pid)) s = (pids(d := pid)) s'" for s s'
    using that absent pids_valid_unique [OF v, of s s'] by (auto split: if_splits)
  moreover have "(pids(d := pid)) (probe_pos (slot ((pids(d := pid)) s)) k) \<noteq> PID_EMPTY"
    if "s < TABLE_SIZE" "live ((pids(d := pid)) s)" "k < probe_dist (slot ((pids(d := pid)) s)) s" for s k
    using that v path assms(2) by (auto simp: pids_valid_def live_def split: if_splits)
  ultimately show ?thesis unfolding pids_valid_def by blast
qed

lemma pids_valid_tombstone: "pids_valid pids \<Longrightarrow> pids_valid (pids(s := PID_TOMBSTONE))"
  unfolding pids_valid_def
proof (intro conjI allI impI; elim conjE)
  let ?p = "pids(s := PID_TOMBSTONE)"
  fix a b assume "a < TABLE_SIZE" "b < TABLE_SIZE" "live (?p a)" "?p a = ?p b"
    and u: "\<forall>s < TABLE_SIZE. \<forall>s' < TABLE_SIZE. live (pids s) \<longrightarrow> pids s = pids s' \<longrightarrow> s = s'"
  then have "a \<noteq> s" "b \<noteq> s" "live (pids a)" "pids a = pids b" by (auto split: if_splits)
  with u \<open>a < TABLE_SIZE\<close> \<open>b < TABLE_SIZE\<close> show "a = b" by blast
next
  let ?p = "pids(s := PID_TOMBSTONE)"
  fix a k assume "a < TABLE_SIZE" "live (?p a)" "k < probe_dist (slot (?p a)) a"
    and path: "\<forall>s < TABLE_SIZE. live (pids s) \<longrightarrow>
      (\<forall>k < probe_dist (slot (pids s)) s. pids (probe_pos (slot (pids s)) k) \<noteq> PID_EMPTY)"
  then have "?p a = pids a" "live (pids a)" by (auto split: if_splits)
  with path \<open>a < TABLE_SIZE\<close> \<open>k < probe_dist (slot (?p a)) a\<close>
  have "pids (probe_pos (slot (pids a)) k) \<noteq> PID_EMPTY" by simp
  with \<open>?p a = pids a\<close> show "?p (probe_pos (slot (?p a)) k) \<noteq> PID_EMPTY" by simp
qed

lemma pids_valid_insert:
  assumes "pids_valid pids" and "live pid" and "insert_probe pids pid = Fresh d"
  shows "pids_valid (pids(d := pid)) \<and> d < TABLE_SIZE"
  using assms(2)
proof (cases rule: insert_probe_cases [of pid pids])
  case (existing s)
  with assms show ?thesis by simp
next
  case (free d')
  with assms reusable_path [OF free(3) slot_less] show ?thesis
    by (auto intro!: pids_valid_take simp: live_def)
next
  case full
  have "probe_dist (slot pid) (slot pid) = 0" by (simp add: probe_dist_def)
  with assms full show ?thesis by (auto intro!: pids_valid_take simp: probe_simps)
qed

lemma pids_valid_claim_home:
  assumes "pids_valid pids" and "live pid" and "pids (slot pid) = PID_EMPTY"
  shows "pids_valid (pids(slot pid := pid))" and "find_slot pids pid = None"
proof -
  show none: "find_slot pids pid = None"
    using find_from_steps(3) [of 0 pids "slot pid" pid] assms
    by (auto simp: find_slot_def probe_simps live_def)
  have "probe_dist (slot pid) (slot pid) = 0" by (simp add: probe_dist_def)
  with none assms show "pids_valid (pids(slot pid := pid))"
    by (auto intro!: pids_valid_take simp: probe_simps)
qed

section \<open>Tables with a row of data per slot\<close>

text \<open>The partial map a table stands for.\<close>

definition pid_view :: "(nat \<Rightarrow> i32) \<Rightarrow> (nat \<Rightarrow> 'r) \<Rightarrow> i32 \<Rightarrow> 'r option" where
  "pid_view pids row pid = map_option row (find_slot pids pid)"

lemma find_slot_upd_other:
  assumes "pids_valid pids" and "pids_valid (pids(d := x))" and "live q" and "q \<noteq> x" and "q \<noteq> pids d"
  shows "find_slot (pids(d := x)) q = find_slot pids q"
proof -
  have "find_slot (pids(d := x)) q = Some s \<longleftrightarrow> find_slot pids q = Some s" for s
    using find_slot_iff [OF assms(1,3), of s] find_slot_iff [OF assms(2,3), of s] assms(4,5) by auto
  then show ?thesis by (metis option.exhaust)
qed

lemma find_slot_gone:
  assumes "pids_valid pids" and "find_slot pids q = Some d" and "live q" and "q \<noteq> x"
    and "pids_valid (pids(d := x))"
  shows "find_slot (pids(d := x)) q = None"
proof -
  have d: "d < TABLE_SIZE" "pids d = q" using find_slot_Some [OF assms(2)] by auto
  have "(pids(d := x)) s \<noteq> q" if "s < TABLE_SIZE" for s
    using pids_valid_unique [OF assms(1) that d(1)] d(2) assms(3,4) by (cases "s = d") auto
  then show ?thesis using find_slot_None_iff [OF assms(5,3)] by simp
qed

locale pid_store =
  fixes pids_of :: "'t \<Rightarrow> nat \<Rightarrow> i32"
    and row :: "'t \<Rightarrow> nat \<Rightarrow> 'r"
    and blank :: 'r
    and insert_slot :: "'t \<Rightarrow> i32 \<Rightarrow> nat \<times> 't"
    and evict :: "'t \<Rightarrow> i32 \<Rightarrow> 't"
  assumes insert_existing: "insert_probe (pids_of t) p = Existing s \<Longrightarrow> insert_slot t p = (s, t)"
    and insert_fresh: "insert_probe (pids_of t) p = Fresh d \<Longrightarrow>
      \<exists>t'. insert_slot t p = (d, t') \<and> pids_of t' = (pids_of t)(d := p) \<and> row t' = (row t)(d := blank)"
    and evict_absent: "find_slot (pids_of t) p = None \<Longrightarrow> evict t p = t"
    and evict_present: "find_slot (pids_of t) p = Some s \<Longrightarrow>
      pids_of (evict t p) = (pids_of t)(s := PID_TOMBSTONE) \<and> row (evict t p) = (row t)(s := blank)"
begin

lemma insert_valid:
  assumes v: "pids_valid (pids_of t)" and p: "live p" and ins: "insert_slot t p = (s, t')"
  shows "pids_valid (pids_of t')" and "find_slot (pids_of t') p = Some s"
proof -
  show v': "pids_valid (pids_of t')"
  proof (cases "insert_probe (pids_of t) p")
    case (Existing s')
    with insert_existing [of t p s'] v ins show ?thesis by simp
  next
    case (Fresh d)
    with insert_fresh [of t p d] pids_valid_insert [OF v p, of d] ins show ?thesis by auto
  qed
  show "find_slot (pids_of t') p = Some s"
    using p
  proof (cases rule: insert_probe_cases [of p "pids_of t"])
    case (existing s')
    with insert_existing [of t p s'] ins show ?thesis by simp
  next
    case (free d)
    with insert_fresh [of t p d] pids_valid_insert [OF v p, of d] ins find_slot_iff [OF v' p]
    show ?thesis by auto
  next
    case full
    with insert_fresh [of t p "slot p"] ins find_slot_iff [OF v' p] show ?thesis
      by (auto simp: probe_simps)
  qed
qed

lemma insert_view:
  assumes "pids_valid (pids_of t)" and "live p" and "insert_slot t p = (s, t')"
  shows "row t' s = (case pid_view (pids_of t) (row t) p of None \<Rightarrow> blank | Some r \<Rightarrow> r)"
  using assms(2)
proof (cases rule: insert_probe_cases [of p "pids_of t"])
  case (existing s')
  with insert_existing [of t p s'] assms show ?thesis by (simp add: pid_view_def)
next
  case (free d)
  with insert_fresh [of t p d] assms show ?thesis by (auto simp: pid_view_def)
next
  case full
  with insert_fresh [of t p "slot p"] assms show ?thesis by (auto simp: pid_view_def)
qed

text \<open>
  Inserting leaves every other PID's row alone. Only a table whose 4096 slots are all owned by
  other PIDs gives up one of them, the owner of the new PID's home slot.
\<close>

lemma insert_other:
  assumes v: "pids_valid (pids_of t)" and p: "live p" and q: "live q" "q \<noteq> p"
    and ins: "insert_slot t p = (s, t')"
    and keep: "\<not> table_full (pids_of t) \<or> find_slot (pids_of t) p \<noteq> None \<or> pids_of t (slot p) \<noteq> q"
  shows "pid_view (pids_of t') (row t') q = pid_view (pids_of t) (row t) q"
  using p
proof (cases rule: insert_probe_cases [of p "pids_of t"])
  case (existing s')
  with insert_existing [of t p s'] ins show ?thesis by simp
next
  case (free d)
  have d: "d < TABLE_SIZE" "\<not> live (pids_of t d)"
    using reusable_path [OF free(3) slot_less] by auto
  obtain t'' where t': "insert_slot t p = (d, t'')" "pids_of t'' = (pids_of t)(d := p)"
      "row t'' = (row t)(d := blank)"
    using insert_fresh [OF free(2)] by blast
  have v': "pids_valid ((pids_of t)(d := p))" using pids_valid_insert [OF v p free(2)] by simp
  have nq: "q \<noteq> pids_of t d" using q d by auto
  have "find_slot ((pids_of t)(d := p)) q = find_slot (pids_of t) q"
    using find_slot_upd_other [OF v v' q(1,2) nq] .
  moreover have "find_slot (pids_of t) q \<noteq> Some d" using find_slot_Some nq by blast
  ultimately show ?thesis using t' ins
    by (cases "find_slot (pids_of t) q") (auto simp: pid_view_def)
next
  case full
  have nq: "q \<noteq> pids_of t (slot p)" using keep full by auto
  obtain t'' where t': "insert_slot t p = (slot p, t'')" "pids_of t'' = (pids_of t)(slot p := p)"
      "row t'' = (row t)(slot p := blank)"
    using insert_fresh [OF full(2)] by blast
  have v': "pids_valid ((pids_of t)(slot p := p))" using pids_valid_insert [OF v p full(2)] by simp
  have "find_slot ((pids_of t)(slot p := p)) q = find_slot (pids_of t) q"
    using find_slot_upd_other [OF v v' q(1,2) nq] .
  moreover have "find_slot (pids_of t) q \<noteq> Some (slot p)" using find_slot_Some nq by blast
  ultimately show ?thesis using t' ins
    by (cases "find_slot (pids_of t) q") (auto simp: pid_view_def)
qed

lemma evict_valid: "pids_valid (pids_of t) \<Longrightarrow> pids_valid (pids_of (evict t p))"
  using evict_absent [of t p] evict_present [of t p] pids_valid_tombstone
  by (cases "find_slot (pids_of t) p") auto

lemma evict_view:
  assumes v: "pids_valid (pids_of t)" and p: "live p" and q: "live q"
  shows "pid_view (pids_of (evict t p)) (row (evict t p)) q =
    (if q = p then None else pid_view (pids_of t) (row t) q)"
proof (cases "find_slot (pids_of t) p")
  case None
  with evict_absent [OF None] show ?thesis by (auto simp: pid_view_def)
next
  case (Some s)
  note e = evict_present [OF Some]
  have v': "pids_valid ((pids_of t)(s := PID_TOMBSTONE))" using pids_valid_tombstone [OF v] .
  have s: "pids_of t s = p" using find_slot_Some [OF Some] by simp
  have nt: "q \<noteq> PID_TOMBSTONE" "p \<noteq> PID_TOMBSTONE" using p q by auto
  show ?thesis
  proof (cases "q = p")
    case True
    with find_slot_gone [OF v Some p nt(2) v'] e show ?thesis by (simp add: pid_view_def)
  next
    case False
    then have "find_slot ((pids_of t)(s := PID_TOMBSTONE)) q = find_slot (pids_of t) q"
      using find_slot_upd_other [OF v v' q nt(1)] s by simp
    moreover have "find_slot (pids_of t) q \<noteq> Some s" using find_slot_Some s False by blast
    ultimately show ?thesis using e False
      by (cases "find_slot (pids_of t) q") (auto simp: pid_view_def)
  qed
qed

text \<open>A property of rows that the blank row has holds of every row after either operation.\<close>

lemma insert_rows:
  assumes "\<forall>s. P (row t s)" and "P blank" and "insert_slot t p = (s, t')"
  shows "\<forall>s. P (row t' s)"
proof (cases "insert_probe (pids_of t) p")
  case (Existing s')
  with insert_existing [of t p s'] assms show ?thesis by simp
next
  case (Fresh d)
  with insert_fresh [of t p d] assms show ?thesis by auto
qed

lemma evict_rows:
  assumes "\<forall>s. P (row t s)" and "P blank"
  shows "\<forall>s. P (row (evict t p) s)"
  using evict_absent [of t p] evict_present [of t p] assms
  by (cases "find_slot (pids_of t) p") auto

text \<open>A slot never becomes empty again.\<close>

lemma insert_keeps_nonempty:
  assumes "live p" and "insert_slot t p = (s, t')" and "pids_of t i \<noteq> PID_EMPTY"
  shows "pids_of t' i \<noteq> PID_EMPTY"
proof (cases "insert_probe (pids_of t) p")
  case (Existing s')
  with insert_existing [of t p s'] assms show ?thesis by simp
next
  case (Fresh d)
  with insert_fresh [of t p d] assms show ?thesis by (auto simp: live_def)
qed

lemma evict_keeps_nonempty:
  "pids_of t i \<noteq> PID_EMPTY \<Longrightarrow> pids_of (evict t p) i \<noteq> PID_EMPTY"
  using evict_absent [of t p] evict_present [of t p]
  by (cases "find_slot (pids_of t) p") auto

end

end
