(* ===== verification/Ieee_Float.thy ===== *)
theory Ieee_Float
  imports Cognis_Prelude
begin

text \<open>
  IEEE-754 arithmetic as the program uses it. A finite \<open>f32\<close> or \<open>f64\<close> value is the
  rational number it denotes, and every operation is the exact rational operation followed by
  rounding to nearest, ties to even, in the format's precision with gradual underflow:
  \<open>rnd32\<close> has 24 significant bits and smallest quantum \<open>2^-149\<close>, \<open>rnd64\<close> has 53 and
  \<open>2^-1074\<close>. NaN, the infinities and the sign of zero are not represented: no operation of the
  program divides by zero, its operands are bounded by \<open>2^64\<close> and no result is ever
  inspected for the sign of zero, so none of them arises.

  The locale \<open>rounding\<close> holds what the proofs need of a format (monotone, odd, exact at zero
  and one); it is interpreted at both formats.
\<close>

section \<open>Rounding\<close>

fun bitlen :: "int \<Rightarrow> int" where
  "bitlen n = (if n \<le> 0 then 0 else 1 + bitlen (n div 2))"

declare bitlen.simps [simp del]

definition pow2 :: "int \<Rightarrow> rat" where
  "pow2 e = (if 0 \<le> e then 2 ^ nat e else 1 / 2 ^ nat (- e))"

text \<open>The exponent of a positive rational: \<open>2^e \<le> x < 2^(e+1)\<close>.\<close>

definition ilog2 :: "rat \<Rightarrow> int" where
  "ilog2 x = (let (n, d) = quotient_of x; e = bitlen n - bitlen d
     in if pow2 e \<le> x then e else e - 1)"

text \<open>Nearest integer, ties to even.\<close>

definition rne :: "rat \<Rightarrow> int" where
  "rne x = (let f = \<lfloor>x\<rfloor>; d = x - of_int f in
     if d < 1/2 then f else if 1/2 < d then f + 1 else if even f then f else f + 1)"

definition quantum :: "int \<Rightarrow> int \<Rightarrow> rat \<Rightarrow> int" where
  "quantum p q x = max (ilog2 \<bar>x\<bar> - (p - 1)) q"

definition rnd :: "int \<Rightarrow> int \<Rightarrow> rat \<Rightarrow> rat" where
  "rnd p q x = (if x = 0 then 0 else
     let e = quantum p q x in of_int (rne (x / pow2 e)) * pow2 e)"

definition rnd32 :: "rat \<Rightarrow> rat" where "rnd32 = rnd 24 (-149)"
definition rnd64 :: "rat \<Rightarrow> rat" where "rnd64 = rnd 53 (-1074)"

text \<open>The operators at each precision; a literal is rounded to the type it is used at.\<close>

definition add32 :: "rat \<Rightarrow> rat \<Rightarrow> rat" where "add32 a b = rnd32 (a + b)"
definition sub32 :: "rat \<Rightarrow> rat \<Rightarrow> rat" where "sub32 a b = rnd32 (a - b)"
definition mul32 :: "rat \<Rightarrow> rat \<Rightarrow> rat" where "mul32 a b = rnd32 (a * b)"
definition div32 :: "rat \<Rightarrow> rat \<Rightarrow> rat" where "div32 a b = rnd32 (a / b)"
definition add64 :: "rat \<Rightarrow> rat \<Rightarrow> rat" where "add64 a b = rnd64 (a + b)"
definition mul64 :: "rat \<Rightarrow> rat \<Rightarrow> rat" where "mul64 a b = rnd64 (a * b)"
definition div64 :: "rat \<Rightarrow> rat \<Rightarrow> rat" where "div64 a b = rnd64 (a / b)"

section \<open>Casts\<close>

definition u64_to_f64 :: "u64 \<Rightarrow> rat" where "u64_to_f64 w = rnd64 (of_nat (unat w))"
definition u64_to_f32 :: "u64 \<Rightarrow> rat" where "u64_to_f32 w = rnd32 (of_nat (unat w))"
definition i32_to_f32 :: "i32 \<Rightarrow> rat" where "i32_to_f32 w = rnd32 (of_int (sint w))"

text \<open>Rust's \<open>as u64\<close> truncates and saturates.\<close>

definition f64_to_u64 :: "rat \<Rightarrow> u64" where
  "f64_to_u64 x = (if x \<le> 0 then 0 else if 2 ^ 64 \<le> x then - 1 else word_of_int \<lfloor>x\<rfloor>)"

section \<open>Powers of two and exponents\<close>

lemma pow2_powi: "pow2 e = 2 powi e"
  by (simp add: pow2_def power_int_def field_simps)

lemma pow2_pos [simp]: "0 < pow2 e"
  by (simp add: pow2_powi)

lemma pow2_nz [simp]: "pow2 e \<noteq> 0"
  by (metis less_irrefl pow2_pos)

lemma pow2_add: "pow2 (a + b) = pow2 a * pow2 b"
  by (simp add: pow2_powi power_int_add)

lemma pow2_diff: "pow2 (a - b) = pow2 a / pow2 b"
  by (simp add: pow2_powi power_int_diff)

lemma pow2_less_iff: "pow2 a < pow2 b \<longleftrightarrow> a < b"
proof -
  have up: "pow2 c < pow2 d" if "c < d" for c d
    unfolding pow2_powi using that by (intro power_int_strict_increasing) auto
  show ?thesis using up [of a b] up [of b a] by (cases a b rule: linorder_cases) auto
qed

lemma pow2_le_iff: "pow2 a \<le> pow2 b \<longleftrightarrow> a \<le> b"
  by (simp add: pow2_less_iff flip: not_less)

lemma pow2_of_int: "0 \<le> e \<Longrightarrow> pow2 e = of_int (2 ^ nat e)"
  by (simp add: pow2_def)

lemma bitlen_nonneg: "0 \<le> bitlen n"
  by (induction n rule: bitlen.induct) (subst bitlen.simps, auto)

lemma bitlen_bounds:
  "0 < n \<Longrightarrow> pow2 (bitlen n - 1) \<le> of_int n \<and> of_int n < pow2 (bitlen n)"
proof (induction n rule: bitlen.induct)
  case (1 n)
  show ?case
  proof (cases "n = 1")
    case True
    then show ?thesis by (simp add: bitlen.simps pow2_def)
  next
    case False
    let ?b = "bitlen (n div 2)"
    from False 1 have lo: "pow2 (?b - 1) \<le> of_int (n div 2)"
      and up: "of_int (n div 2) < pow2 ?b" and b: "bitlen n = 1 + ?b"
      by (auto simp: bitlen.simps [of n])
    have "(of_int (2 * (n div 2)) :: rat) \<le> of_int n" by (simp only: of_int_le_iff)
    then have 1: "2 * pow2 (?b - 1) \<le> of_int n" using lo by simp
    have "n div 2 < 2 ^ nat ?b"
      using up by (metis of_int_less_iff pow2_of_int bitlen_nonneg)
    then have "n < 2 * 2 ^ nat ?b" by linarith
    then have "(of_int n :: rat) < of_int (2 * 2 ^ nat ?b)" by (simp only: of_int_less_iff)
    then have 2: "of_int n < 2 * pow2 ?b" by (simp add: pow2_of_int bitlen_nonneg)
    have "pow2 ?b = 2 * pow2 (?b - 1)" "pow2 (1 + ?b) = 2 * pow2 ?b"
      using pow2_add [of 1 "?b - 1"] pow2_add [of 1 ?b] by (simp_all add: pow2_def [of 1])
    with 1 2 b show ?thesis by simp
  qed
qed

lemma ilog2_bounds:
  assumes "0 < x"
  shows "pow2 (ilog2 x) \<le> x \<and> x < pow2 (ilog2 x + 1)"
proof -
  obtain n d where q: "quotient_of x = (n, d)" by fastforce
  have d: "0 < d" and x: "x = of_int n / of_int d"
    using q quotient_of_denom_pos quotient_of_div by blast+
  have n: "0 < n" using assms d x by (simp add: zero_less_divide_iff)
  define e where "e = bitlen n - bitlen d"
  have "x < pow2 (bitlen n) / pow2 (bitlen d - 1)"
    unfolding x using bitlen_bounds [OF n] bitlen_bounds [OF d] n d
    by (intro frac_less) auto
  then have up: "x < pow2 (e + 1)" by (simp add: e_def pow2_diff [symmetric] algebra_simps)
  have "pow2 (bitlen n - 1) / pow2 (bitlen d) \<le> x"
    unfolding x using bitlen_bounds [OF n] bitlen_bounds [OF d] n d
    by (intro frac_le) auto
  then have lo: "pow2 (e - 1) \<le> x" by (simp add: e_def pow2_diff [symmetric] algebra_simps)
  show ?thesis using up lo by (auto simp: ilog2_def q e_def [symmetric] Let_def)
qed

lemma ilog2_unique:
  assumes "pow2 e \<le> x" and "x < pow2 (e + 1)"
  shows "ilog2 x = e"
proof -
  have "0 < x" using assms(1) pow2_pos [of e] by linarith
  from ilog2_bounds [OF this] have "pow2 (ilog2 x) < pow2 (e + 1)" "pow2 e < pow2 (ilog2 x + 1)"
    using assms by auto
  then show ?thesis by (simp add: pow2_less_iff)
qed

lemma ilog2_mono: "0 < x \<Longrightarrow> x \<le> y \<Longrightarrow> ilog2 x \<le> ilog2 y"
  using ilog2_bounds [of x] ilog2_bounds [of y] pow2_less_iff [of "ilog2 x" "ilog2 y + 1"]
  by auto

section \<open>Nearest integer\<close>

lemma rne_of_int [simp]: "rne (of_int k) = k"
  by (simp add: rne_def)

lemma rne_cases: "rne x = \<lfloor>x\<rfloor> \<or> rne x = \<lfloor>x\<rfloor> + 1"
  by (auto simp: rne_def Let_def)

lemma rne_mono:
  assumes "x \<le> y"
  shows "rne x \<le> rne y"
proof (cases "\<lfloor>x\<rfloor> = \<lfloor>y\<rfloor>")
  case True
  with assms show ?thesis by (auto simp: rne_def Let_def)
next
  case False
  with floor_mono [OF assms] have "\<lfloor>x\<rfloor> + 1 \<le> \<lfloor>y\<rfloor>" by linarith
  with rne_cases [of x] rne_cases [of y] show ?thesis by linarith
qed

lemma rne_minus: "rne (- x) = - rne x"
proof (cases "x = of_int \<lfloor>x\<rfloor>")
  case True
  then show ?thesis by (metis of_int_minus rne_of_int)
next
  case False
  then have fl: "\<lfloor>- x\<rfloor> = - \<lfloor>x\<rfloor> - 1"
    by (simp add: floor_minus ceiling_altdef)
  show ?thesis
    by (auto simp: rne_def Let_def fl)
qed

lemma rne_error: "\<bar>of_int (rne x) - x\<bar> \<le> 1 / 2"
  using floor_correct [of x] by (auto simp: rne_def Let_def abs_le_iff)

lemma rne_le_of_int: "x \<le> of_int k \<Longrightarrow> rne x \<le> k"
  using rne_mono [of x "of_int k"] by simp

lemma rne_ge_of_int: "of_int k \<le> x \<Longrightarrow> k \<le> rne x"
  using rne_mono [of "of_int k" x] by simp

section \<open>Rounding to a format\<close>

lemma rnd_0 [simp]: "rnd p q 0 = 0"
  by (simp add: rnd_def)

lemma rnd_minus: "rnd p q (- x) = - rnd p q x"
  by (simp add: rnd_def Let_def quantum_def rne_minus flip: minus_divide_left)

lemma rnd_nonneg: "0 \<le> x \<Longrightarrow> 0 \<le> rnd p q x"
  using rne_ge_of_int [of 0 "x / pow2 (quantum p q x)"]
  by (simp add: rnd_def Let_def zero_le_mult_iff less_imp_le)

text \<open>A power of two at or above the quantum bounds the rounded value.\<close>

lemma rnd_le_pow2:
  assumes "0 < x" and "x \<le> pow2 k" and "quantum p q x \<le> k"
  shows "rnd p q x \<le> pow2 k"
proof -
  let ?e = "quantum p q x"
  have split: "pow2 k = of_int (2 ^ nat (k - ?e)) * pow2 ?e"
    using assms(3) pow2_add [of "k - ?e" ?e] by (simp add: pow2_of_int)
  have "x / pow2 ?e \<le> of_int (2 ^ nat (k - ?e))"
    using assms(2) unfolding split by (simp add: pos_divide_le_eq)
  from rne_le_of_int [OF this] have "(of_int (rne (x / pow2 ?e)) :: rat) \<le> of_int (2 ^ nat (k - ?e))"
    by (simp only: of_int_le_iff)
  then have "of_int (rne (x / pow2 ?e)) * pow2 ?e \<le> of_int (2 ^ nat (k - ?e)) * pow2 ?e"
    by (rule mult_right_mono) (simp add: less_imp_le)
  with assms(1) show ?thesis unfolding split by (simp add: rnd_def Let_def)
qed

lemma rnd_ge_pow2:
  assumes "pow2 k \<le> x" and "quantum p q x \<le> k"
  shows "pow2 k \<le> rnd p q x"
proof -
  let ?e = "quantum p q x"
  have pos: "0 < x" using assms(1) pow2_pos [of k] by linarith
  have split: "pow2 k = of_int (2 ^ nat (k - ?e)) * pow2 ?e"
    using assms(2) pow2_add [of "k - ?e" ?e] by (simp add: pow2_of_int)
  have "of_int (2 ^ nat (k - ?e)) \<le> x / pow2 ?e"
    using assms(1) unfolding split by (simp add: pos_le_divide_eq)
  from rne_ge_of_int [OF this] have "(of_int (2 ^ nat (k - ?e)) :: rat) \<le> of_int (rne (x / pow2 ?e))"
    by (simp only: of_int_le_iff)
  then have "of_int (2 ^ nat (k - ?e)) * pow2 ?e \<le> of_int (rne (x / pow2 ?e)) * pow2 ?e"
    by (rule mult_right_mono) (simp add: less_imp_le)
  with pos show ?thesis unfolding split by (simp add: rnd_def Let_def)
qed

lemma rnd_mono_pos:
  assumes x: "0 < x" and xy: "x \<le> y" and p: "1 \<le> p"
  shows "rnd p q x \<le> rnd p q y"
proof -
  have y: "0 < y" using x xy by linarith
  have le: "quantum p q x \<le> quantum p q y"
    using ilog2_mono [OF x xy] x y by (auto simp: quantum_def)
  show ?thesis
  proof (cases "quantum p q x = quantum p q y")
    case True
    have "rne (x / pow2 (quantum p q y)) \<le> rne (y / pow2 (quantum p q y))"
      using xy by (intro rne_mono divide_right_mono) (auto simp: less_imp_le)
    with True x y show ?thesis
      by (simp add: rnd_def Let_def mult_right_mono less_imp_le)
  next
    case False
    let ?k = "ilog2 y"
    have qy: "quantum p q y \<le> ?k" and qx: "quantum p q x \<le> ?k" and lt: "ilog2 x < ?k"
      using False le x y p by (auto simp: quantum_def)
    have "x < pow2 (ilog2 x + 1)" using ilog2_bounds [OF x] by simp
    also have "\<dots> \<le> pow2 ?k" using lt by (simp add: pow2_le_iff)
    finally have "rnd p q x \<le> pow2 ?k" using rnd_le_pow2 [OF x _ qx] by simp
    also have "\<dots> \<le> rnd p q y" using rnd_ge_pow2 [OF _ qy] ilog2_bounds [OF y] by simp
    finally show ?thesis .
  qed
qed

lemma rnd_mono:
  assumes "x \<le> y" and "1 \<le> p"
  shows "rnd p q x \<le> rnd p q y"
proof -
  consider "0 < x" | "x \<le> 0" "0 \<le> y" | "y < 0" using assms(1) by linarith
  then show ?thesis
  proof cases
    case 1
    with assms show ?thesis by (simp add: rnd_mono_pos)
  next
    case 2
    have "0 \<le> rnd p q (- x)" "0 \<le> rnd p q y" using 2 by (simp_all add: rnd_nonneg)
    then show ?thesis by (simp add: rnd_minus)
  next
    case 3
    have "rnd p q (- y) \<le> rnd p q (- x)" using assms 3 by (intro rnd_mono_pos) auto
    then show ?thesis by (simp add: rnd_minus)
  qed
qed

text \<open>Values with at most \<open>p\<close> significant bits above the smallest quantum are exact.\<close>

lemma rnd_exact:
  assumes x: "x = of_int m * pow2 k" and m: "\<bar>m\<bar> < 2 ^ nat p" and k: "q \<le> k" and p: "1 \<le> p"
  shows "rnd p q x = x"
proof (cases "m = 0")
  case True
  then show ?thesis by (simp add: x)
next
  case False
  let ?e = "quantum p q x"
  have pos: "0 < \<bar>x\<bar>" using False by (simp add: x)
  have "(of_int \<bar>m\<bar> :: rat) < of_int (2 ^ nat p)" using m by (simp only: of_int_less_iff)
  then have "\<bar>x\<bar> < pow2 p * pow2 k"
    using p by (simp add: x abs_mult pow2_of_int less_imp_le)
  then have "\<bar>x\<bar> < pow2 (p + k)" by (simp add: pow2_add)
  with ilog2_bounds [OF pos] have "pow2 (ilog2 \<bar>x\<bar>) < pow2 (p + k)" by linarith
  then have "?e \<le> k" using k by (simp add: pow2_less_iff quantum_def)
  then have "x / pow2 ?e = of_int (m * 2 ^ nat (k - ?e))"
    by (simp add: x pow2_diff [symmetric] times_divide_eq_right [symmetric] pow2_of_int
        del: times_divide_eq_right)
  then have "of_int (rne (x / pow2 ?e)) * pow2 ?e = x / pow2 ?e * pow2 ?e"
    by (simp only: rne_of_int)
  with pos show ?thesis by (simp add: rnd_def Let_def)
qed

section \<open>The contract of a rounding function\<close>

locale rounding =
  fixes rd :: "rat \<Rightarrow> rat"
  assumes mono: "x \<le> y \<Longrightarrow> rd x \<le> rd y"
    and zero: "rd 0 = 0"
    and one: "rd 1 = 1"
    and minus: "rd (- x) = - rd x"
begin

lemma nonneg: "0 \<le> x \<Longrightarrow> 0 \<le> rd x"
  using mono [of 0 x] zero by simp

lemma nonpos: "x \<le> 0 \<Longrightarrow> rd x \<le> 0"
  using mono [of x 0] zero by simp

lemma le_one: "x \<le> 1 \<Longrightarrow> rd x \<le> 1"
  using mono [of x 1] one by simp

lemma ge_one: "1 \<le> x \<Longrightarrow> 1 \<le> rd x"
  using mono [of 1 x] one by simp

lemma ge_minus_one: "- 1 \<le> x \<Longrightarrow> - 1 \<le> rd x"
  using mono [of "- 1" x] one minus [of 1] by simp

lemma unit: "0 \<le> x \<Longrightarrow> x \<le> 1 \<Longrightarrow> 0 \<le> rd x \<and> rd x \<le> 1"
  using nonneg le_one by blast

lemma below: "x \<le> c \<Longrightarrow> rd c \<le> d \<Longrightarrow> rd x \<le> d"
  using mono [of x c] by linarith

lemma above: "c \<le> x \<Longrightarrow> d \<le> rd c \<Longrightarrow> d \<le> rd x"
  using mono [of c x] by linarith

end

interpretation f32: rounding rnd32
proof unfold_locales
  show "rnd32 1 = 1"
    unfolding rnd32_def by (rule rnd_exact [of _ "2 ^ 23" "- 23"]) (simp_all add: pow2_def)
qed (simp_all add: rnd32_def rnd_mono rnd_minus)

interpretation f64: rounding rnd64
proof unfold_locales
  show "rnd64 1 = 1"
    unfolding rnd64_def by (rule rnd_exact [of _ "2 ^ 52" "- 52"]) (simp_all add: pow2_def)
qed (simp_all add: rnd64_def rnd_mono rnd_minus)

declare f32.zero [fl_simps] f32.one [fl_simps] f64.zero [fl_simps] f64.one [fl_simps]

lemma u64_to_f64_nonneg: "0 \<le> u64_to_f64 w"
  unfolding u64_to_f64_def by (rule f64.nonneg, rule of_nat_0_le_iff)

lemma u64_to_f32_nonneg: "0 \<le> u64_to_f32 w"
  unfolding u64_to_f32_def by (rule f32.nonneg, rule of_nat_0_le_iff)

lemma u64_to_f64_mono: "a \<le> b \<Longrightarrow> u64_to_f64 a \<le> u64_to_f64 b"
  unfolding u64_to_f64_def word_le_nat_alt by (rule f64.mono, simp only: of_nat_le_iff)

lemma u64_to_f32_mono: "a \<le> b \<Longrightarrow> u64_to_f32 a \<le> u64_to_f32 b"
  unfolding u64_to_f32_def word_le_nat_alt by (rule f32.mono, simp only: of_nat_le_iff)

text \<open>Small integers convert exactly.\<close>

lemma rnd32_nat: "n < 2 ^ 24 \<Longrightarrow> rnd32 (of_nat n) = of_nat n"
  unfolding rnd32_def by (rule rnd_exact [of _ "int n" 0]) (simp_all add: pow2_def)

lemma rnd64_nat: "n < 2 ^ 53 \<Longrightarrow> rnd64 (of_nat n) = of_nat n"
  unfolding rnd64_def by (rule rnd_exact [of _ "int n" 0]) (simp_all add: pow2_def)

lemma unat_f64_to_u64 [unat_simps]:
  "unat (f64_to_u64 x) = (if x \<le> 0 then 0 else if 2 ^ 64 \<le> x then 2 ^ 64 - 1 else nat \<lfloor>x\<rfloor>)"
proof -
  have "nat \<lfloor>x\<rfloor> mod 2 ^ 64 = nat \<lfloor>x\<rfloor>" if "0 < x" "x < 2 ^ 64"
  proof -
    have "\<lfloor>x\<rfloor> < 2 ^ 64" using that by (simp add: floor_less_iff)
    then show ?thesis using that by (intro mod_less) (simp add: nat_less_iff)
  qed
  then show ?thesis
    by (simp add: f64_to_u64_def unat_all_ones unsigned_of_int take_bit_eq_mod
        nat_mod_distrib)
qed

lemma f64_to_u64_mono: "x \<le> y \<Longrightarrow> f64_to_u64 x \<le> f64_to_u64 y"
  using floor_mono [of x y]
  by (auto simp: word_le_nat_alt unat_f64_to_u64 nat_le_iff floor_less_iff)

lemma f64_to_u64_nat: "n < 2 ^ 64 \<Longrightarrow> unat (f64_to_u64 (of_nat n)) = n"
  by (cases "n = 0") (auto simp: unat_f64_to_u64 not_le)

text \<open>Evaluating one rounding: the significand \<open>m\<close> and exponent \<open>e\<close> are given and checked.\<close>

lemma rnd_eval:
  assumes "pow2 (e + p - 1) \<le> x" and "x < pow2 (e + p)" and "q \<le> e"
    and "\<bar>x - of_int m * pow2 e\<bar> < pow2 e / 2"
  shows "rnd p q x = of_int m * pow2 e"
proof -
  have x: "0 < x" using assms(1) pow2_pos [of "e + p - 1"] by linarith
  have "ilog2 x = e + p - 1" using assms(1,2) by (intro ilog2_unique) (simp_all add: algebra_simps)
  then have e: "quantum p q x = e" using assms(3) x by (simp add: quantum_def)
  have "x - of_int m * pow2 e = (x / pow2 e - of_int m) * pow2 e"
    by (simp add: left_diff_distrib)
  then have "\<bar>x / pow2 e - of_int m\<bar> * pow2 e < 1 / 2 * pow2 e"
    using assms(4) pow2_pos [of e] by (simp add: abs_mult)
  then have "\<bar>x / pow2 e - of_int m\<bar> < 1 / 2"
    using pow2_pos [of e] by (simp only: mult_less_cancel_right_pos)
  then have "\<bar>of_int (rne (x / pow2 e)) - (of_int m :: rat)\<bar> < 1"
    using rne_error [of "x / pow2 e"] by linarith
  then have "rne (x / pow2 e) = m" by linarith
  then show ?thesis using x e by (simp add: rnd_def Let_def)
qed

end
