(* ===== verification/Trust_Table.thy ===== *)
theory Trust_Table
  imports Pid_Table Ieee_Float
begin

text \<open>
  \<open>src/ai/trust.rs\<close>: the trust and watchlist table. The six arrays of \<open>TrustTable\<close> are the
  fields of \<open>trust_table\<close>; each method is the definition of the same name, in the order of the
  source. Scores are \<open>f32\<close> values (rationals rounded at every operation), PIDs are 32-bit words
  read as signed, and a comm name is a list of bytes.

  The table is a \<open>pid_store\<close>, which gives it the meaning of a partial map from PIDs to rows. The
  lemmas show that scores stay in the documented interval, how the watchlist flag follows the
  adverse-exit streak, and what \<open>worst_actors\<close> returns.
\<close>

section \<open>Data\<close>

definition TRUST_THRESHOLD :: rat where "TRUST_THRESHOLD = - rnd32 (35 / 100)"
definition SHAME_MAX :: nat where "SHAME_MAX = 20"

record shame_entry =
  se_pid :: i32
  se_trust :: rat
  se_comm :: "u8 list"
  se_flagged :: bool

definition shame_entry_ZERO :: shame_entry where
  "shame_entry_ZERO = \<lparr>se_pid = 0, se_trust = 0, se_comm = replicate 16 0, se_flagged = False\<rparr>"

record exit_observation =
  slice_underrun :: bool
  preempted :: bool
  clean_exit :: bool
  cheat_flagged :: bool
  fork_count :: u64
  involuntary_ctx_sw :: u64

definition str_to_comm :: "u8 list \<Rightarrow> u8 list" where
  "str_to_comm bytes = (let n = min (length bytes) 15 in take n bytes @ replicate (16 - n) 0)"

record trust_table =
  scores :: "nat \<Rightarrow> rat"
  pids :: "nat \<Rightarrow> i32"
  comms :: "nat \<Rightarrow> u8 list"
  flagged :: "nat \<Rightarrow> bool"
  cheat_streak :: "nat \<Rightarrow> u8"
  tgid_scores :: "nat \<Rightarrow> rat"

section \<open>Operations\<close>

definition trust_new :: trust_table where
  "trust_new = \<lparr>scores = (\<lambda>_. 0), pids = (\<lambda>_. PID_EMPTY), comms = (\<lambda>_. replicate 16 0),
     flagged = (\<lambda>_. False), cheat_streak = (\<lambda>_. 0), tgid_scores = (\<lambda>_. 0)\<rparr>"

text \<open>The six assignments that set a slot to neutral for PID \<open>p\<close>.\<close>

definition reset_slot :: "trust_table \<Rightarrow> nat \<Rightarrow> i32 \<Rightarrow> trust_table" where
  "reset_slot t dst p = t\<lparr>pids := (pids t)(dst := p), scores := (scores t)(dst := 0),
     comms := (comms t)(dst := replicate 16 0), flagged := (flagged t)(dst := False),
     cheat_streak := (cheat_streak t)(dst := 0), tgid_scores := (tgid_scores t)(dst := 0)\<rparr>"

definition get_or_insert_slot :: "trust_table \<Rightarrow> i32 \<Rightarrow> nat \<times> trust_table" where
  "get_or_insert_slot t pid =
     (case insert_probe (pids t) pid of
        Existing s \<Rightarrow> (s, t)
      | Fresh dst \<Rightarrow> (dst, reset_slot t dst pid))"

definition trust_score :: "trust_table \<Rightarrow> i32 \<Rightarrow> rat" where
  "trust_score t pid = (case find_slot (pids t) pid of Some s \<Rightarrow> scores t s | None \<Rightarrow> 0)"

definition is_quarantined :: "trust_table \<Rightarrow> i32 \<Rightarrow> bool" where
  "is_quarantined t pid \<longleftrightarrow> trust_score t pid < TRUST_THRESHOLD"

definition is_flagged :: "trust_table \<Rightarrow> i32 \<Rightarrow> bool" where
  "is_flagged t pid = (case find_slot (pids t) pid of Some s \<Rightarrow> flagged t s | None \<Rightarrow> False)"

definition set_score :: "trust_table \<Rightarrow> nat \<Rightarrow> rat \<Rightarrow> trust_table" where
  "set_score t s x = t\<lparr>scores := (scores t)(s := x)\<rparr>"

text \<open>
  \<open>update_on_exit\<close> is one sequence of guarded assignments to the PID's slot \<open>s\<close>; each guarded
  block is a definition, applied in the order of the source.
\<close>

definition store_comm :: "u8 list \<Rightarrow> nat \<Rightarrow> trust_table \<Rightarrow> trust_table" where
  "store_comm comm s t =
     (if comm \<noteq> [] then t\<lparr>comms := (comms t)(s := str_to_comm comm)\<rparr> else t)"

definition signal_underrun :: "exit_observation \<Rightarrow> nat \<Rightarrow> trust_table \<Rightarrow> trust_table" where
  "signal_underrun obs s t =
     (if slice_underrun obs
      then set_score t s (min (add32 (mul32 (scores t s) (rnd32 (95/100))) (rnd32 (10/100))) 1)
      else t)"

definition signal_clean :: "exit_observation \<Rightarrow> nat \<Rightarrow> trust_table \<Rightarrow> trust_table" where
  "signal_clean obs s t =
     (if clean_exit obs \<and> \<not> cheat_flagged obs
      then set_score t s (min (add32 (mul32 (scores t s) (rnd32 (97/100))) (rnd32 (6/100))) 1)
      else t)"

definition signal_preempted :: "exit_observation \<Rightarrow> nat \<Rightarrow> trust_table \<Rightarrow> trust_table" where
  "signal_preempted obs s t =
     (if preempted obs
      then set_score t s (max (sub32 (mul32 (scores t s) (rnd32 (93/100))) (rnd32 (7/100))) (- 1))
      else t)"

definition signal_cheat :: "exit_observation \<Rightarrow> nat \<Rightarrow> trust_table \<Rightarrow> trust_table" where
  "signal_cheat obs s t =
     (if cheat_flagged obs
      then let t = set_score t s
                 (max (sub32 (mul32 (scores t s) (rnd32 (90/100))) (rnd32 (30/100))) (- 1))
           in t\<lparr>cheat_streak := (cheat_streak t)(s := sat_add (cheat_streak t s) 1)\<rparr>
      else t\<lparr>cheat_streak := (cheat_streak t)(s := 0), flagged := (flagged t)(s := False)\<rparr>)"

definition signal_forks :: "exit_observation \<Rightarrow> nat \<Rightarrow> trust_table \<Rightarrow> trust_table" where
  "signal_forks obs s t =
     (if 50 < fork_count obs
      then let penalty = min (mul32 (u64_to_f32 (fork_count obs - 50)) (rnd32 (2/1000))) (rnd32 (30/100))
           in set_score t s (max (sub32 (scores t s) penalty) (- 1))
      else t)"

definition signal_ctx_sw :: "exit_observation \<Rightarrow> nat \<Rightarrow> trust_table \<Rightarrow> trust_table" where
  "signal_ctx_sw obs s t =
     (if 1000 < involuntary_ctx_sw obs
      then set_score t s (max (sub32 (scores t s) (rnd32 (8/100))) (- 1))
      else t)"

definition mark_flag :: "nat \<Rightarrow> trust_table \<Rightarrow> trust_table" where
  "mark_flag s t = (if 2 \<le> cheat_streak t s then t\<lparr>flagged := (flagged t)(s := True)\<rparr> else t)"

definition blend_tgid :: "i32 \<Rightarrow> nat \<Rightarrow> trust_table \<Rightarrow> trust_table" where
  "blend_tgid tgid s t =
     (let ts = slot tgid in
        if pids t ts = tgid \<or> pids t ts = PID_EMPTY then
          let t = (if pids t ts = PID_EMPTY
                   then t\<lparr>pids := (pids t)(ts := tgid), tgid_scores := (tgid_scores t)(ts := 0)\<rparr>
                   else t)
          in t\<lparr>tgid_scores := (tgid_scores t)(ts :=
                 add32 (mul32 (tgid_scores t ts) (rnd32 (8/10))) (mul32 (scores t s) (rnd32 (2/10))))\<rparr>
        else t)"

definition update_on_exit ::
    "trust_table \<Rightarrow> i32 \<Rightarrow> i32 \<Rightarrow> exit_observation \<Rightarrow> u8 list \<Rightarrow> trust_table" where
  "update_on_exit t0 pid tgid obs comm =
     (let (s, t) = get_or_insert_slot t0 pid;
          t = store_comm comm s t;
          t = signal_underrun obs s t;
          t = signal_clean obs s t;
          t = signal_preempted obs s t;
          t = signal_cheat obs s t;
          t = signal_forks obs s t;
          t = signal_ctx_sw obs s t;
          t = mark_flag s t
      in blend_tgid tgid s t)"

definition slice_factor :: "trust_table \<Rightarrow> i32 \<Rightarrow> rat" where
  "slice_factor tbl pid =
     (let t = trust_score tbl pid in
        if 0 \<le> t then 1 else clamp (add64 1 (mul64 t (3/4))) (1/4) 1)"

definition trust_evict :: "trust_table \<Rightarrow> i32 \<Rightarrow> trust_table" where
  "trust_evict t pid =
     (case find_slot (pids t) pid of
        Some s \<Rightarrow> reset_slot t s PID_TOMBSTONE
      | None \<Rightarrow> t)"

text \<open>\<open>Iterator::position\<close>.\<close>

fun position :: "('a \<Rightarrow> bool) \<Rightarrow> 'a list \<Rightarrow> nat option" where
  "position P [] = None"
| "position P (x # xs) = (if P x then Some 0 else map_option Suc (position P xs))"

definition worst_actors_step ::
    "trust_table \<Rightarrow> nat \<Rightarrow> shame_entry list \<times> nat \<Rightarrow> shame_entry list \<times> nat" where
  "worst_actors_step t sl acc =
     (case acc of (out, n) \<Rightarrow>
        let pid = pids t sl in
          if sint pid \<le> 0 then (out, n)
          else let score = scores t sl in
            if score < TRUST_THRESHOLD then
              let entry = \<lparr>se_pid = pid, se_trust = score, se_comm = comms t sl, se_flagged = flagged t sl\<rparr>
              in if n < SHAME_MAX then (out[n := entry], n + 1)
                 else (case position (\<lambda>e. score < se_trust e) (take n out) of
                         Some pos \<Rightarrow> (out[pos := entry], n)
                       | None \<Rightarrow> (out, n))
            else (out, n))"

definition worst_actors :: "trust_table \<Rightarrow> shame_entry list \<times> nat" where
  "worst_actors t = fold (worst_actors_step t) [0..<TABLE_SIZE] (replicate SHAME_MAX shame_entry_ZERO, 0)"

definition quarantined_count :: "trust_table \<Rightarrow> u64" where
  "quarantined_count t = of_nat (length (filter (\<lambda>s. 0 < sint (pids t s))
     (filter (\<lambda>s. pids t s \<noteq> 0 \<and> scores t s < TRUST_THRESHOLD) [0..<TABLE_SIZE])))"

definition flagged_count :: "trust_table \<Rightarrow> u64" where
  "flagged_count t = of_nat (length (filter (\<lambda>s. 0 < sint (pids t s))
     (filter (\<lambda>s. pids t s \<noteq> 0 \<and> flagged t s) [0..<TABLE_SIZE])))"

definition trust_tick :: "trust_table \<Rightarrow> u64 \<Rightarrow> i32 list \<times> nat" where
  "trust_tick t now_ns = (replicate 64 0, 0)"

section \<open>The table is a PID store\<close>

type_synonym trust_row = "rat \<times> u8 list \<times> bool \<times> u8 \<times> rat"

definition trust_row :: "trust_table \<Rightarrow> nat \<Rightarrow> trust_row" where
  "trust_row t = (\<lambda>s. (scores t s, comms t s, flagged t s, cheat_streak t s, tgid_scores t s))"

definition blank_row :: trust_row where
  "blank_row = (0, replicate 16 0, False, 0, 0)"

interpretation trust: pid_store pids trust_row blank_row get_or_insert_slot trust_evict
  by unfold_locales
    (auto simp: get_or_insert_slot_def trust_evict_def reset_slot_def trust_row_def blank_row_def fun_eq_iff)

section \<open>What one exit observation does to a slot\<close>

definition raise_score :: "rat \<Rightarrow> rat \<Rightarrow> rat \<Rightarrow> rat" where
  "raise_score a b x = min (add32 (mul32 x (rnd32 a)) (rnd32 b)) 1"

definition lower_score :: "rat \<Rightarrow> rat \<Rightarrow> rat \<Rightarrow> rat" where
  "lower_score a b x = max (sub32 (mul32 x (rnd32 a)) (rnd32 b)) (- 1)"

definition fork_penalty :: "u64 \<Rightarrow> rat" where
  "fork_penalty n = min (mul32 (u64_to_f32 (n - 50)) (rnd32 (2/1000))) (rnd32 (30/100))"

text \<open>The new score as a function of the old one: the guarded steps, in order.\<close>

definition guarded :: "bool \<Rightarrow> (rat \<Rightarrow> rat) \<Rightarrow> rat \<Rightarrow> rat" where
  "guarded b f x = (if b then f x else x)"

definition next_score :: "exit_observation \<Rightarrow> rat \<Rightarrow> rat" where
  "next_score obs x =
     guarded (1000 < involuntary_ctx_sw obs) (\<lambda>x. max (sub32 x (rnd32 (8/100))) (- 1))
     (guarded (50 < fork_count obs) (\<lambda>x. max (sub32 x (fork_penalty (fork_count obs))) (- 1))
     (guarded (cheat_flagged obs) (lower_score (90/100) (30/100))
     (guarded (preempted obs) (lower_score (93/100) (7/100))
     (guarded (clean_exit obs \<and> \<not> cheat_flagged obs) (raise_score (97/100) (6/100))
     (guarded (slice_underrun obs) (raise_score (95/100) (10/100)) x)))))"

definition next_streak :: "exit_observation \<Rightarrow> u8 \<Rightarrow> u8" where
  "next_streak obs n = (if cheat_flagged obs then sat_add n 1 else 0)"

lemmas stage_defs = store_comm_def signal_underrun_def signal_clean_def signal_preempted_def
  signal_cheat_def signal_forks_def signal_ctx_sw_def mark_flag_def set_score_def

lemma stage_pids:
  "pids (store_comm comm s t) = pids t" "pids (signal_underrun obs s t) = pids t"
  "pids (signal_clean obs s t) = pids t" "pids (signal_preempted obs s t) = pids t"
  "pids (signal_cheat obs s t) = pids t" "pids (signal_forks obs s t) = pids t"
  "pids (signal_ctx_sw obs s t) = pids t" "pids (mark_flag s t) = pids t"
  by (simp_all add: stage_defs Let_def)

lemma stage_scores:
  "scores (store_comm comm s t) = scores t"
  "scores (signal_underrun obs s t) = (scores t)(s :=
     guarded (slice_underrun obs) (raise_score (95/100) (10/100)) (scores t s))"
  "scores (signal_clean obs s t) = (scores t)(s :=
     guarded (clean_exit obs \<and> \<not> cheat_flagged obs) (raise_score (97/100) (6/100)) (scores t s))"
  "scores (signal_preempted obs s t) = (scores t)(s :=
     guarded (preempted obs) (lower_score (93/100) (7/100)) (scores t s))"
  "scores (signal_cheat obs s t) = (scores t)(s :=
     guarded (cheat_flagged obs) (lower_score (90/100) (30/100)) (scores t s))"
  "scores (signal_forks obs s t) = (scores t)(s := guarded (50 < fork_count obs)
     (\<lambda>x. max (sub32 x (fork_penalty (fork_count obs))) (- 1)) (scores t s))"
  "scores (signal_ctx_sw obs s t) = (scores t)(s := guarded (1000 < involuntary_ctx_sw obs)
     (\<lambda>x. max (sub32 x (rnd32 (8/100))) (- 1)) (scores t s))"
  "scores (mark_flag s t) = scores t" "scores (blend_tgid tgid s t) = scores t"
  by (simp_all add: stage_defs blend_tgid_def Let_def raise_score_def lower_score_def
      fork_penalty_def guarded_def)

lemma stage_streaks:
  "cheat_streak (store_comm comm s t) = cheat_streak t"
  "cheat_streak (signal_underrun obs s t) = cheat_streak t"
  "cheat_streak (signal_clean obs s t) = cheat_streak t"
  "cheat_streak (signal_preempted obs s t) = cheat_streak t"
  "cheat_streak (signal_cheat obs s t) = (cheat_streak t)(s := next_streak obs (cheat_streak t s))"
  "cheat_streak (signal_forks obs s t) = cheat_streak t"
  "cheat_streak (signal_ctx_sw obs s t) = cheat_streak t"
  "cheat_streak (mark_flag s t) = cheat_streak t" "cheat_streak (blend_tgid tgid s t) = cheat_streak t"
  by (simp_all add: stage_defs blend_tgid_def Let_def next_streak_def)

lemma stage_flags:
  "flagged (store_comm comm s t) = flagged t" "flagged (signal_underrun obs s t) = flagged t"
  "flagged (signal_clean obs s t) = flagged t" "flagged (signal_preempted obs s t) = flagged t"
  "flagged (signal_cheat obs s t) = (flagged t)(s := cheat_flagged obs \<and> flagged t s)"
  "flagged (signal_forks obs s t) = flagged t" "flagged (signal_ctx_sw obs s t) = flagged t"
  "flagged (mark_flag s t) = (flagged t)(s := 2 \<le> cheat_streak t s \<or> flagged t s)"
  "flagged (blend_tgid tgid s t) = flagged t"
  by (auto simp: stage_defs blend_tgid_def Let_def fun_eq_iff)

lemma stage_comms:
  "comms (store_comm comm s t) = (comms t)(s := if comm = [] then comms t s else str_to_comm comm)"
  "comms (signal_underrun obs s t) = comms t" "comms (signal_clean obs s t) = comms t"
  "comms (signal_preempted obs s t) = comms t" "comms (signal_cheat obs s t) = comms t"
  "comms (signal_forks obs s t) = comms t" "comms (signal_ctx_sw obs s t) = comms t"
  "comms (mark_flag s t) = comms t" "comms (blend_tgid tgid s t) = comms t"
  by (simp_all add: stage_defs blend_tgid_def Let_def)

lemma blend_tgid_pids:
  "pids (blend_tgid tgid s t) =
     (if pids t (slot tgid) = PID_EMPTY then (pids t)(slot tgid := tgid) else pids t)"
  by (simp add: blend_tgid_def Let_def)

lemmas stage_simps = stage_pids stage_scores stage_streaks stage_flags stage_comms blend_tgid_pids

lemma update_on_exit_effect:
  fixes obs :: exit_observation and comm :: "u8 list" and tgid :: i32
  assumes "get_or_insert_slot t pid = (s, t1)"
  defines "t' \<equiv> update_on_exit t pid tgid obs comm"
  shows "scores t' = (scores t1)(s := next_score obs (scores t1 s))"
    and "cheat_streak t' = (cheat_streak t1)(s := next_streak obs (cheat_streak t1 s))"
    and "flagged t' = (flagged t1)(s := 2 \<le> next_streak obs (cheat_streak t1 s) \<or>
           cheat_flagged obs \<and> flagged t1 s)"
    and "comms t' = (comms t1)(s := if comm = [] then comms t1 s else str_to_comm comm)"
    and "pids t' = (if pids t1 (slot tgid) = PID_EMPTY then (pids t1)(slot tgid := tgid) else pids t1)"
  using assms(1)
  by (simp_all add: t'_def update_on_exit_def Let_def stage_simps next_score_def)

section \<open>Scores stay in their interval\<close>

lemma lit_unit: "0 \<le> a \<Longrightarrow> a \<le> 1 \<Longrightarrow> 0 \<le> rnd32 a \<and> rnd32 a \<le> 1"
  by (rule f32.unit)

lemma scale_bounds:
  assumes "- 1 \<le> x" "x \<le> 1" "0 \<le> a" "a \<le> 1"
  shows "- 1 \<le> mul32 x (rnd32 a)" and "mul32 x (rnd32 a) \<le> 1"
proof -
  have a: "0 \<le> rnd32 a" "rnd32 a \<le> 1" using lit_unit assms by auto
  have "\<bar>x * rnd32 a\<bar> \<le> 1 * 1" unfolding abs_mult using assms a by (intro mult_mono) auto
  then have "- 1 \<le> x * rnd32 a" "x * rnd32 a \<le> 1" by (auto simp: abs_le_iff)
  then show "- 1 \<le> mul32 x (rnd32 a)" and "mul32 x (rnd32 a) \<le> 1"
    by (auto simp: mul32_def f32.ge_minus_one f32.le_one)
qed

definition score_range :: "rat \<Rightarrow> bool" where
  "score_range x \<longleftrightarrow> - 1 \<le> x \<and> x \<le> 1"

lemma guarded_range [intro]:
  "score_range x \<Longrightarrow> (score_range x \<Longrightarrow> score_range (f x)) \<Longrightarrow> score_range (guarded b f x)"
  by (simp add: guarded_def)

lemma guarded_mono:
  "x \<le> y \<Longrightarrow> (\<And>x y. x \<le> y \<Longrightarrow> f x \<le> f y) \<Longrightarrow> guarded b f x \<le> guarded b f y"
  by (simp add: guarded_def)

lemma raise_score_range:
  assumes "score_range x" "0 \<le> a" "a \<le> 1" "0 \<le> b"
  shows "score_range (raise_score a b x)"
proof -
  have "- 1 \<le> mul32 x (rnd32 a) + rnd32 b"
    using scale_bounds [of x a] f32.nonneg [OF assms(4)] assms unfolding score_range_def by linarith
  then show ?thesis by (simp add: score_range_def raise_score_def add32_def f32.ge_minus_one)
qed

lemma lower_score_range:
  assumes "score_range x" "0 \<le> a" "a \<le> 1" "0 \<le> b"
  shows "score_range (lower_score a b x)"
proof -
  have "mul32 x (rnd32 a) - rnd32 b \<le> 1"
    using scale_bounds [of x a] f32.nonneg [OF assms(4)] assms unfolding score_range_def by linarith
  then show ?thesis by (simp add: score_range_def lower_score_def sub32_def f32.le_one)
qed

lemma fork_penalty_nonneg: "0 \<le> fork_penalty n"
proof -
  have "0 \<le> u64_to_f32 (n - 50) * rnd32 (2/1000)"
    by (intro mult_nonneg_nonneg u64_to_f32_nonneg f32.nonneg) auto
  then show ?thesis by (simp add: fork_penalty_def mul32_def f32.nonneg)
qed

lemma penalty_range: "score_range x \<Longrightarrow> 0 \<le> p \<Longrightarrow> score_range (max (sub32 x p) (- 1))"
  by (simp add: score_range_def sub32_def f32.le_one)

lemma next_score_range: "score_range x \<Longrightarrow> score_range (next_score obs x)"
  unfolding next_score_def
  by (intro guarded_range raise_score_range lower_score_range penalty_range fork_penalty_nonneg
      f32.nonneg) auto

section \<open>Scores are monotone in the old score\<close>

lemma mul32_mono: "x \<le> y \<Longrightarrow> 0 \<le> a \<Longrightarrow> mul32 x (rnd32 a) \<le> mul32 y (rnd32 a)"
  unfolding mul32_def by (intro f32.mono mult_right_mono f32.nonneg) auto

lemma raise_score_mono: "x \<le> y \<Longrightarrow> 0 \<le> a \<Longrightarrow> raise_score a b x \<le> raise_score a b y"
  unfolding raise_score_def add32_def by (intro min.mono f32.mono add_mono mul32_mono) auto

lemma lower_score_mono: "x \<le> y \<Longrightarrow> 0 \<le> a \<Longrightarrow> lower_score a b x \<le> lower_score a b y"
  unfolding lower_score_def sub32_def by (intro max.mono f32.mono diff_mono mul32_mono) auto

lemma penalty_mono: "x \<le> y \<Longrightarrow> max (sub32 x p) (- 1) \<le> max (sub32 y p) (- 1)"
  unfolding sub32_def by (intro max.mono f32.mono) auto

lemma next_score_mono: "x \<le> y \<Longrightarrow> next_score obs x \<le> next_score obs y"
  unfolding next_score_def
  by (intro guarded_mono penalty_mono raise_score_mono lower_score_mono) auto

section \<open>The invariant of the table\<close>

text \<open>
  Rows hold a score in the interval and a flag that says exactly that the streak has reached two;
  a slot no PID owns holds a neutral row (its \<open>tgid_scores\<close> aside).
\<close>

definition row_ok :: "trust_row \<Rightarrow> bool" where
  "row_ok r \<longleftrightarrow> (case r of (x, c, f, n, g) \<Rightarrow>
     score_range x \<and> length c = 16 \<and> (f \<longleftrightarrow> 2 \<le> n) \<and> score_range g)"

definition neutral :: "trust_table \<Rightarrow> nat \<Rightarrow> bool" where
  "neutral t s \<longleftrightarrow> scores t s = 0 \<and> comms t s = replicate 16 0 \<and> \<not> flagged t s \<and> cheat_streak t s = 0"

definition trust_inv :: "trust_table \<Rightarrow> bool" where
  "trust_inv t \<longleftrightarrow> pids_valid (pids t) \<and> (\<forall>s. row_ok (trust_row t s)) \<and>
     (\<forall>s. \<not> live (pids t s) \<longrightarrow> neutral t s)"

lemma blank_row_ok [simp]: "row_ok blank_row"
  by (simp add: row_ok_def blank_row_def score_range_def)

lemma trust_inv_new: "trust_inv trust_new"
  by (simp add: trust_inv_def trust_new_def pids_valid_empty trust_row_def row_ok_def score_range_def neutral_def)

lemma length_str_to_comm: "length (str_to_comm c) = 16"
  by (simp add: str_to_comm_def Let_def)

lemma sat_add_ge_2_iff: "2 \<le> sat_add n 1 \<longleftrightarrow> 1 \<le> n" for n :: u8
  by (simp add: word_le_nat_alt unat_sat_add)

lemma dyadic32: "\<bar>m\<bar> < 2 ^ 24 \<Longrightarrow> rnd32 (of_int m / 256) = of_int m / 256"
  unfolding rnd32_def by (rule rnd_exact [of _ m "- 8"]) (simp_all add: pow2_def)

text \<open>The literals of the update rule, as the nearest \<open>f32\<close> values.\<close>

lemma lit_93_100: "rnd32 (93/100) = 15602811 / 16777216"
  using rnd_eval [of "-24" 24 "93/100" "- 149" 15602811] by (simp add: rnd32_def pow2_def)

lemma lit_7_100: "rnd32 (7/100) = 9395241 / 134217728"
  using rnd_eval [of "-27" 24 "7/100" "- 149" 9395241] by (simp add: rnd32_def pow2_def)

lemma lit_90_100: "rnd32 (90/100) = 7549747 / 8388608"
  using rnd_eval [of "-24" 24 "90/100" "- 149" 15099494] by (simp add: rnd32_def pow2_def)

lemma lit_30_100: "rnd32 (30/100) = 5033165 / 16777216"
  using rnd_eval [of "-25" 24 "30/100" "- 149" 10066330] by (simp add: rnd32_def pow2_def)

lemma lit_35_100: "rnd32 (35/100) = 11744051 / 33554432"
  using rnd_eval [of "-25" 24 "35/100" "- 149" 11744051] by (simp add: rnd32_def pow2_def)

lemma lit_97_100: "rnd32 (97/100) = 4068475 / 4194304"
  using rnd_eval [of "-24" 24 "97/100" "- 149" 16273900] by (simp add: rnd32_def pow2_def)

lemma lit_6_100: "rnd32 (6/100) = 16106127 / 268435456"
  using rnd_eval [of "-28" 24 "6/100" "- 149" 16106127] by (simp add: rnd32_def pow2_def)

lemma lit_95_100: "rnd32 (95/100) = 15938355 / 16777216"
  using rnd_eval [of "-24" 24 "95/100" "- 149" 15938355] by (simp add: rnd32_def pow2_def)

lemma lit_10_100: "rnd32 (10/100) = 13421773 / 134217728"
  using rnd_eval [of "-27" 24 "10/100" "- 149" 13421773] by (simp add: rnd32_def pow2_def)

lemma lit_8_10: "rnd32 (8/10) = 13421773 / 16777216"
  using rnd_eval [of "-24" 24 "8/10" "- 149" 13421773] by (simp add: rnd32_def pow2_def)

lemma lit_2_10: "rnd32 (2/10) = 13421773 / 67108864"
  using rnd_eval [of "-26" 24 "2/10" "- 149" 13421773] by (simp add: rnd32_def pow2_def)

lemmas trust_lits = lit_93_100 lit_7_100 lit_90_100 lit_30_100 lit_35_100 lit_97_100 lit_6_100 lit_95_100 lit_10_100 lit_8_10 lit_2_10

text \<open>The same values under the reduced fractions the simplifier produces.\<close>

lemma trust_lits_reduced:
  "rnd32 (9/10) = 7549747 / 8388608" "rnd32 (3/10) = 5033165 / 16777216"
  "rnd32 (7/20) = 11744051 / 33554432" "rnd32 (3/50) = 16106127 / 268435456"
  "rnd32 (19/20) = 15938355 / 16777216" "rnd32 (1/10) = 13421773 / 134217728"
  "rnd32 (4/5) = 13421773 / 16777216" "rnd32 (1/5) = 13421773 / 67108864"
  using lit_90_100 lit_30_100 lit_35_100 lit_6_100 lit_95_100 lit_10_100 lit_8_10 lit_2_10 by simp_all

lemma lit_blend: "rnd32 (rnd32 (8/10)) = rnd32 (8/10)" "rnd32 (rnd32 (2/10)) = rnd32 (2/10)"
  "rnd32 (rnd32 (8/10) + rnd32 (2/10)) = 1"
  by code_simp+

text \<open>The TGID blend is a convex combination, up to rounding.\<close>

lemma blend_range:
  assumes "score_range g" "score_range x"
  shows "score_range (add32 (mul32 g (rnd32 (8/10))) (mul32 x (rnd32 (2/10))))"
proof -
  have bound: "\<bar>mul32 y (rnd32 c)\<bar> \<le> rnd32 c"
    if "score_range y" and "rnd32 (rnd32 c) = rnd32 c" and "0 \<le> c" for y c
  proof -
    have c: "0 \<le> rnd32 c" using that by (intro f32.nonneg)
    have "\<bar>y * rnd32 c\<bar> \<le> 1 * rnd32 c"
      unfolding abs_mult using that c by (intro mult_mono) (auto simp: score_range_def abs_le_iff)
    then have "y * rnd32 c \<le> rnd32 c" "- rnd32 c \<le> y * rnd32 c" by (auto simp: abs_le_iff)
    from this [THEN f32.mono] show ?thesis using that by (simp add: mul32_def f32.minus abs_le_iff)
  qed
  have "\<bar>mul32 g (rnd32 (8/10)) + mul32 x (rnd32 (2/10))\<bar> \<le> rnd32 (8/10) + rnd32 (2/10)"
    using bound [OF assms(1) lit_blend(1)] bound [OF assms(2) lit_blend(2)] by linarith
  then have "mul32 g (rnd32 (8/10)) + mul32 x (rnd32 (2/10)) \<le> rnd32 (8/10) + rnd32 (2/10)"
    and "- (rnd32 (8/10) + rnd32 (2/10)) \<le> mul32 g (rnd32 (8/10)) + mul32 x (rnd32 (2/10))"
    by (auto simp: abs_le_iff)
  from this [THEN f32.mono] show ?thesis
    unfolding score_range_def add32_def f32.minus lit_blend(3) by simp
qed

lemma tgid_scores_update:
  assumes "get_or_insert_slot t pid = (s, t1)"
  shows "tgid_scores (update_on_exit t pid tgid obs comm) =
     (if pids t1 (slot tgid) = tgid \<or> pids t1 (slot tgid) = PID_EMPTY
      then (tgid_scores t1)(slot tgid :=
         add32 (mul32 (if pids t1 (slot tgid) = PID_EMPTY then 0 else tgid_scores t1 (slot tgid)) (rnd32 (8/10)))
               (mul32 (next_score obs (scores t1 s)) (rnd32 (2/10))))
      else tgid_scores t1)"
proof -
  have keep: "tgid_scores (store_comm comm s t) = tgid_scores t" "tgid_scores (signal_underrun obs s t) = tgid_scores t"
    "tgid_scores (signal_clean obs s t) = tgid_scores t" "tgid_scores (signal_preempted obs s t) = tgid_scores t"
    "tgid_scores (signal_cheat obs s t) = tgid_scores t" "tgid_scores (signal_forks obs s t) = tgid_scores t"
    "tgid_scores (signal_ctx_sw obs s t) = tgid_scores t" "tgid_scores (mark_flag s t) = tgid_scores t" for t
    by (simp_all add: stage_defs Let_def)
  have blend: "tgid_scores (blend_tgid tgid s t) =
     (if pids t (slot tgid) = tgid \<or> pids t (slot tgid) = PID_EMPTY
      then (tgid_scores t)(slot tgid :=
         add32 (mul32 (if pids t (slot tgid) = PID_EMPTY then 0 else tgid_scores t (slot tgid)) (rnd32 (8/10)))
               (mul32 (scores t s) (rnd32 (2/10))))
      else tgid_scores t)" for t
    by (simp add: blend_tgid_def Let_def)
  show ?thesis
    using assms by (simp add: update_on_exit_def Let_def blend keep stage_pids stage_scores next_score_def)
qed

lemma trust_inv_insert:
  assumes "trust_inv t" and "live pid" and ins: "get_or_insert_slot t pid = (s, t1)"
  shows "trust_inv t1" and "pids t1 s = pid" and "s < TABLE_SIZE"
    and "find_slot (pids t1) pid = Some s"
proof -
  show find: "find_slot (pids t1) pid = Some s"
    using trust.insert_valid [of t pid s t1] assms by (simp add: trust_inv_def)
  then show own: "pids t1 s = pid" and "s < TABLE_SIZE" using find_slot_Some by blast+
  have "neutral t1 i" if "\<not> live (pids t1 i)" for i
  proof -
    have "i \<noteq> s" using that own assms(2) by auto
    then show ?thesis using that assms ins
      by (auto simp: get_or_insert_slot_def reset_slot_def trust_inv_def neutral_def
          split: probe_result.splits)
  qed
  then show "trust_inv t1"
    using trust.insert_valid [of t pid s t1] trust.insert_rows [of row_ok t pid s t1] assms
    by (auto simp: trust_inv_def)
qed

lemma trust_inv_update:
  assumes inv: "trust_inv t" and pid: "live pid" and tgid: "live tgid"
  shows "trust_inv (update_on_exit t pid tgid obs comm)"
proof -
  obtain s t1 where ins: "get_or_insert_slot t pid = (s, t1)" by fastforce
  note t1 = trust_inv_insert [OF inv pid ins]
  let ?u = "update_on_exit t pid tgid obs comm"
  note eff = update_on_exit_effect [OF ins, where tgid = tgid and obs = obs and comm = comm]
  note tg = tgid_scores_update [OF ins, where tgid = tgid and obs = obs and comm = comm]
  have v1: "pids_valid (pids t1)" and rows1: "row_ok (trust_row t1 i)" for i
    using t1(1) by (auto simp: trust_inv_def)
  have "pids_valid (pids ?u)"
    using eff(5) v1 pids_valid_claim_home(1) [OF v1 tgid] by simp
  moreover have "row_ok (trust_row ?u i)" for i
  proof -
    have r: "score_range (scores t1 j)" "length (comms t1 j) = 16" "flagged t1 j \<longleftrightarrow> 2 \<le> cheat_streak t1 j"
      "score_range (tgid_scores t1 j)" for j
      using rows1 [of j] by (auto simp: row_ok_def trust_row_def)
    have g: "score_range (tgid_scores ?u i)"
      using r next_score_range blend_range by (auto simp: tg score_range_def [of 0])
    have "2 \<le> next_streak obs (cheat_streak t1 s) \<or> cheat_flagged obs \<and> flagged t1 s \<longleftrightarrow>
        2 \<le> next_streak obs (cheat_streak t1 s)"
      using r(3) [of s] by (auto simp: next_streak_def word_le_nat_alt unat_sat_add)
    then show ?thesis
      using r g next_score_range [OF r(1)] length_str_to_comm by (simp add: row_ok_def trust_row_def eff(1-4))
  qed
  moreover have "neutral ?u i" if "\<not> live (pids ?u i)" for i
  proof -
    have "\<not> live (pids t1 i)" "i \<noteq> s" using that eff(5) t1(2) pid tgid by (auto split: if_splits)
    then show ?thesis using t1(1) by (simp add: trust_inv_def neutral_def eff(1-4))
  qed
  ultimately show ?thesis by (simp add: trust_inv_def)
qed

lemma trust_inv_evict:
  assumes "trust_inv t"
  shows "trust_inv (trust_evict t pid)"
proof -
  have "neutral (trust_evict t pid) i" if "\<not> live (pids (trust_evict t pid) i)" for i
    using that assms
    by (auto simp: trust_evict_def reset_slot_def trust_inv_def neutral_def split: option.splits if_splits)
  then show ?thesis
    using trust.evict_valid [of t pid] trust.evict_rows [of row_ok t pid] assms
    by (auto simp: trust_inv_def)
qed

section \<open>Reachable tables\<close>

text \<open>The calls the scheduler makes on the table, and a run of them.\<close>

datatype trust_op = Exit_Observed i32 i32 exit_observation "u8 list" | Evicted i32

fun trust_step :: "trust_op \<Rightarrow> trust_table \<Rightarrow> trust_table" where
  "trust_step (Exit_Observed pid tgid obs comm) t = update_on_exit t pid tgid obs comm"
| "trust_step (Evicted pid) t = trust_evict t pid"

fun op_pids_positive :: "trust_op \<Rightarrow> bool" where
  "op_pids_positive (Exit_Observed pid tgid obs comm) \<longleftrightarrow> is_pos_i32 pid \<and> is_pos_i32 tgid"
| "op_pids_positive (Evicted pid) \<longleftrightarrow> is_pos_i32 pid"

lemma trust_step_inv: "trust_inv t \<Longrightarrow> op_pids_positive op \<Longrightarrow> trust_inv (trust_step op t)"
  by (cases op) (auto intro: trust_inv_update trust_inv_evict live_pos)

lemma trust_run_inv:
  "trust_inv t \<Longrightarrow> \<forall>op \<in> set ops. op_pids_positive op \<Longrightarrow> trust_inv (fold trust_step ops t)"
  by (induction ops arbitrary: t) (auto intro: trust_step_inv)

lemma trust_score_view:
  "trust_score t pid = (case pid_view (pids t) (trust_row t) pid of None \<Rightarrow> 0 | Some r \<Rightarrow> fst r)"
  by (simp add: trust_score_def pid_view_def trust_row_def split: option.splits)

lemma is_flagged_view:
  "is_flagged t pid =
     (case pid_view (pids t) (trust_row t) pid of None \<Rightarrow> False | Some r \<Rightarrow> fst (snd (snd r)))"
  by (simp add: is_flagged_def pid_view_def trust_row_def split: option.splits)

text \<open>The number of consecutive adverse exits on record for a PID.\<close>

definition streak_of :: "trust_table \<Rightarrow> i32 \<Rightarrow> u8" where
  "streak_of t pid = (case find_slot (pids t) pid of Some s \<Rightarrow> cheat_streak t s | None \<Rightarrow> 0)"

lemma is_flagged_streak:
  "trust_inv t \<Longrightarrow> is_flagged t pid \<longleftrightarrow> 2 \<le> streak_of t pid"
  by (auto simp: is_flagged_def streak_of_def trust_inv_def row_ok_def trust_row_def word_le_nat_alt
      split: option.splits)

lemma trust_score_range: "trust_inv t \<Longrightarrow> score_range (trust_score t pid)"
  by (auto simp: trust_score_def trust_inv_def row_ok_def trust_row_def score_range_def
      split: option.splits)

lemma trust_score_new: "trust_score trust_new pid = 0"
  by (simp add: trust_score_def trust_new_def split: option.splits)

lemma insert_row_values:
  assumes "trust_inv t" and "live pid" and "get_or_insert_slot t pid = (s, t1)"
  shows "scores t1 s = trust_score t pid" and "cheat_streak t1 s = streak_of t pid"
  using trust.insert_view [of t pid s t1] assms
  by (auto simp: trust_inv_def trust_row_def blank_row_def trust_score_def streak_of_def pid_view_def
      split: option.splits)

lemma update_same_pid:
  assumes inv: "trust_inv t" and pid: "live pid" and tgid: "live tgid"
  defines "t' \<equiv> \<lambda>obs comm. update_on_exit t pid tgid obs comm"
  shows "trust_score (t' obs comm) pid = next_score obs (trust_score t pid)"
    and "streak_of (t' obs comm) pid = next_streak obs (streak_of t pid)"
proof -
  obtain s t1 where ins: "get_or_insert_slot t pid = (s, t1)" by fastforce
  note t1 = trust_inv_insert [OF inv pid ins] and row = insert_row_values [OF inv pid ins]
  note eff = update_on_exit_effect [OF ins, where tgid = tgid and obs = obs and comm = comm]
  have "trust_inv (t' obs comm)" unfolding t'_def by (rule trust_inv_update [OF inv pid tgid])
  then have v: "pids_valid (pids (t' obs comm))" by (simp add: trust_inv_def)
  have "pids (t' obs comm) s = pid" using eff(5) t1(2) pid by (auto simp: t'_def live_def)
  then have f: "find_slot (pids (t' obs comm)) pid = Some s"
    using find_slot_iff [OF v pid] t1(3) by simp
  show "trust_score (t' obs comm) pid = next_score obs (trust_score t pid)"
    using f eff(1) row(1) unfolding t'_def by (simp add: trust_score_def)
  show "streak_of (t' obs comm) pid = next_streak obs (streak_of t pid)"
    using f eff(2) row(2) unfolding t'_def by (simp add: streak_of_def)
qed

text \<open>Other PIDs keep their scores: an observation for one PID and TGID touches only their slots.\<close>

lemma update_other_pid:
  assumes inv: "trust_inv t" and pid: "live pid" and tgid: "live tgid" and q: "live q" "q \<noteq> pid"
    and keep: "\<not> table_full (pids t) \<or> find_slot (pids t) pid \<noteq> None \<or> pids t (slot pid) \<noteq> q"
  shows "trust_score (update_on_exit t pid tgid obs comm) q = trust_score t q"
    and "streak_of (update_on_exit t pid tgid obs comm) q = streak_of t q"
proof -
  obtain s t1 where ins: "get_or_insert_slot t pid = (s, t1)" by fastforce
  note t1 = trust_inv_insert [OF inv pid ins]
  note eff = update_on_exit_effect [OF ins, where tgid = tgid and obs = obs and comm = comm]
  have v: "pids_valid (pids t)" and v1: "pids_valid (pids t1)" using inv t1(1) by (auto simp: trust_inv_def)
  let ?u = "update_on_exit t pid tgid obs comm"
  have vu: "pids_valid (pids ?u)" using trust_inv_update [OF inv pid tgid] by (simp add: trust_inv_def)
  have view: "pid_view (pids t1) (trust_row t1) q = pid_view (pids t) (trust_row t) q"
    using trust.insert_other [OF v pid q(1,2) ins keep] .
  have old: "trust_score t1 q = trust_score t q" "streak_of t1 q = streak_of t q"
    using view by (auto simp: trust_score_def streak_of_def pid_view_def trust_row_def split: option.splits)
  have ns: "find_slot (pids t1) q \<noteq> Some s" using find_slot_Some t1(2) q(2) by blast
  have "trust_score ?u q = trust_score t1 q \<and> streak_of ?u q = streak_of t1 q"
  proof (cases "pids t1 (slot tgid) = PID_EMPTY")
    case True
    then have pu: "pids ?u = (pids t1)(slot tgid := tgid)" using eff(5) by simp
    show ?thesis
    proof (cases "q = tgid")
      case True
      have "find_slot (pids t1) q = None"
        using pids_valid_claim_home(2) [OF v1 tgid] \<open>pids t1 (slot tgid) = PID_EMPTY\<close> True by simp
      moreover have "find_slot (pids ?u) q = Some (slot tgid)"
        using find_slot_iff [OF vu q(1)] pu True by (simp add: probe_simps)
      moreover have "slot tgid \<noteq> s" using t1(2) \<open>pids t1 (slot tgid) = PID_EMPTY\<close> pid by auto
      moreover have "neutral t1 (slot tgid)"
        using t1(1) \<open>pids t1 (slot tgid) = PID_EMPTY\<close> by (simp add: trust_inv_def)
      ultimately show ?thesis by (simp add: trust_score_def streak_of_def eff(1,2) neutral_def)
    next
      case False
      have "find_slot (pids ?u) q = find_slot (pids t1) q"
        using find_slot_upd_other [OF v1 _ q(1) False, of "slot tgid"] vu pu q(1) True
        by (simp add: live_def)
      then show ?thesis using ns eff(1,2) by (auto simp: trust_score_def streak_of_def split: option.splits)
    qed
  next
    case False
    then have "pids ?u = pids t1" using eff(5) by simp
    then show ?thesis using ns eff(1,2) by (auto simp: trust_score_def streak_of_def split: option.splits)
  qed
  with old show "trust_score ?u q = trust_score t q" "streak_of ?u q = streak_of t q" by simp_all
qed

lemma evict_pid:
  assumes "trust_inv t" and "live pid" and "live q"
  shows "trust_score (trust_evict t pid) q = (if q = pid then 0 else trust_score t q)"
    and "is_flagged (trust_evict t pid) q = (q \<noteq> pid \<and> is_flagged t q)"
  using trust.evict_view [of t pid q] assms
  by (simp_all add: trust_score_view is_flagged_view trust_inv_def)

section \<open>The watchlist snapshot\<close>

definition distrusted :: "trust_table \<Rightarrow> nat \<Rightarrow> bool" where
  "distrusted t s \<longleftrightarrow> is_pos_i32 (pids t s) \<and> scores t s < TRUST_THRESHOLD"

definition actor :: "trust_table \<Rightarrow> nat \<Rightarrow> shame_entry" where
  "actor t s = \<lparr>se_pid = pids t s, se_trust = scores t s, se_comm = comms t s, se_flagged = flagged t s\<rparr>"

lemma actor_sel [simp]: "se_pid (actor t s) = pids t s" "se_trust (actor t s) = scores t s"
  by (simp_all add: actor_def)

lemma worst_actors_step_eq:
  "worst_actors_step t s (out, n) =
     (if \<not> distrusted t s then (out, n)
      else if n < SHAME_MAX then (out[n := actor t s], n + 1)
      else case position (\<lambda>e. scores t s < se_trust e) (take n out) of
          Some pos \<Rightarrow> (out[pos := actor t s], n) | None \<Rightarrow> (out, n))"
  by (simp add: worst_actors_step_def distrusted_def actor_def Let_def cong: option.case_cong)

lemma position_Some: "position P xs = Some i \<Longrightarrow> i < length xs \<and> P (xs ! i)"
  by (induction xs arbitrary: i) (auto split: if_splits)

lemma position_None: "position P xs = None \<longleftrightarrow> (\<forall>x \<in> set xs. \<not> P x)"
  by (induction xs) auto

text \<open>
  After the slots \<open>ss\<close>: the first \<open>n\<close> entries are rows of distinct distrusted slots \<open>sl\<close>, as many
  as fit, and one of them is at least as bad as any distrusted slot seen.
\<close>

definition listed :: "trust_table \<Rightarrow> nat list \<Rightarrow> shame_entry list \<times> nat \<Rightarrow> nat list \<Rightarrow> bool" where
  "listed t ss acc sl \<longleftrightarrow> (case acc of (out, n) \<Rightarrow>
     length out = SHAME_MAX \<and> n = min SHAME_MAX (length (filter (distrusted t) ss)) \<and>
     length sl = n \<and> distinct sl \<and> set sl \<subseteq> set (filter (distrusted t) ss) \<and>
     take n out = map (actor t) sl \<and>
     (\<forall>s \<in> set ss. distrusted t s \<longrightarrow> (\<exists>s' \<in> set sl. scores t s' \<le> scores t s)))"

lemma listed_step_room:
  assumes l: "listed t ss (out, n) sl" and q: "distrusted t s" and new: "s \<notin> set ss" and room: "n < SHAME_MAX"
  shows "listed t (ss @ [s]) (out[n := actor t s], n + 1) (sl @ [s])"
  using l q new room by (auto simp: listed_def take_Suc_conv_app_nth take_update_cancel)

lemma listed_step_replace:
  assumes l: "listed t ss (out, n) sl" and q: "distrusted t s" and new: "s \<notin> set ss" and full: "\<not> n < SHAME_MAX"
    and pos: "position (\<lambda>e. scores t s < se_trust e) (take n out) = Some i"
  shows "listed t (ss @ [s]) (out[i := actor t s], n) (sl[i := s])"
proof -
  have sl: "take n out = map (actor t) sl" "length sl = n" "set sl \<subseteq> set (filter (distrusted t) ss)"
    "distinct sl" "\<forall>r \<in> set ss. distrusted t r \<longrightarrow> (\<exists>s' \<in> set sl. scores t s' \<le> scores t r)"
    using l by (auto simp: listed_def)
  from position_Some [OF pos] sl have i: "i < length sl" "scores t s < scores t (sl ! i)" by auto
  have cover: "\<exists>s' \<in> set (sl[i := s]). scores t s' \<le> scores t r" if r: "r \<in> set ss" "distrusted t r" for r
  proof -
    from sl(5) r obtain j where j: "j < length sl" "scores t (sl ! j) \<le> scores t r"
      by (metis in_set_conv_nth)
    show ?thesis
    proof (cases "j = i")
      case True
      then show ?thesis using i j by (intro bexI [of _ s]) (auto simp: set_update_memI)
    next
      case False
      then have "sl ! j = sl[i := s] ! j" by simp
      then have "sl ! j \<in> set (sl[i := s])" using j(1) by (metis length_list_update nth_mem)
      then show ?thesis using j by blast
    qed
  qed
  have "distinct (sl[i := s])" using sl new by (intro distinct_list_update) auto
  moreover have "set (sl[i := s]) \<subseteq> set (filter (distrusted t) (ss @ [s]))"
    using set_update_subset_insert [of sl i s] sl(3) q by auto
  moreover have "take n (out[i := actor t s]) = map (actor t) (sl[i := s])"
    using sl(1) by (simp add: take_update_swap map_update)
  moreover have "s \<in> set (sl[i := s])" using i by (simp add: set_update_memI)
  ultimately show ?thesis using l full q cover by (auto simp: listed_def)
qed

lemma listed_step_keep:
  assumes l: "listed t ss (out, n) sl" and full: "\<not> n < SHAME_MAX"
    and pos: "position (\<lambda>e. scores t s < se_trust e) (take n out) = None"
  shows "listed t (ss @ [s]) (out, n) sl"
proof -
  have "sl \<noteq> []" using l full by (auto simp: listed_def SHAME_MAX_def)
  moreover have "scores t s' \<le> scores t s" if "s' \<in> set sl" for s'
    using pos that l by (auto simp: position_None listed_def not_less)
  ultimately have "\<exists>s' \<in> set sl. scores t s' \<le> scores t s" by (meson hd_in_set)
  then show ?thesis using l full by (auto simp: listed_def)
qed

lemma worst_actors_fold_listed:
  assumes "distinct ss"
  shows "\<exists>sl. listed t ss (fold (worst_actors_step t) ss (replicate SHAME_MAX shame_entry_ZERO, 0)) sl"
  using assms
proof (induction ss rule: rev_induct)
  case Nil
  then show ?case by (intro exI [of _ "[]"]) (simp add: listed_def)
next
  case (snoc s ss)
  obtain out n where acc: "fold (worst_actors_step t) ss (replicate SHAME_MAX shame_entry_ZERO, 0) = (out, n)"
    by fastforce
  with snoc obtain sl where l: "listed t ss (out, n) sl" and new: "s \<notin> set ss" by auto
  show ?case
  proof (cases "distrusted t s")
    case False
    with l have "listed t (ss @ [s]) (out, n) sl" by (auto simp: listed_def)
    with False acc show ?thesis by (auto simp: worst_actors_step_eq)
  next
    case True
    show ?thesis
    proof (cases "n < SHAME_MAX")
      case room: True
      with listed_step_room [OF l True new] acc True show ?thesis by (auto simp: worst_actors_step_eq)
    next
      case full: False
      with listed_step_replace [OF l True new full] listed_step_keep [OF l full] acc True show ?thesis
        by (auto simp: worst_actors_step_eq split: option.splits)
    qed
  qed
qed

lemma worst_actors_listed: "\<exists>sl. listed t [0..<TABLE_SIZE] (worst_actors t) sl"
  unfolding worst_actors_def by (rule worst_actors_fold_listed) simp

lemma quarantined_count_filter:
  "unat (quarantined_count t) = length (filter (distrusted t) [0..<TABLE_SIZE])"
proof -
  have "filter (\<lambda>s. 0 < sint (pids t s)) (filter (\<lambda>s. pids t s \<noteq> 0 \<and> scores t s < TRUST_THRESHOLD)
      [0..<TABLE_SIZE]) = filter (distrusted t) [0..<TABLE_SIZE]"
    by (auto simp: distrusted_def intro!: filter_cong)
  moreover have "length (filter (distrusted t) [0..<TABLE_SIZE]) \<le> TABLE_SIZE"
    using length_filter_le [of "distrusted t" "[0..<TABLE_SIZE]"] by simp
  ultimately show ?thesis
    by (simp add: quarantined_count_def unat_of_nat TABLE_SIZE_def)
qed

section \<open>Example observations\<close>

definition obs_adverse :: exit_observation where
  "obs_adverse = \<lparr>slice_underrun = False, preempted = True, clean_exit = False, cheat_flagged = True,
     fork_count = 0, involuntary_ctx_sw = 0\<rparr>"

definition obs_quiet :: exit_observation where
  "obs_quiet = \<lparr>slice_underrun = False, preempted = False, clean_exit = False, cheat_flagged = False,
     fork_count = 0, involuntary_ctx_sw = 0\<rparr>"

lemma table_not_full_new: "\<not> table_full (pids trust_new)"
  by (auto simp: table_full_def trust_new_def live_def TABLE_SIZE_def intro!: exI [of _ 0])

section \<open>Properties\<close>

text \<open>
  C18. After any sequence of exit observations and evictions with positive PIDs, from a new table,
  the table is a valid hash map (each PID owns at most one slot and is always found), every trust
  score lies in [-1, 1], and a PID is flagged exactly when its adverse-exit streak is at least two.
\<close>

theorem trust_table_invariant:
  assumes "\<forall>op \<in> set ops. op_pids_positive op"
  defines "t \<equiv> fold trust_step ops trust_new"
  shows "pids_valid (pids t) \<and> - 1 \<le> trust_score t pid \<and> trust_score t pid \<le> 1 \<and>
    (is_flagged t pid \<longleftrightarrow> 2 \<le> streak_of t pid)"
proof -
  have "trust_inv t" unfolding t_def using trust_run_inv [OF trust_inv_new assms(1)] .
  then show ?thesis
    using trust_score_range [of t pid] is_flagged_streak [of t pid]
    by (simp add: trust_inv_def score_range_def)
qed

theorem trust_table_invariant_witness:
  "pids_valid (pids (fold trust_step [Exit_Observed 5 7 obs_adverse [], Evicted 5] trust_new))"
  using trust_table_invariant [of "[Exit_Observed 5 7 obs_adverse [], Evicted 5]" 5] by simp

text \<open>
  \<open>update_on_exit\<close> sets the PID's score to \<open>next_score\<close> of its old score (0 for a PID not yet
  in the table), and, unless the table is full, changes no other PID's score or watchlist flag,
  whatever PIDs hash to the same slot.
\<close>

theorem update_on_exit_functional:
  assumes "trust_inv t" and "is_pos_i32 pid" and "is_pos_i32 tgid" and "is_pos_i32 q"
    and "\<not> table_full (pids t)"
  shows "trust_score (update_on_exit t pid tgid obs comm) q =
      (if q = pid then next_score obs (trust_score t pid) else trust_score t q) \<and>
    is_flagged (update_on_exit t pid tgid obs comm) q =
      (if q = pid then 2 \<le> next_streak obs (streak_of t pid) else is_flagged t q)"
proof -
  have l: "live pid" "live tgid" "live q" using assms by (auto intro: live_pos)
  have inv': "trust_inv (update_on_exit t pid tgid obs comm)"
    using trust_inv_update [OF assms(1) l(1,2)] .
  note flag = is_flagged_streak [OF inv', of q] is_flagged_streak [OF assms(1), of q]
  show ?thesis
  proof (cases "q = pid")
    case True
    then show ?thesis using update_same_pid [OF assms(1) l(1,2)] flag by simp
  next
    case False
    then show ?thesis using update_other_pid [OF assms(1) l(1,2,3) False] assms(5) flag by simp
  qed
qed

theorem update_on_exit_functional_witness:
  "trust_score (update_on_exit trust_new 5 7 obs_quiet []) 5 = 0 \<and>
    \<not> is_flagged (update_on_exit trust_new 5 7 obs_quiet []) 5"
  using update_on_exit_functional [OF trust_inv_new, of 5 7 5 obs_quiet "[]"] table_not_full_new
  by (simp add: next_score_def next_streak_def guarded_def obs_quiet_def trust_score_new word_le_nat_alt)

text \<open>
  C24. The watchlist flag reports the last two exits: after two observations for a PID it is set
  exactly when both were adverse, whatever came before.
\<close>

theorem flagged_iff_two_adverse_exits:
  assumes "trust_inv t" and "is_pos_i32 pid" and "is_pos_i32 tgid"
  shows "is_flagged (update_on_exit (update_on_exit t pid tgid obs1 comm1) pid tgid obs2 comm2) pid \<longleftrightarrow>
    cheat_flagged obs1 \<and> cheat_flagged obs2"
proof -
  have l: "live pid" "live tgid" using assms by (auto intro: live_pos)
  let ?u1 = "update_on_exit t pid tgid obs1 comm1"
  have inv1: "trust_inv ?u1" using trust_inv_update [OF assms(1) l] .
  then have inv2: "trust_inv (update_on_exit ?u1 pid tgid obs2 comm2)" using trust_inv_update l by blast
  show ?thesis
    unfolding is_flagged_streak [OF inv2] update_same_pid(2) [OF inv1 l] update_same_pid(2) [OF assms(1) l]
    by (auto simp: next_streak_def word_le_nat_alt unat_sat_add)
qed

theorem flagged_iff_two_adverse_exits_witness:
  "is_flagged (update_on_exit (update_on_exit trust_new 5 7 obs_adverse []) 5 7 obs_adverse []) 5"
  using flagged_iff_two_adverse_exits [OF trust_inv_new, of 5 7 obs_adverse "[]" obs_adverse "[]"]
  by (simp add: obs_adverse_def)

text \<open>An upper bound on one lowering step, in multiples of 1/256.\<close>

lemma lower_score_le:
  assumes "x \<le> of_int u / 256" and "of_int u * rnd32 a \<le> of_int m" and "of_int m / 256 - rnd32 b \<le> of_int v / 256"
    and "\<bar>m\<bar> < 2 ^ 24" and "\<bar>v\<bar> < 2 ^ 24" and "- 256 \<le> v" and "0 \<le> a"
  shows "lower_score a b x \<le> of_int v / 256"
proof -
  have "x * rnd32 a \<le> of_int u / 256 * rnd32 a"
    using assms(1) f32.nonneg [OF assms(7)] by (rule mult_right_mono)
  also have "\<dots> \<le> of_int m / 256" using assms(2) by simp
  finally have "mul32 x (rnd32 a) \<le> of_int m / 256"
    using f32.mono dyadic32 [OF assms(4)] unfolding mul32_def by metis
  then have "mul32 x (rnd32 a) - rnd32 b \<le> of_int v / 256" using assms(3) by linarith
  then have "sub32 (mul32 x (rnd32 a)) (rnd32 b) \<le> of_int v / 256"
    using f32.mono dyadic32 [OF assms(5)] unfolding sub32_def by metis
  moreover have "(- 1 :: rat) \<le> of_int v / 256" using assms(6) by (simp add: pos_le_divide_eq)
  ultimately show ?thesis by (simp add: lower_score_def)
qed

lemma adverse_round:
  assumes "x \<le> of_int u / 256" and "of_int u * rnd32 (93/100) \<le> of_int m" and "of_int m / 256 - rnd32 (7/100) \<le> of_int v / 256"
    and "of_int v * rnd32 (90/100) \<le> of_int n" and "of_int n / 256 - rnd32 (30/100) \<le> of_int w / 256"
    and "\<bar>m\<bar> < 256" "\<bar>v\<bar> < 256" "\<bar>n\<bar> < 256" "\<bar>w\<bar> < 256"
  shows "lower_score (90/100) (30/100) (lower_score (93/100) (7/100) x) \<le> of_int w / 256"
  using assms by (intro lower_score_le [OF lower_score_le [OF assms(1)]]) auto

text \<open>
  Four adverse, preempted exits in a row put any PID below the watchlist threshold, even one
  that starts at the highest score.
\<close>

theorem adverse_exits_quarantine:
  assumes "trust_inv t" and "is_pos_i32 pid" and "is_pos_i32 tgid"
    and "\<not> slice_underrun obs" and "preempted obs" and "cheat_flagged obs"
    and "fork_count obs \<le> 50" and "involuntary_ctx_sw obs \<le> 1000"
  shows "is_quarantined (((\<lambda>t. update_on_exit t pid tgid obs comm) ^^ 4) t) pid"
proof -
  have l: "live pid" "live tgid" using assms by (auto intro: live_pos)
  let ?f = "\<lambda>x. lower_score (90/100) (30/100) (lower_score (93/100) (7/100) x)"
  have "\<not> 50 < fork_count obs" "\<not> 1000 < involuntary_ctx_sw obs" using assms by auto
  then have obs: "next_score obs x = ?f x" for x
    using assms by (simp add: next_score_def guarded_def)
  have run: "trust_inv (((\<lambda>t. update_on_exit t pid tgid obs comm) ^^ n) t) \<and>
      trust_score (((\<lambda>t. update_on_exit t pid tgid obs comm) ^^ n) t) pid = (?f ^^ n) (trust_score t pid)" for n
    by (induction n) (use assms l trust_inv_update update_same_pid in \<open>simp_all add: obs\<close>)
  have mono: "(?f ^^ n) x \<le> (?f ^^ n) y" if "x \<le> y" for n x y
    by (induction n) (use that in \<open>auto intro!: lower_score_mono\<close>)
  have "trust_score t pid \<le> 1" using trust_score_range [OF assms(1)] by (simp add: score_range_def)
  then have "(?f ^^ 4) (trust_score t pid) \<le> (?f ^^ 4) 1" by (rule mono)
  also have "\<dots> \<le> of_int (- 156) / 256"
  proof -
    have 1: "?f 1 \<le> of_int 124 / 256"
      by (rule adverse_round [of _ 256 239 222 200]) (simp_all add: trust_lits trust_lits_reduced)
    have 2: "?f (?f 1) \<le> of_int 14 / 256"
      by (rule adverse_round [OF 1, of 116 99 90]) (simp_all add: trust_lits trust_lits_reduced)
    have 3: "?f (?f (?f 1)) \<le> of_int (- 78) / 256"
      by (rule adverse_round [OF 2, of 14 "- 3" "- 2"]) (simp_all add: trust_lits trust_lits_reduced)
    have "?f (?f (?f (?f 1))) \<le> of_int (- 156) / 256"
      by (rule adverse_round [OF 3, of "- 72" "- 89" "- 80"]) (simp_all add: trust_lits trust_lits_reduced)
    then show ?thesis by (simp add: numeral_eq_Suc)
  qed
  also have "\<dots> < TRUST_THRESHOLD" by (simp add: TRUST_THRESHOLD_def trust_lits trust_lits_reduced)
  finally show ?thesis using run [of 4] by (simp add: is_quarantined_def)
qed

theorem adverse_exits_quarantine_witness:
  "is_quarantined (((\<lambda>t. update_on_exit t 5 7 obs_adverse []) ^^ 4) trust_new) 5"
  using adverse_exits_quarantine [OF trust_inv_new, of 5 7 obs_adverse "[]"]
  by (simp add: obs_adverse_def)

text \<open>
  \<open>worst_actors\<close> returns \<open>n = min(20, quarantined_count)\<close> entries; each is the row of a tracked PID
  below the threshold, no PID is listed twice, and the least trusted PID of the table is covered:
  some entry has a score no better than that of any quarantined row.
\<close>

theorem worst_actors_sound:
  assumes "trust_inv t"
  shows "case worst_actors t of (out, n) \<Rightarrow>
    n = min SHAME_MAX (unat (quarantined_count t)) \<and> length out = SHAME_MAX \<and>
    distinct (map se_pid (take n out)) \<and>
    (\<forall>e \<in> set (take n out). is_pos_i32 (se_pid e) \<and> is_quarantined t (se_pid e) \<and>
        se_trust e = trust_score t (se_pid e) \<and> (se_flagged e \<longleftrightarrow> is_flagged t (se_pid e))) \<and>
    (\<forall>pid. is_pos_i32 pid \<longrightarrow> is_quarantined t pid \<longrightarrow>
        (\<exists>e \<in> set (take n out). se_trust e \<le> trust_score t pid))"
proof -
  obtain out n where w: "worst_actors t = (out, n)" by fastforce
  with worst_actors_listed [of t] obtain sl where l: "listed t [0..<TABLE_SIZE] (out, n) sl" by auto
  have v: "pids_valid (pids t)" using assms by (simp add: trust_inv_def)
  have sl: "distinct sl" "take n out = map (actor t) sl"
    "\<forall>s \<in> set sl. s < TABLE_SIZE \<and> distrusted t s"
    using l by (auto simp: listed_def)
  have found: "find_slot (pids t) (pids t s) = Some s" if "s < TABLE_SIZE" "distrusted t s" for s
    using find_slot_iff [OF v, of "pids t s" s] that live_pos by (auto simp: distrusted_def)
  have "distinct (map (pids t) sl)"
    unfolding distinct_map using sl(1,3) pids_valid_unique [OF v] live_pos
    by (auto simp: inj_on_def distrusted_def)
  moreover have "is_pos_i32 (pids t s) \<and> is_quarantined t (pids t s) \<and> scores t s = trust_score t (pids t s) \<and>
      (flagged t s \<longleftrightarrow> is_flagged t (pids t s))" if "s \<in> set sl" for s
    using found [of s] sl(3) that
    by (auto simp: distrusted_def is_quarantined_def trust_score_def is_flagged_def)
  moreover have "\<exists>s' \<in> set sl. scores t s' \<le> trust_score t pid"
    if q: "is_pos_i32 pid" "is_quarantined t pid" for pid
  proof -
    have neg: "trust_score t pid < 0"
      using q(2) by (simp add: is_quarantined_def TRUST_THRESHOLD_def trust_lits trust_lits_reduced)
    then obtain s where f: "find_slot (pids t) pid = Some s"
      by (cases "find_slot (pids t) pid") (auto simp: trust_score_def)
    then have "s < TABLE_SIZE" "distrusted t s"
      using find_slot_Some [OF f] q by (auto simp: distrusted_def is_quarantined_def trust_score_def)
    with l f show ?thesis by (auto simp: listed_def trust_score_def)
  qed
  ultimately show ?thesis
    using l sl(2) w by (auto simp: listed_def quarantined_count_filter actor_def comp_def)
qed

theorem worst_actors_sound_witness:
  "snd (worst_actors trust_new) = min SHAME_MAX (unat (quarantined_count trust_new))"
  using worst_actors_sound [OF trust_inv_new] by (auto split: prod.splits)

text \<open>
  Only negative trust shortens a slice: the factor is 1 for a neutral or trusted PID and 1/4 at
  the lowest score, it stays between the two, and a less trusted PID never gets a larger factor.
\<close>

theorem slice_factor_graded:
  assumes "trust_score t p \<le> trust_score u q"
  shows "slice_factor t p \<le> slice_factor u q \<and> 1/4 \<le> slice_factor t p \<and> slice_factor u q \<le> 1 \<and>
    (0 \<le> trust_score t p \<longrightarrow> slice_factor t p = 1) \<and> (trust_score t p \<le> - 1 \<longrightarrow> slice_factor t p = 1/4)"
proof -
  let ?f = "\<lambda>x. clamp (add64 1 (mul64 x (3/4))) (1/4) 1"
  have mono: "?f x \<le> ?f y" if "x \<le> y" for x y
    unfolding add64_def mul64_def by (intro clamp_mono f64.mono add_left_mono) (use that in auto)
  have range: "1/4 \<le> ?f x" "?f x \<le> 1" for x
    using clamp_bounds [of "1/4" 1 "add64 1 (mul64 x (3/4))"] by simp_all
  have low: "?f (- 1) = 1/4" by code_simp
  show ?thesis
    using mono [OF assms] mono [of "trust_score t p" "- 1"] low range [of "trust_score t p"]
      range [of "trust_score u q"] assms
    by (auto simp: slice_factor_def Let_def intro: antisym)
qed

theorem slice_factor_graded_witness: "slice_factor trust_new 5 = 1"
  using slice_factor_graded [of trust_new 5 trust_new 5] by (simp add: trust_score_new)

text \<open>
  Evicting a PID forgets its score and its flag and leaves every other PID as it was, including
  those whose probe path runs through the freed slot.
\<close>

theorem trust_evict_functional:
  assumes "trust_inv t" and "is_pos_i32 pid" and "is_pos_i32 q"
  shows "trust_score (trust_evict t pid) q = (if q = pid then 0 else trust_score t q) \<and>
    is_flagged (trust_evict t pid) q = (q \<noteq> pid \<and> is_flagged t q)"
  using evict_pid [OF assms(1), of pid q] live_pos assms(2,3) by blast

theorem trust_evict_functional_witness:
  "trust_score (trust_evict (update_on_exit trust_new 5 7 obs_adverse []) 5) 5 = 0"
  using trust_evict_functional [of "update_on_exit trust_new 5 7 obs_adverse []" 5 5]
    trust_inv_update [OF trust_inv_new, of 5 7 obs_adverse "[]"] live_pos [of 5] live_pos [of 7]
  by simp

section \<open>A crowded watchlist\<close>

text \<open>PIDs 1 to 21, each in its home slot, in the order the slots are scanned.\<close>

definition crowd :: "(nat \<times> i32) list" where
  "crowd = [(141, 13), (369, 5), (510, 18), (738, 10), (966, 2), (1108, 15), (1336, 7), (1477, 20),
     (1705, 12), (1933, 4), (2074, 17), (2303, 9), (2531, 1), (2672, 14), (2900, 6), (3041,
     19), (3270, 11), (3498, 3), (3639, 16), (3867, 8), (4008, 21)]"

definition crowd_score :: "nat \<Rightarrow> rat" where
  "crowd_score s = (if map_of crowd s = None then 0 else if s = fst (hd crowd) then - 7/8
     else if s = fst (last crowd) then - 1 else - 1/2)"

definition crowded :: trust_table where
  "crowded = trust_new\<lparr>pids := (\<lambda>s. case map_of crowd s of Some p \<Rightarrow> p | None \<Rightarrow> PID_EMPTY),
     scores := crowd_score\<rparr>"

lemma probe_dist_self: "s < TABLE_SIZE \<Longrightarrow> probe_dist s s = 0"
  by (simp add: probe_dist_def)

lemma crowd_home: "(s, p) \<in> set crowd \<Longrightarrow> slot p = s \<and> is_pos_i32 p"
proof -
  have "\<forall>(s, p) \<in> set crowd. slot p = s \<and> 0 < sint p"
    by (simp add: crowd_def slot_def FIB32_def drop_bit_eq_div)
  then show "(s, p) \<in> set crowd \<Longrightarrow> slot p = s \<and> is_pos_i32 p" by auto
qed

lemma crowd_slots: "sorted (map fst crowd)" "distinct (map fst crowd)" "\<forall>s \<in> set (map fst crowd). s < TABLE_SIZE"
  by (simp_all add: crowd_def TABLE_SIZE_def)

lemma crowd_lookup: "map_of crowd s = Some p \<longleftrightarrow> (s, p) \<in> set crowd"
  using crowd_slots(2) by simp

lemma crowded_pids: "pids crowded s = (case map_of crowd s of Some p \<Rightarrow> p | None \<Rightarrow> PID_EMPTY)"
  by (simp add: crowded_def)

lemma trust_inv_crowded: "trust_inv crowded"
proof -
  have home: "slot (pids crowded s) = s" if "live (pids crowded s)" for s
    using that crowd_home [of s] crowd_lookup [of s]
    by (cases "map_of crowd s") (auto simp: crowded_pids live_def)
  have "pids_valid (pids crowded)"
    unfolding pids_valid_def using home by (simp add: probe_dist_self) metis
  moreover have "row_ok (trust_row crowded s)" for s
    by (simp add: row_ok_def trust_row_def crowded_def trust_new_def score_range_def crowd_score_def)
  moreover have "neutral crowded s" if "\<not> live (pids crowded s)" for s
    using that crowd_home [of s] crowd_lookup [of s] live_pos
    by (cases "map_of crowd s") (auto simp: neutral_def crowded_def trust_new_def crowd_score_def)
  ultimately show ?thesis by (simp add: trust_inv_def)
qed

lemma crowded_scan: "filter (distrusted crowded) [0..<TABLE_SIZE] = map fst crowd"
proof (rule sorted_distinct_set_unique)
  have "distrusted crowded s \<longleftrightarrow> s \<in> set (map fst crowd)" for s
  proof (cases "map_of crowd s")
    case None
    moreover from None have "s \<notin> set (map fst crowd)" by (simp add: map_of_eq_None_iff)
    ultimately show ?thesis by (simp add: distrusted_def crowded_pids PID_EMPTY_def)
  next
    case (Some p)
    then have "is_pos_i32 p" and "s \<in> set (map fst crowd)"
      using crowd_home [of s p] crowd_lookup [of s p] by force+
    moreover have "crowd_score s < TRUST_THRESHOLD"
      using Some by (simp add: crowd_score_def TRUST_THRESHOLD_def trust_lits trust_lits_reduced)
    ultimately show ?thesis using Some by (simp add: distrusted_def crowded_def)
  qed
  then show "set (filter (distrusted crowded) [0..<TABLE_SIZE]) = set (map fst crowd)"
    using crowd_slots(3) by auto
qed (use crowd_slots in \<open>auto intro: sorted_wrt_filter\<close>)

lemma fold_worst_filter:
  "fold (worst_actors_step t) ss acc = fold (worst_actors_step t) (filter (distrusted t) ss) acc"
  by (induction ss arbitrary: acc) (auto simp: worst_actors_step_eq)

text \<open>
  \<open>worst_actors\<close> need not return the 20 worst rows: with more than 20 distrusted PIDs it overwrites
  the first listed entry that is better than the new one, which can be the second worst of all.
\<close>

lemma fold_worst_room:
  "\<forall>s \<in> set ss. distrusted t s \<Longrightarrow> length ss \<le> SHAME_MAX \<Longrightarrow>
     fold (worst_actors_step t) ss (replicate SHAME_MAX shame_entry_ZERO, 0) =
       (map (actor t) ss @ replicate (SHAME_MAX - length ss) shame_entry_ZERO, length ss)"
proof (induction ss rule: rev_induct)
  case (snoc s ss)
  obtain k where k: "SHAME_MAX - length ss = Suc k" "SHAME_MAX - Suc (length ss) = k"
    using snoc.prems(2) by (cases "SHAME_MAX - length ss") auto
  have "length ss < SHAME_MAX" using snoc.prems(2) by simp
  with snoc k show ?case by (simp add: worst_actors_step_eq list_update_append)
qed simp

text \<open>
  \<open>worst_actors\<close> need not return the 20 worst rows: with 21 distrusted PIDs it overwrites the
  first listed entry that is better than the new one, here PID 13, the second worst of all, and
  keeps 19 PIDs that are trusted more.
\<close>

theorem worst_actors_drops_second_worst:
  "trust_inv crowded \<and> is_quarantined crowded 13 \<and>
   (case worst_actors crowded of (out, n) \<Rightarrow> n = SHAME_MAX \<and> 13 \<notin> se_pid ` set (take n out) \<and>
      length (filter (\<lambda>e. trust_score crowded 13 < se_trust e) (take n out)) = 19)"
proof -
  obtain ss where crowd: "crowd = (141, 13) # ss @ [(4008, 21)]" and len: "length ss = 19"
    and ss: "\<forall>(s, p) \<in> set ss. p \<noteq> 13 \<and> s \<noteq> 141 \<and> s \<noteq> 4008"
    by (rule that [of "butlast (tl crowd)"]) (simp_all add: crowd_def)
  have row: "pids crowded s = p" "scores crowded s = crowd_score s" if "(s, p) \<in> set crowd" for s p
    using that crowd_lookup by (simp_all add: crowded_def crowd_lookup [THEN iffD2])
  have ends: "fst (hd crowd) = 141" "fst (last crowd) = 4008" by (simp_all add: crowd_def)
  have score: "crowd_score s = (if s = 141 then - 7/8 else if s = 4008 then - 1 else - 1/2)"
    if "(s, p) \<in> set crowd" for s p
    using that [folded crowd_lookup] by (simp add: crowd_score_def ends)
  have all: "\<forall>s \<in> set (map fst crowd). distrusted crowded s"
    unfolding crowded_scan [symmetric] by simp
  let ?sl = "141 # map fst ss"
  have "worst_actors crowded =
      worst_actors_step crowded 4008 (fold (worst_actors_step crowded) ?sl (replicate SHAME_MAX shame_entry_ZERO, 0))"
    unfolding worst_actors_def fold_worst_filter [of _ "[0..<TABLE_SIZE]"] crowded_scan by (simp add: crowd)
  also have "\<dots> = worst_actors_step crowded 4008 (map (actor crowded) ?sl, SHAME_MAX)"
    using fold_worst_room [of ?sl crowded] all len by (simp add: crowd SHAME_MAX_def del: fold_simps)
  also have "\<dots> = (map (actor crowded) (4008 # map fst ss), SHAME_MAX)"
    using all row [of 141 13] row [of 4008 21] score [of 141 13] score [of 4008 21] len
    by (simp add: worst_actors_step_eq crowd SHAME_MAX_def)
  finally have w: "worst_actors crowded = (map (actor crowded) (4008 # map fst ss), SHAME_MAX)" .
  have sc13: "trust_score crowded 13 = - 7/8"
  proof -
    have "find_slot (pids crowded) 13 = Some 141"
      using find_slot_iff [of "pids crowded" 13 141] trust_inv_crowded row [of 141 13] live_pos [of 13]
      by (simp add: trust_inv_def crowd TABLE_SIZE_def)
    then show ?thesis using row [of 141 13] score [of 141 13] by (simp add: trust_score_def crowd)
  qed
  have "filter (\<lambda>e. - 7/8 < se_trust e) (map (actor crowded) (map fst ss)) = map (actor crowded) (map fst ss)"
    using row score ss by (auto simp: crowd filter_id_conv)
  moreover have "13 \<notin> pids crowded ` fst ` set ss" using row ss by (auto simp: crowd)
  ultimately show ?thesis
    using trust_inv_crowded sc13 w len row [of 4008 21] score [of 4008 21]
    by (simp add: is_quarantined_def TRUST_THRESHOLD_def trust_lits trust_lits_reduced crowd SHAME_MAX_def
        image_image)
qed

end
