(* ===== verification/Slice_Policy.thy ===== *)
theory Slice_Policy
  imports Ieee_Float "HOL-Library.Multiset"
begin

text \<open>
  \<open>src/ai/policy.rs\<close>: the load-driven slice controller. \<open>slice_controller\<close> has the fields of
  \<open>SliceController\<close>; \<open>update\<close> computes in \<open>f64\<close> and is modelled with its roundings; the
  latency ring is a list of 2048 words indexed through a wrapping 64-bit counter.
\<close>

unbundle bit_operations_syntax

section \<open>Model\<close>

definition TARGETED_LATENCY_NS :: u64 where "TARGETED_LATENCY_NS = 6000000"
definition AUTO_SLICE_MIN_NS :: u64 where "AUTO_SLICE_MIN_NS = 250000"
definition AUTO_SLICE_MAX_NS :: u64 where "AUTO_SLICE_MAX_NS = 8000000"
definition LAT_RING_CAP :: nat where "LAT_RING_CAP = 2048"
definition LAT_RING_MASK :: u64 where "LAT_RING_MASK = of_nat (LAT_RING_CAP - 1)"

record slice_controller =
  current_slice_ns :: u64
  base_slice_ns :: u64
  auto_base_ns :: u64
  sc_min_ns :: u64
  sc_max_ns :: u64
  lat_ring :: "u64 list"
  lat_idx :: u64

definition controller_new :: "u64 \<Rightarrow> slice_controller" where
  "controller_new base =
     (let initial_auto = clamp (if 0 < base then base else TARGETED_LATENCY_NS) AUTO_SLICE_MIN_NS AUTO_SLICE_MAX_NS
      in \<lparr>current_slice_ns = initial_auto, base_slice_ns = base, auto_base_ns = initial_auto,
          sc_min_ns = AUTO_SLICE_MIN_NS, sc_max_ns = AUTO_SLICE_MAX_NS,
          lat_ring = replicate LAT_RING_CAP 0, lat_idx = 0\<rparr>)"

definition effective_base_ns :: "slice_controller \<Rightarrow> u64" where
  "effective_base_ns c = (if 0 < base_slice_ns c then min (auto_base_ns c) (base_slice_ns c) else auto_base_ns c)"

definition controller_update :: "slice_controller \<Rightarrow> u64 \<Rightarrow> u64 \<Rightarrow> fault + (u64 \<times> slice_controller)" where
  "controller_update c nr_runnable nr_cpus =
     (if nr_cpus = 0 then Inr (current_slice_ns c, c)
      else
        let tasks_per_cpu = max (div64 (u64_to_f64 nr_runnable) (u64_to_f64 nr_cpus)) 1;
            computed = f64_to_u64 (div64 (u64_to_f64 TARGETED_LATENCY_NS) tasks_per_cpu);
            c = c\<lparr>auto_base_ns := clamp computed AUTO_SLICE_MIN_NS AUTO_SLICE_MAX_NS\<rparr>
        in bindR (clampR (effective_base_ns c) (sc_min_ns c) (sc_max_ns c)) (\<lambda>slice.
             Inr (slice, c\<lparr>current_slice_ns := slice\<rparr>)))"

definition read_slice_ns :: "slice_controller \<Rightarrow> u64" where
  "read_slice_ns c = current_slice_ns c"

definition record_latency :: "slice_controller \<Rightarrow> u64 \<Rightarrow> fault + slice_controller" where
  "record_latency c ns =
     (let i = unat (lat_idx c AND LAT_RING_MASK) in
        if i < length (lat_ring c)
        then Inr (c\<lparr>lat_idx := lat_idx c + 1, lat_ring := (lat_ring c)[i := ns]\<rparr>)
        else Inl Panic)"

definition lat_samples :: "slice_controller \<Rightarrow> u64 list" where
  "lat_samples c = filter (\<lambda>v. 0 < v) (lat_ring c)"

definition compute_percentiles :: "slice_controller \<Rightarrow> fault + (u64 \<times> u64 \<times> u64)" where
  "compute_percentiles c =
     (let samples = lat_samples c; n = length samples in
        if n = 0 then Inr (0, 0, 0)
        else let samples = sort samples in
          bindR (index_at samples (n div 2)) (\<lambda>p50.
          bindR (index_at samples (n * 95 div 100)) (\<lambda>p95.
          bindR (index_at samples (n * 99 div 100)) (\<lambda>p99.
            Inr (p50, p95, p99)))))"

section \<open>Slices\<close>

definition auto_base :: "u64 \<Rightarrow> u64 \<Rightarrow> u64" where
  "auto_base nr_runnable nr_cpus =
     clamp (f64_to_u64 (div64 (u64_to_f64 TARGETED_LATENCY_NS)
       (max (div64 (u64_to_f64 nr_runnable) (u64_to_f64 nr_cpus)) 1))) AUTO_SLICE_MIN_NS AUTO_SLICE_MAX_NS"

definition controller_ok :: "slice_controller \<Rightarrow> bool" where
  "controller_ok c \<longleftrightarrow> sc_min_ns c = AUTO_SLICE_MIN_NS \<and> sc_max_ns c = AUTO_SLICE_MAX_NS \<and>
     AUTO_SLICE_MIN_NS \<le> current_slice_ns c \<and> current_slice_ns c \<le> AUTO_SLICE_MAX_NS \<and>
     AUTO_SLICE_MIN_NS \<le> auto_base_ns c \<and> auto_base_ns c \<le> AUTO_SLICE_MAX_NS \<and>
     (0 < base_slice_ns c \<longrightarrow> current_slice_ns c \<le> max (base_slice_ns c) AUTO_SLICE_MIN_NS) \<and>
     length (lat_ring c) = LAT_RING_CAP"

lemma slice_limits: "AUTO_SLICE_MIN_NS \<le> AUTO_SLICE_MAX_NS"
  by (simp add: AUTO_SLICE_MIN_NS_def AUTO_SLICE_MAX_NS_def)

lemma clamp_slice: "AUTO_SLICE_MIN_NS \<le> clamp x AUTO_SLICE_MIN_NS AUTO_SLICE_MAX_NS \<and>
    clamp x AUTO_SLICE_MIN_NS AUTO_SLICE_MAX_NS \<le> AUTO_SLICE_MAX_NS"
  by (rule clamp_bounds [OF slice_limits])

lemma clamp_le_max: "lo \<le> hi \<Longrightarrow> clamp x lo hi \<le> max x lo"
  by (auto simp: clamp_def max_def)

lemma clamp_max: "lo \<le> hi \<Longrightarrow> x \<le> hi \<Longrightarrow> clamp x lo hi = max lo x"
  by (auto simp: clamp_def max_def)

lemma controller_new_ok: "controller_ok (controller_new base)"
  using clamp_slice clamp_le_max [OF slice_limits, of base]
  by (simp add: controller_ok_def controller_new_def Let_def)

lemma controller_update_eq:
  assumes "controller_ok c" and "nr_cpus \<noteq> 0"
  shows "controller_update c nr nr_cpus =
    (let slice = clamp (if 0 < base_slice_ns c then min (auto_base nr nr_cpus) (base_slice_ns c)
                        else auto_base nr nr_cpus) AUTO_SLICE_MIN_NS AUTO_SLICE_MAX_NS
     in Inr (slice, c\<lparr>auto_base_ns := auto_base nr nr_cpus, current_slice_ns := slice\<rparr>))"
  using assms slice_limits
  by (simp add: controller_update_def auto_base_def controller_ok_def effective_base_ns_def clampR_ok Let_def)

lemma controller_update_ok:
  assumes ok: "controller_ok c" and u: "controller_update c nr nr_cpus = Inr (s, c')"
  shows "controller_ok c' \<and> s = current_slice_ns c' \<and> base_slice_ns c' = base_slice_ns c"
proof (cases "nr_cpus = 0")
  case True
  then show ?thesis using assms by (auto simp: controller_update_def)
next
  case False
  let ?b = "if 0 < base_slice_ns c then min (auto_base nr nr_cpus) (base_slice_ns c) else auto_base nr nr_cpus"
  have "clamp ?b AUTO_SLICE_MIN_NS AUTO_SLICE_MAX_NS \<le> max ?b AUTO_SLICE_MIN_NS"
    by (rule clamp_le_max [OF slice_limits])
  then have "0 < base_slice_ns c \<longrightarrow>
      clamp ?b AUTO_SLICE_MIN_NS AUTO_SLICE_MAX_NS \<le> max (base_slice_ns c) AUTO_SLICE_MIN_NS"
    by (auto simp: max_def min_def split: if_splits)
  then show ?thesis
    using u ok clamp_slice [of ?b] clamp_slice
    unfolding controller_update_eq [OF ok False] Let_def
    by (auto simp: controller_ok_def auto_base_def)
qed

lemma mask_index: "unat (i AND LAT_RING_MASK) = unat i mod LAT_RING_CAP"
proof -
  have "LAT_RING_MASK = mask 11" by (simp add: LAT_RING_MASK_def LAT_RING_CAP_def mask_eq_exp_minus_1)
  then have "i AND LAT_RING_MASK = take_bit 11 i" by (simp only: take_bit_eq_mask)
  then show ?thesis
    by (simp add: LAT_RING_CAP_def take_bit_eq_mod unat_mod)
qed

lemma record_latency_eq:
  "length (lat_ring c) = LAT_RING_CAP \<Longrightarrow>
   record_latency c ns = Inr (c\<lparr>lat_idx := lat_idx c + 1,
     lat_ring := (lat_ring c)[unat (lat_idx c) mod LAT_RING_CAP := ns]\<rparr>)"
  by (simp add: record_latency_def mask_index LAT_RING_CAP_def Let_def)

section \<open>Runs of the controller\<close>

datatype controller_op = Update u64 u64 | Record u64

fun controller_step :: "controller_op \<Rightarrow> slice_controller \<Rightarrow> fault + slice_controller" where
  "controller_step (Update nr cpus) c = bindR (controller_update c nr cpus) (\<lambda>(_, c). Inr c)"
| "controller_step (Record ns) c = record_latency c ns"

fun controller_run :: "controller_op list \<Rightarrow> slice_controller \<Rightarrow> fault + slice_controller" where
  "controller_run [] c = Inr c"
| "controller_run (op # ops) c = bindR (controller_step op c) (controller_run ops)"

lemma controller_step_ok:
  assumes ok: "controller_ok c"
  shows "\<exists>c'. controller_step op c = Inr c' \<and> controller_ok c' \<and> base_slice_ns c' = base_slice_ns c"
proof (cases op)
  case (Update nr cpus)
  have "\<exists>s c'. controller_update c nr cpus = Inr (s, c')"
    using controller_update_eq [OF ok, of cpus nr] by (cases "cpus = 0") (auto simp: controller_update_def Let_def)
  then show ?thesis using Update controller_update_ok [OF ok] by fastforce
next
  case (Record ns)
  then show ?thesis using ok record_latency_eq [of c ns] by (simp add: controller_ok_def)
qed

lemma controller_run_ok:
  "controller_ok c \<Longrightarrow>
     \<exists>c'. controller_run ops c = Inr c' \<and> controller_ok c' \<and> base_slice_ns c' = base_slice_ns c"
proof (induction ops arbitrary: c)
  case (Cons op ops)
  from controller_step_ok [OF Cons.prems, of op] Cons.IH show ?case by fastforce
qed simp

section \<open>The slice as a function of the load\<close>

lemma auto_base_antimono:
  assumes "nr \<le> nr'" shows "auto_base nr' cpus \<le> auto_base nr cpus"
proof -
  let ?t = "\<lambda>n. max (div64 (u64_to_f64 n) (u64_to_f64 cpus)) 1"
  have "?t nr \<le> ?t nr'"
    unfolding div64_def
    by (intro max.mono f64.mono divide_right_mono u64_to_f64_mono u64_to_f64_nonneg order_refl assms)
  moreover have "1 \<le> ?t nr" by simp
  ultimately have "div64 (u64_to_f64 TARGETED_LATENCY_NS) (?t nr') \<le> div64 (u64_to_f64 TARGETED_LATENCY_NS) (?t nr)"
    unfolding div64_def [of "u64_to_f64 TARGETED_LATENCY_NS"]
    by (intro f64.mono divide_left_mono u64_to_f64_nonneg mult_pos_pos) linarith+
  then show ?thesis
    unfolding auto_base_def by (intro clamp_mono f64_to_u64_mono slice_limits)
qed

text \<open>With \<open>k\<close> runnable tasks per CPU, rounding does not change the integer quotient.\<close>

lemma quotient_rounds_down:
  fixes q k :: nat
  assumes k: "0 < k" "k \<le> 24" and n: "n < 2 ^ 40"
  shows "\<lfloor>rnd64 (of_nat n / of_nat k)\<rfloor> = int (n div k)"
proof -
  let ?q = "n div k"
  have q: "n = k * ?q + n mod k" "n mod k < k" using k by simp_all
  have small: "?q < 2 ^ 40" using n div_le_dividend [of n k] by linarith
  have "of_nat (k * a + b) / of_nat k = (of_nat a + of_nat b / of_nat k :: rat)" for a b
    using k by (simp add: field_simps)
  from this [of ?q "n mod k"] have x: "of_nat n / of_nat k = (of_nat ?q + of_nat (n mod k) / of_nat k :: rat)"
    by (simp only: mult_div_mod_eq)
  have "of_nat (n mod k) / of_nat k \<le> (31 / 32 :: rat)"
  proof -
    have "n mod k * 32 \<le> 31 * k" using q(2) k by linarith
    then have "of_nat (n mod k * 32) \<le> (of_nat (31 * k) :: rat)" by (simp only: of_nat_le_iff)
    then show ?thesis using k by (simp add: field_simps)
  qed
  then have "of_nat n / of_nat k \<le> (of_int (32 * int ?q + 31) / 32 :: rat)"
    using x by (simp add: field_simps)
  moreover have "rnd64 (of_int (32 * int ?q + 31) / 32) = of_int (32 * int ?q + 31) / 32"
    unfolding rnd64_def
    by (rule rnd_exact [of _ "32 * int ?q + 31" "- 5"]) (use small in \<open>simp_all add: pow2_def\<close>)
  ultimately have "rnd64 (of_nat n / of_nat k) \<le> of_int (32 * int ?q + 31) / 32"
    using f64.mono by metis
  then have up: "rnd64 (of_nat n / of_nat k) < of_nat ?q + 1" by (simp add: field_simps)
  have "(of_nat ?q :: rat) \<le> of_nat n / of_nat k" using x k by simp
  then have "rnd64 (of_nat ?q) \<le> rnd64 (of_nat n / of_nat k)" by (rule f64.mono)
  then have "of_nat ?q \<le> rnd64 (of_nat n / of_nat k)" using rnd64_nat [of ?q] small by simp
  with up show ?thesis by (intro floor_unique) simp_all
qed

lemma auto_base_formula:
  assumes k: "0 < k" and cpus: "0 < unat cpus" and nr: "unat nr = k * unat cpus" "unat nr < 2 ^ 53"
  shows "unat (auto_base nr cpus) = clamp (6000000 div k) 250000 8000000"
proof -
  have le: "k \<le> unat nr" "unat cpus \<le> unat nr" using nr(1) k cpus by simp_all
  have "u64_to_f64 nr / u64_to_f64 cpus = of_nat (unat nr) / of_nat (unat cpus)"
    using le nr(2) by (simp only: u64_to_f64_def rnd64_nat le_less_trans)
  also have "\<dots> = of_nat k" using cpus unfolding nr(1) by (simp del: of_nat_unat)
  finally have tpc: "max (div64 (u64_to_f64 nr) (u64_to_f64 cpus)) 1 = of_nat k"
    using rnd64_nat [of k] le(1) nr(2) k by (simp add: div64_def max_def)
  have lat: "u64_to_f64 TARGETED_LATENCY_NS = of_nat 6000000"
    using rnd64_nat [of 6000000] by (simp add: u64_to_f64_def TARGETED_LATENCY_NS_def)
  let ?x = "rnd64 (of_nat 6000000 / of_nat k)"
  have "(0 :: rat) \<le> ?x" by (intro f64.nonneg) simp
  then have pos: "unat (f64_to_u64 ?x) = nat \<lfloor>?x\<rfloor>" if "?x < 2 ^ 64"
    using that by (auto simp: unat_f64_to_u64)
  have "clamp (unat (f64_to_u64 ?x)) 250000 8000000 = clamp (6000000 div k) 250000 8000000"
  proof (cases "k \<le> 24")
    case True
    have fl: "\<lfloor>?x\<rfloor> = int (6000000 div k)" by (rule quotient_rounds_down [OF k True]) simp
    have "6000000 div k < 2 ^ 64" by (rule le_less_trans [of _ 6000000]) simp_all
    then have "int (6000000 div k) < int (2 ^ 64)" by (simp only: of_nat_less_iff)
    then have "\<lfloor>?x\<rfloor> < 2 ^ 64" using fl by simp
    then have "?x < 2 ^ 64" by (simp add: floor_less_iff)
    then show ?thesis using pos fl by simp
  next
    case False
    have "(of_nat 6000000 / of_nat k :: rat) \<le> of_nat 250000" using False by (simp add: field_simps)
    then have x: "?x \<le> of_nat 250000" using f64.mono rnd64_nat [of 250000] by fastforce
    then have "nat \<lfloor>?x\<rfloor> \<le> 250000" by (simp add: floor_le_iff nat_le_iff)
    moreover have "6000000 div k \<le> 250000" using False div_le_mono2 [of 24 k 6000000] by simp
    ultimately show ?thesis using pos x by (simp add: clamp_def)
  qed
  then show ?thesis
    unfolding auto_base_def tpc lat
    by (simp add: div64_def unat_clamp AUTO_SLICE_MIN_NS_def AUTO_SLICE_MAX_NS_def)
qed

lemma controller_new_ring: "length (lat_ring (controller_new base)) = 2048" "lat_idx (controller_new base) = 0"
  by (simp_all add: controller_new_def Let_def LAT_RING_CAP_def)

section \<open>The latency ring and its percentiles\<close>

lemma controller_run_append:
  "controller_run (a @ b) = (\<lambda>c. bindR (controller_run a c) (controller_run b))"
  by (induction a) (rule ext, simp add: bindR_assoc)+

lemma ring_after_records:
  assumes "length (lat_ring c) = LAT_RING_CAP" and "lat_idx c = 0"
  shows "\<exists>c'. controller_run (map Record xs) c = Inr c' \<and> length (lat_ring c') = LAT_RING_CAP \<and>
    lat_idx c' = of_nat (length xs) \<and>
    (\<forall>j < length xs. length xs \<le> j + LAT_RING_CAP \<longrightarrow> lat_ring c' ! (j mod LAT_RING_CAP) = xs ! j)"
proof (induction xs rule: rev_induct)
  case Nil
  then show ?case using assms by simp
next
  case (snoc x xs)
  let ?n = "length xs"
  from snoc obtain c' where c': "controller_run (map Record xs) c = Inr c'"
    "length (lat_ring c') = LAT_RING_CAP" "lat_idx c' = of_nat ?n"
    "\<And>j. j < ?n \<Longrightarrow> ?n \<le> j + LAT_RING_CAP \<Longrightarrow> lat_ring c' ! (j mod LAT_RING_CAP) = xs ! j" by auto
  have pos: "0 < LAT_RING_CAP" by (simp add: LAT_RING_CAP_def)
  have "unat (of_nat ?n :: u64) mod LAT_RING_CAP = ?n mod LAT_RING_CAP"
    by (simp add: unsigned_of_nat take_bit_eq_mod LAT_RING_CAP_def mod_mod_cancel)
  then have rec: "record_latency c' x = Inr (c'\<lparr>lat_idx := of_nat ?n + 1,
      lat_ring := (lat_ring c')[?n mod LAT_RING_CAP := x]\<rparr>)"
    using record_latency_eq [OF c'(2)] c'(3) by simp
  have old: "(lat_ring c')[?n mod LAT_RING_CAP := x] ! (j mod LAT_RING_CAP) = xs ! j"
    if j: "j < ?n" "Suc ?n \<le> j + LAT_RING_CAP" for j
  proof -
    have "j mod LAT_RING_CAP \<noteq> ?n mod LAT_RING_CAP"
      using mod_shift_inj [of 0 LAT_RING_CAP "?n - j" j] j by fastforce
    then show ?thesis using c'(4) [of j] j by simp
  qed
  show ?case
    using rec c'(1,2) old pos by (auto simp: controller_run_append nth_append less_Suc_eq algebra_simps)
qed

text \<open>Where a value of a sorted list stands.\<close>

lemma sorted_nth_rank:
  assumes "sorted xs" and "i < length xs"
  shows "length (filter (\<lambda>v. xs ! i < v) xs) \<le> length xs - Suc i \<and> length (filter (\<lambda>v. v < xs ! i) xs) \<le> i"
proof -
  have split: "xs = take i xs @ xs ! i # drop (Suc i) xs" using assms(2) by (simp add: id_take_nth_drop [symmetric])
  have lo: "\<forall>v \<in> set (take i xs). \<not> xs ! i < v" and hi: "\<forall>v \<in> set (drop (Suc i) xs). \<not> v < xs ! i"
    using assms by (auto simp: in_set_conv_nth not_less intro!: sorted_nth_mono)
  have "filter (\<lambda>v. xs ! i < v) xs = filter (\<lambda>v. xs ! i < v) (drop (Suc i) xs)"
    using lo by (subst split) (simp del: append_take_drop_id)
  moreover have "filter (\<lambda>v. v < xs ! i) xs = filter (\<lambda>v. v < xs ! i) (take i xs)"
    using hi by (subst split) (simp del: append_take_drop_id)
  ultimately show ?thesis
    using length_filter_le [of "\<lambda>v. xs ! i < v" "drop (Suc i) xs"]
      length_filter_le [of "\<lambda>v. v < xs ! i" "take i xs"] by simp
qed

lemma filter_sort_length: "length (filter P (sort xs)) = length (filter P xs)"
  by (metis mset_filter mset_sort size_mset)

section \<open>Properties\<close>

text \<open>
  C26. No sequence of load updates and latency records makes the controller panic, and the slice it
  reports stays between 250 us and 8 ms and below a configured ceiling of at least 250 us.
\<close>

theorem slice_controller_bounds:
  "\<exists>c. controller_run ops (controller_new base) = Inr c \<and>
     250000 \<le> unat (read_slice_ns c) \<and> unat (read_slice_ns c) \<le> 8000000 \<and>
     (250000 \<le> unat base \<longrightarrow> read_slice_ns c \<le> base)"
proof -
  from controller_run_ok [OF controller_new_ok, of ops base]
  obtain c where c: "controller_run ops (controller_new base) = Inr c" "controller_ok c"
    "base_slice_ns c = base" by (auto simp: controller_new_def Let_def)
  have "read_slice_ns c \<le> base" if "250000 \<le> unat base"
  proof -
    have "AUTO_SLICE_MIN_NS \<le> base" "0 < base"
      using that by (simp_all add: AUTO_SLICE_MIN_NS_def word_le_nat_alt word_less_nat_alt)
    then show ?thesis using c by (simp add: controller_ok_def read_slice_ns_def max_def)
  qed
  then show ?thesis
    using c by (simp add: controller_ok_def read_slice_ns_def word_le_nat_alt AUTO_SLICE_MIN_NS_def
        AUTO_SLICE_MAX_NS_def)
qed

theorem slice_controller_bounds_witness:
  "\<exists>c. controller_run [Update 80 8, Record 900] (controller_new 2000000) = Inr c \<and> read_slice_ns c \<le> 2000000"
  using slice_controller_bounds [of "[Update 80 8, Record 900]" 2000000] by auto

text \<open>
  With \<open>k\<close> runnable tasks per CPU the slice is the CPU's share of the 6 ms target, cut to the
  configured ceiling and never below 250 us. The floating-point computation does not disturb the
  integer quotient.
\<close>

theorem slice_is_latency_share:
  assumes "controller_ok c" and "0 < k" and "0 < unat cpus" and "unat nr = k * unat cpus" and "unat nr < 2 ^ 53"
  shows "\<exists>s c'. controller_update c nr cpus = Inr (s, c') \<and> read_slice_ns c' = s \<and>
    unat s = max 250000 (if base_slice_ns c = 0 then 6000000 div k else min (6000000 div k) (unat (base_slice_ns c)))"
proof -
  have nz: "cpus \<noteq> 0" using assms(3) by auto
  let ?b = "unat (base_slice_ns c)"
  have q: "6000000 div k \<le> 8000000" using div_le_dividend [of 6000000 k] by linarith
  have auto: "unat (auto_base nr cpus) = max 250000 (6000000 div k)"
    using auto_base_formula [OF assms(2,3,4,5)] clamp_max [OF _ q] by simp
  define x where "x = (if ?b = 0 then unat (auto_base nr cpus) else min (unat (auto_base nr cpus)) ?b)"
  have "x \<le> 8000000" using q by (auto simp: x_def auto)
  then have "clamp x 250000 8000000 = max 250000 x" by (rule clamp_max [rotated]) simp
  also have "\<dots> = max 250000 (if ?b = 0 then 6000000 div k else min (6000000 div k) ?b)"
    by (auto simp: x_def auto max_def min_def)
  finally show ?thesis
    by (auto simp: controller_update_eq [OF assms(1) nz] Let_def read_slice_ns_def unat_clamp unat_min_word
        x_def AUTO_SLICE_MIN_NS_def AUTO_SLICE_MAX_NS_def unat_eq_0 word_neq_0_conv split: if_splits)
qed

theorem slice_is_latency_share_witness:
  "\<exists>s c'. controller_update (controller_new 2000000) 80 8 = Inr (s, c') \<and> unat s = 600000"
  using slice_is_latency_share [OF controller_new_ok, of 10 8 80 2000000]
  by (auto simp: controller_new_def Let_def)

text \<open>
  More load never gives longer slices: on the same controller state, the slice is antitone in
  the number of runnable tasks.
\<close>

theorem slice_antitone_in_load:
  assumes "controller_ok c" and "nr \<le> nr'"
  shows "\<exists>s s' c1 c2. controller_update c nr cpus = Inr (s, c1) \<and> controller_update c nr' cpus = Inr (s', c2) \<and> s' \<le> s"
proof (cases "cpus = 0")
  case True
  then show ?thesis by (simp add: controller_update_def)
next
  case False
  show ?thesis
    using auto_base_antimono [OF assms(2), of cpus]
    by (auto simp: controller_update_eq [OF assms(1) False] Let_def intro!: clamp_mono slice_limits min.mono)
qed

theorem slice_antitone_in_load_witness:
  "\<exists>s s' c1 c2. controller_update (controller_new 0) 8 8 = Inr (s, c1) \<and>
     controller_update (controller_new 0) 64 8 = Inr (s', c2) \<and> s' \<le> s"
  using slice_antitone_in_load [OF controller_new_ok, of 8 64 0 8] by simp

text \<open>
  A configured ceiling below 250 us is not respected: the slice is then exactly 250 us.
\<close>

theorem slice_ceiling_below_floor:
  assumes "controller_ok c" and "0 < base_slice_ns c" and "base_slice_ns c < 250000" and "cpus \<noteq> 0"
  shows "\<exists>s c'. controller_update c nr cpus = Inr (s, c') \<and> s = 250000 \<and> base_slice_ns c < s"
  using assms clamp_slice [of "f64_to_u64 x" for x]
  by (auto simp: controller_update_eq [OF assms(1,4)] Let_def clamp_def AUTO_SLICE_MIN_NS_def min_def)

theorem slice_ceiling_below_floor_witness:
  "\<exists>s c'. controller_update (controller_new 100000) 8 8 = Inr (s, c') \<and> s = 250000"
  using slice_ceiling_below_floor [OF controller_new_ok, of 100000 8 8]
  by (auto simp: controller_new_def Let_def)

text \<open>
  The percentiles never panic, are ordered, are recorded samples (0 when there is none), and have
  the ranks their names say: at most half of the samples are below p50, at most 95% below p95, at
  most 99% below p99, and the samples above them are the remaining ones.
\<close>

theorem latency_percentiles:
  "\<exists>p50 p95 p99. compute_percentiles c = Inr (p50, p95, p99) \<and> p50 \<le> p95 \<and> p95 \<le> p99 \<and>
     (let xs = lat_samples c; n = length xs in
        if n = 0 then p99 = 0
        else {p50, p95, p99} \<subseteq> set xs \<and>
          (\<forall>(p, i) \<in> {(p50, n div 2), (p95, n * 95 div 100), (p99, n * 99 div 100)}.
             length (filter (\<lambda>v. v < p) xs) \<le> i \<and> length (filter (\<lambda>v. p < v) xs) \<le> n - Suc i))"
proof (cases "lat_samples c = []")
  case True
  then show ?thesis by (simp add: compute_percentiles_def)
next
  case False
  let ?xs = "lat_samples c" let ?n = "length (lat_samples c)" let ?s = "sort (lat_samples c)"
  have n: "?n div 2 < ?n" "?n * 95 div 100 < ?n" "?n * 99 div 100 < ?n" "?n div 2 \<le> ?n * 95 div 100"
    "?n * 95 div 100 \<le> ?n * 99 div 100" using False by (auto simp: less_mult_imp_div_less div_le_mono)
  have rank: "length (filter (\<lambda>v. v < ?s ! i) ?xs) \<le> i \<and> length (filter (\<lambda>v. ?s ! i < v) ?xs) \<le> ?n - Suc i \<and>
      ?s ! i \<in> set ?xs" if "i < ?n" for i
    using sorted_nth_rank [of ?s i] that nth_mem [of i ?s] filter_sort_length [of _ ?xs] by simp
  have "compute_percentiles c = Inr (?s ! (?n div 2), ?s ! (?n * 95 div 100), ?s ! (?n * 99 div 100))"
    using False n(1-3) by (simp add: compute_percentiles_def index_at_ok Let_def)
  then show ?thesis
    using False rank [OF n(1)] rank [OF n(2)] rank [OF n(3)] n sorted_nth_mono [of ?s] by (simp add: Let_def)
qed

theorem latency_percentiles_witness:
  "\<exists>c p50 p95 p99. controller_run [Record 7] (controller_new 0) = Inr c \<and>
     compute_percentiles c = Inr (p50, p95, p99) \<and> p50 \<le> p99"
  using latency_percentiles controller_run_ok [OF controller_new_ok, of "[Record 7]" 0]
  by (meson order_trans)

text \<open>
  The ring holds the last 2048 latencies: after recording \<open>xs\<close>, each of its last 2048 values is in
  the ring, at its index modulo 2048.
\<close>

theorem latency_ring_window:
  "\<exists>c. controller_run (map Record xs) (controller_new base) = Inr c \<and> length (lat_ring c) = 2048 \<and>
     (\<forall>j < length xs. length xs \<le> j + 2048 \<longrightarrow> lat_ring c ! (j mod 2048) = xs ! j)"
  using ring_after_records [of "controller_new base" xs, unfolded LAT_RING_CAP_def] controller_new_ring by blast

theorem latency_ring_window_witness:
  "\<exists>c. controller_run (map Record [5, 9]) (controller_new 0) = Inr c \<and> lat_ring c ! 1 = 9"
  using latency_ring_window [of "[5, 9]" 0] by force

end
