(* ===== verification/Bpf_Messages.thy ===== *)
theory Bpf_Messages
  imports Cognis_Prelude
begin

text \<open>
  The messages of \<open>src/bpf.rs\<close> that cross between the kernel and the scheduler, with the byte layout
  of \<open>src/bpf/intf.h\<close>: \<open>queued_task_ctx\<close> (88 bytes), \<open>task_exits\<close> (4 bytes) and
  \<open>dispatched_task_ctx\<close> (40 bytes), in the little-endian order of the hosts the program runs on. The
  decoders are the functions of the source; the encoders state the layout the other side uses.
\<close>

section \<open>Messages\<close>

definition EINVAL :: i32 where "EINVAL = 22"
definition TASK_COMM_LEN :: nat where "TASK_COMM_LEN = 16"
definition RL_CPU_ANY :: i32 where "RL_CPU_ANY = 1048576"
definition QUEUED_TASK_CTX_SIZE :: nat where "QUEUED_TASK_CTX_SIZE = 88"
definition DISPATCHED_TASK_CTX_SIZE :: nat where "DISPATCHED_TASK_CTX_SIZE = 40"

record queued_task =
  qt_pid :: i32
  qt_cpu :: i32
  nr_cpus_allowed :: u64
  qt_flags :: u64
  start_ts :: u64
  stop_ts :: u64
  exec_runtime :: u64
  qt_weight :: u64
  qt_vtime :: u64
  qt_enq_cnt :: u64
  qt_comm :: "u8 list"

record dispatched_task =
  dt_pid :: i32
  dt_cpu :: i32
  dt_flags :: u64
  dt_slice_ns :: u64
  dt_vtime :: u64
  dt_enq_cnt :: u64

definition dispatched_new :: "queued_task \<Rightarrow> dispatched_task" where
  "dispatched_new t = \<lparr>dt_pid = qt_pid t, dt_cpu = qt_cpu t, dt_flags = qt_flags t, dt_slice_ns = 0,
     dt_vtime = 0, dt_enq_cnt = qt_enq_cnt t\<rparr>"

section \<open>Reading memory\<close>

fun le_val :: "u8 list \<Rightarrow> nat" where
  "le_val [] = 0"
| "le_val (b # bs) = unat b + 256 * le_val bs"

definition read_u32 :: "u8 list \<Rightarrow> nat \<Rightarrow> 32 word" where
  "read_u32 data off = of_nat (le_val (take 4 (drop off data)))"

definition read_u64 :: "u8 list \<Rightarrow> nat \<Rightarrow> u64" where
  "read_u64 data off = of_nat (le_val (take 8 (drop off data)))"

definition decode_queued_task :: "u8 list \<Rightarrow> i32 + queued_task" where
  "decode_queued_task data =
     (if length data \<noteq> QUEUED_TASK_CTX_SIZE then Inl (- EINVAL)
      else Inr \<lparr>qt_pid = read_u32 data 0, qt_cpu = read_u32 data 4, nr_cpus_allowed = read_u64 data 8,
        qt_flags = read_u64 data 16, start_ts = read_u64 data 24, stop_ts = read_u64 data 32,
        exec_runtime = read_u64 data 40, qt_weight = read_u64 data 48, qt_vtime = read_u64 data 56,
        qt_enq_cnt = read_u64 data 64, qt_comm = take TASK_COMM_LEN (drop 72 data)\<rparr>)"

definition decode_exited_pid :: "u8 list \<Rightarrow> i32 + i32" where
  "decode_exited_pid data = (if length data \<noteq> 4 then Inl (- EINVAL) else Inr (read_u32 data 0))"

section \<open>Writing memory\<close>

fun le_bytes :: "nat \<Rightarrow> nat \<Rightarrow> u8 list" where
  "le_bytes 0 n = []"
| "le_bytes (Suc k) n = of_nat n # le_bytes k (n div 256)"

definition write_u32 :: "32 word \<Rightarrow> u8 list" where "write_u32 w = le_bytes 4 (unat w)"
definition write_u64 :: "u64 \<Rightarrow> u8 list" where "write_u64 w = le_bytes 8 (unat w)"

text \<open>What \<open>dispatch_task\<close> leaves in the reserved slot of the user ring buffer.\<close>

definition dispatched_ctx :: "dispatched_task \<Rightarrow> u8 list" where
  "dispatched_ctx d = write_u32 (dt_pid d) @ write_u32 (dt_cpu d) @ write_u64 (dt_flags d) @
     write_u64 (dt_slice_ns d) @ write_u64 (dt_vtime d) @ write_u64 (dt_enq_cnt d)"

text \<open>The layout the BPF side writes queued tasks in and reads dispatched tasks with.\<close>

definition queued_ctx :: "queued_task \<Rightarrow> u8 list" where
  "queued_ctx t = write_u32 (qt_pid t) @ write_u32 (qt_cpu t) @ write_u64 (nr_cpus_allowed t) @
     write_u64 (qt_flags t) @ write_u64 (start_ts t) @ write_u64 (stop_ts t) @ write_u64 (exec_runtime t) @
     write_u64 (qt_weight t) @ write_u64 (qt_vtime t) @ write_u64 (qt_enq_cnt t) @ qt_comm t"

definition read_dispatched_ctx :: "u8 list \<Rightarrow> dispatched_task" where
  "read_dispatched_ctx data = \<lparr>dt_pid = read_u32 data 0, dt_cpu = read_u32 data 4, dt_flags = read_u64 data 8,
     dt_slice_ns = read_u64 data 16, dt_vtime = read_u64 data 24, dt_enq_cnt = read_u64 data 32\<rparr>"

section \<open>Round trips\<close>

lemma length_le_bytes [simp]: "length (le_bytes k n) = k"
  by (induction k arbitrary: n) auto

lemma length_write [simp]: "length (write_u32 w) = 4" "length (write_u64 v) = 8"
  by (simp_all add: write_u32_def write_u64_def)

lemma le_val_le_bytes: "le_val (le_bytes k n) = n mod 256 ^ k"
proof (induction k arbitrary: n)
  case (Suc k)
  have "n mod 256 + 256 * (n div 256 mod 256 ^ k) = n mod 256 ^ Suc k"
    by (simp add: mod_mult2_eq)
  then show ?case by (simp add: Suc unsigned_of_nat take_bit_eq_mod)
qed simp

lemma le_val_bound: "le_val bs < 256 ^ length bs"
proof (induction bs)
  case (Cons b bs)
  have "unat b < 256" using unsigned_less [of b] by simp
  with Cons show ?case by simp
qed simp

lemma le_bytes_le_val: "le_bytes (length bs) (le_val bs) = bs"
proof (induction bs)
  case (Cons b bs)
  have "unat b < 256" using unsigned_less [of b] by simp
  then have "(unat b + 256 * le_val bs) div 256 = le_val bs" by simp
  moreover have "of_nat (unat b + 256 * le_val bs) = b"
  proof -
    have "(of_nat 256 :: u8) = 0" and "of_nat (unat b) = b" by simp_all
    then show ?thesis by (simp only: of_nat_add of_nat_mult mult_zero_left add_0_right)
  qed
  ultimately show ?case using Cons by simp
qed simp

lemma unat_mod_size: "unat (w :: 32 word) mod 4294967296 = unat w" "unat (v :: u64) mod 18446744073709551616 = unat v"
  using unsigned_less [of w, where 'a = nat] unsigned_less [of v, where 'a = nat] by simp_all

lemma read_write_u32: "read_u32 (xs @ write_u32 w @ ys) (length xs) = w"
  by (simp add: read_u32_def write_u32_def le_val_le_bytes unat_mod_size)

lemma read_write_u64: "read_u64 (xs @ write_u64 w @ ys) (length xs) = w"
  by (simp add: read_u64_def write_u64_def le_val_le_bytes unat_mod_size)

lemma write_read_u32: "off + 4 \<le> length data \<Longrightarrow> write_u32 (read_u32 data off) = take 4 (drop off data)"
  using le_val_bound [of "take 4 (drop off data)"] le_bytes_le_val [of "take 4 (drop off data)"]
  by (simp add: write_u32_def read_u32_def unsigned_of_nat take_bit_eq_mod)

lemma write_read_u64: "off + 8 \<le> length data \<Longrightarrow> write_u64 (read_u64 data off) = take 8 (drop off data)"
  using le_val_bound [of "take 8 (drop off data)"] le_bytes_le_val [of "take 8 (drop off data)"]
  by (simp add: write_u64_def read_u64_def unsigned_of_nat take_bit_eq_mod)

lemma take_drop_rest: "take a (drop i xs) @ drop (i + a) xs = drop i xs"
  by (metis add.commute append_take_drop_id drop_drop)

lemma write_read_all:
  assumes "length data = 88"
  shows "write_u32 (read_u32 data 0) @ write_u32 (read_u32 data 4) @ write_u64 (read_u64 data 8) @
    write_u64 (read_u64 data 16) @ write_u64 (read_u64 data 24) @ write_u64 (read_u64 data 32) @
    write_u64 (read_u64 data 40) @ write_u64 (read_u64 data 48) @ write_u64 (read_u64 data 56) @
    write_u64 (read_u64 data 64) @ take 16 (drop 72 data) = data"
proof -
  note seg = take_drop_rest [of _ _ data]
  have "take 16 (drop 72 data) = drop 72 data" using assms by simp
  then show ?thesis
    using assms seg [of 8 64] seg [of 8 56] seg [of 8 48] seg [of 8 40] seg [of 8 32] seg [of 8 24]
      seg [of 8 16] seg [of 8 8] seg [of 4 4] seg [of 4 0]
    by (simp add: write_read_u32 write_read_u64)
qed

lemma read_u32_at: "data = xs @ write_u32 w @ ys \<Longrightarrow> length xs = off \<Longrightarrow> read_u32 data off = w"
  using read_write_u32 by blast

lemma read_u64_at: "data = xs @ write_u64 w @ ys \<Longrightarrow> length xs = off \<Longrightarrow> read_u64 data off = w"
  using read_write_u64 by blast

lemma dispatched_ctx_read:
  "length (dispatched_ctx d) = DISPATCHED_TASK_CTX_SIZE \<and> read_dispatched_ctx (dispatched_ctx d) = d"
proof -
  let ?c = "dispatched_ctx d"
  let ?h = "write_u32 (dt_pid d) @ write_u32 (dt_cpu d)"
  have "read_u32 ?c 0 = dt_pid d" by (rule read_u32_at [of _ "[]"]) (simp_all add: dispatched_ctx_def)
  moreover have "read_u32 ?c 4 = dt_cpu d"
    by (rule read_u32_at [of _ "write_u32 (dt_pid d)"]) (simp_all add: dispatched_ctx_def)
  moreover have "read_u64 ?c 8 = dt_flags d"
    by (rule read_u64_at [of _ ?h]) (simp_all add: dispatched_ctx_def)
  moreover have "read_u64 ?c 16 = dt_slice_ns d"
    by (rule read_u64_at [of _ "?h @ write_u64 (dt_flags d)"]) (simp_all add: dispatched_ctx_def)
  moreover have "read_u64 ?c 24 = dt_vtime d"
    by (rule read_u64_at [of _ "?h @ write_u64 (dt_flags d) @ write_u64 (dt_slice_ns d)"])
      (simp_all add: dispatched_ctx_def)
  moreover have "read_u64 ?c 32 = dt_enq_cnt d"
    by (rule read_u64_at [of _ "?h @ write_u64 (dt_flags d) @ write_u64 (dt_slice_ns d) @ write_u64 (dt_vtime d)" _ "[]"])
      (simp_all add: dispatched_ctx_def)
  ultimately show ?thesis
    by (simp add: read_dispatched_ctx_def dispatched_ctx_def DISPATCHED_TASK_CTX_SIZE_def)
qed

section \<open>Properties\<close>

text \<open>
  Decoding reads back what the BPF side wrote: a queued-task context in the layout of \<open>intf.h\<close>,
  with its 16-byte comm, decodes to the task it was written from.
\<close>

theorem decode_queued_task_roundtrip:
  assumes "length (qt_comm t) = TASK_COMM_LEN"
  shows "decode_queued_task (queued_ctx t) = Inr t"
proof -
  let ?d = "queued_ctx t"
  have len: "length ?d = QUEUED_TASK_CTX_SIZE"
    using assms by (simp add: queued_ctx_def QUEUED_TASK_CTX_SIZE_def TASK_COMM_LEN_def)
  have "read_u32 ?d 0 = qt_pid t" by (rule read_u32_at [of _ "[]"]) (simp_all add: queued_ctx_def)
  moreover have "read_u32 ?d 4 = qt_cpu t"
    by (rule read_u32_at [of _ "write_u32 (qt_pid t)"]) (simp_all add: queued_ctx_def)
  moreover have "read_u64 ?d 8 = nr_cpus_allowed t"
    by (rule read_u64_at [of _ "write_u32 (qt_pid t) @ write_u32 (qt_cpu t)"]) (simp_all add: queued_ctx_def)
  moreover have "read_u64 ?d (8 + 8 * length vs) = v"
    if "?d = write_u32 (qt_pid t) @ write_u32 (qt_cpu t) @ concat (map write_u64 vs) @ write_u64 v @ rest" for vs v rest
  proof (rule read_u64_at [of _ "write_u32 (qt_pid t) @ write_u32 (qt_cpu t) @ concat (map write_u64 vs)"])
    show "length (write_u32 (qt_pid t) @ write_u32 (qt_cpu t) @ concat (map write_u64 vs)) = 8 + 8 * length vs"
      by (induction vs) auto
  qed (simp add: that)
  note field = this [unfolded queued_ctx_def]
  have "read_u64 ?d 16 = qt_flags t" "read_u64 ?d 24 = start_ts t" "read_u64 ?d 32 = stop_ts t"
    "read_u64 ?d 40 = exec_runtime t" "read_u64 ?d 48 = qt_weight t" "read_u64 ?d 56 = qt_vtime t"
    "read_u64 ?d 64 = qt_enq_cnt t"
    using field [of "[nr_cpus_allowed t]"]
      field [of "[nr_cpus_allowed t, qt_flags t]"] field [of "[nr_cpus_allowed t, qt_flags t, start_ts t]"]
      field [of "[nr_cpus_allowed t, qt_flags t, start_ts t, stop_ts t]"]
      field [of "[nr_cpus_allowed t, qt_flags t, start_ts t, stop_ts t, exec_runtime t]"]
      field [of "[nr_cpus_allowed t, qt_flags t, start_ts t, stop_ts t, exec_runtime t, qt_weight t]"]
      field [of "[nr_cpus_allowed t, qt_flags t, start_ts t, stop_ts t, exec_runtime t, qt_weight t, qt_vtime t]"]
    by (simp_all add: queued_ctx_def)
  moreover have "take TASK_COMM_LEN (drop 72 ?d) = qt_comm t"
    using assms by (simp add: queued_ctx_def TASK_COMM_LEN_def)
  ultimately show ?thesis using len by (simp add: decode_queued_task_def)
qed

definition sample_task :: queued_task where
  "sample_task = \<lparr>qt_pid = 42, qt_cpu = 3, nr_cpus_allowed = 8, qt_flags = 1, start_ts = 1000, stop_ts = 901000,
     exec_runtime = 900000, qt_weight = 100, qt_vtime = 0, qt_enq_cnt = 7, qt_comm = replicate 16 0\<rparr>"

theorem decode_queued_task_roundtrip_witness: "decode_queued_task (queued_ctx sample_task) = Inr sample_task"
  by (rule decode_queued_task_roundtrip) (simp add: sample_task_def TASK_COMM_LEN_def)

text \<open>
  C33. The decoders reject exactly the messages of the wrong length, with \<open>-EINVAL\<close>, and lose nothing:
  two accepted messages that decode alike are the same bytes.
\<close>

theorem decode_total_and_injective:
  "(decode_queued_task d = Inl (- EINVAL) \<longleftrightarrow> length d \<noteq> 88) \<and>
   (length d = 88 \<longrightarrow> (\<exists>t. decode_queued_task d = Inr t \<and> queued_ctx t = d)) \<and>
   (decode_exited_pid e = Inl (- EINVAL) \<longleftrightarrow> length e \<noteq> 4) \<and>
   (length e = 4 \<longrightarrow> (\<exists>p. decode_exited_pid e = Inr p \<and> write_u32 p = e))"
  using write_read_all [of d] write_read_u32 [of 0 e]
  by (auto simp: decode_queued_task_def decode_exited_pid_def QUEUED_TASK_CTX_SIZE_def queued_ctx_def
      TASK_COMM_LEN_def)

theorem decode_total_and_injective_witness: "\<exists>t. decode_queued_task (replicate 88 1) = Inr t \<and> queued_ctx t = replicate 88 1"
  using decode_total_and_injective [of "replicate 88 1" "[]"] by simp

text \<open>
  The bytes \<open>dispatch_task\<close> leaves in the user ring buffer are a full 40-byte context from which
  the BPF side reads the dispatched task back.
\<close>

theorem dispatched_ctx_roundtrip:
  "length (dispatched_ctx d) = DISPATCHED_TASK_CTX_SIZE \<and> read_dispatched_ctx (dispatched_ctx d) = d"
  using dispatched_ctx_read by blast

end
