(* ===== verification/Classifier.thy ===== *)
theory Classifier
  imports Bpf_Messages Ieee_Float
begin

text \<open>
  \<open>src/ai/classifier.rs\<close> and the feature code of \<open>src/main.rs\<close> (\<open>compute_features\<close>,
  \<open>is_latency_sensitive\<close>, \<open>should_wake_boost\<close>, \<open>should_wake_preempt\<close>): the features of one
  scheduling event are \<open>f64\<close> quotients cut to the unit interval and narrowed to \<open>f32\<close>; the label
  is a function of the features. The lemmas read the float thresholds back as conditions on the integers
  they were computed from.
\<close>

section \<open>Model\<close>

datatype task_label = Interactive | Compute | IoWait | RealTime | Unknown

text \<open>\<open>label as usize\<close>.\<close>

fun label_index :: "task_label \<Rightarrow> nat" where
  "label_index Interactive = 0"
| "label_index Compute = 1"
| "label_index IoWait = 2"
| "label_index RealTime = 3"
| "label_index Unknown = 4"

text \<open>The name of a label, for messages; labels are told apart by it.\<close>

fun label_as_str :: "task_label \<Rightarrow> string" where
  "label_as_str Interactive = ''Interactive''"
| "label_as_str Compute = ''Compute''"
| "label_as_str IoWait = ''I/O Wait''"
| "label_as_str RealTime = ''RealTime''"
| "label_as_str Unknown = ''Unknown''"

lemma label_as_str_inject: "label_as_str a = label_as_str b \<longleftrightarrow> a = b"
  by (cases a; cases b) simp_all

record task_features =
  runnable_ratio :: rat
  cpu_intensity :: rat
  exec_ratio :: rat
  weight_norm :: rat
  cpu_affinity :: rat

definition classify :: "task_features \<Rightarrow> task_label" where
  "classify f =
     (if rnd32 (95/100) < weight_norm f then RealTime
      else if rnd32 (85/100) < cpu_intensity f \<and> exec_ratio f < rnd32 (30/100) then Compute
      else if cpu_intensity f < rnd32 (10/100) then IoWait
      else Interactive)"

definition compute_features :: "queued_task \<Rightarrow> u64 \<Rightarrow> u64 \<Rightarrow> i32 \<Rightarrow> task_features" where
  "compute_features task base_slice_ns prev_slice_ns nr_cpus =
     (let burst_ns = sat_sub (stop_ts task) (start_ts task);
          denominator = max prev_slice_ns 1
      in \<lparr>runnable_ratio = (if 0 < base_slice_ns
            then rnd32 (clamp (div64 (u64_to_f64 burst_ns) (u64_to_f64 base_slice_ns)) 0 1) else 0),
          cpu_intensity = rnd32 (clamp (div64 (u64_to_f64 burst_ns) (u64_to_f64 denominator)) 0 1),
          exec_ratio = (if 0 < exec_runtime task
            then rnd32 (clamp (div64 (u64_to_f64 burst_ns) (u64_to_f64 (exec_runtime task))) 0 1) else 1),
          weight_norm = clamp (div32 (u64_to_f32 (qt_weight task)) 10000) 0 1,
          cpu_affinity = clamp (div32 (u64_to_f32 (nr_cpus_allowed task)) (max (i32_to_f32 nr_cpus) 1)) 0 1\<rparr>)"

definition WAKE_BOOST_MIN_SLEEP_NS :: u64 where "WAKE_BOOST_MIN_SLEEP_NS = 750000"
definition WAKE_BOOST_MAX_SLEEP_NS :: u64 where "WAKE_BOOST_MAX_SLEEP_NS = 25000000"
definition WAKE_PREEMPT_MIN_CREDIT_NS :: u64 where "WAKE_PREEMPT_MIN_CREDIT_NS = 1000000"
definition WAKE_PREEMPT_MAX_QUEUE_NS :: u64 where "WAKE_PREEMPT_MAX_QUEUE_NS = 6000000"

definition is_latency_sensitive :: "task_label \<Rightarrow> task_features \<Rightarrow> u64 \<Rightarrow> bool" where
  "is_latency_sensitive label f sleep_ns \<longleftrightarrow>
     (label = Interactive \<or> label = IoWait) \<and>
     WAKE_BOOST_MIN_SLEEP_NS \<le> sleep_ns \<and> sleep_ns \<le> WAKE_BOOST_MAX_SLEEP_NS \<and>
     rnd32 (55/100) \<le> exec_ratio f \<and> rnd32 (30/100) \<le> cpu_intensity f"

definition should_wake_boost :: "bool \<Rightarrow> rat \<Rightarrow> rat \<Rightarrow> u64 \<Rightarrow> bool" where
  "should_wake_boost latency_sensitive er ci sleep_ns \<longleftrightarrow>
     latency_sensitive \<and>
     WAKE_BOOST_MIN_SLEEP_NS \<le> sleep_ns \<and> sleep_ns \<le> WAKE_BOOST_MAX_SLEEP_NS \<and>
     rnd32 (60/100) \<le> er \<and> rnd32 (45/100) \<le> ci"

definition should_wake_preempt :: "bool \<Rightarrow> bool \<Rightarrow> u64 \<Rightarrow> u64 \<Rightarrow> bool" where
  "should_wake_preempt wake_boosted latency_sensitive wake_credit_ns queued_ns \<longleftrightarrow>
     wake_boosted \<and> latency_sensitive \<and> WAKE_PREEMPT_MIN_CREDIT_NS \<le> wake_credit_ns \<and>
     queued_ns \<le> WAKE_PREEMPT_MAX_QUEUE_NS"

section \<open>Ratios\<close>

definition unit_ratio :: "u64 \<Rightarrow> u64 \<Rightarrow> rat" where
  "unit_ratio a b = rnd32 (clamp (div64 (u64_to_f64 a) (u64_to_f64 b)) 0 1)"

lemma unit_ratio_range: "0 \<le> unit_ratio a b \<and> unit_ratio a b \<le> 1"
  using clamp_bounds [of 0 1 "div64 (u64_to_f64 a) (u64_to_f64 b)"] f32.unit by (simp add: unit_ratio_def)

text \<open>Below \<open>2 ^ 53\<close> the two integers are exact, so a bound on the quotient survives both roundings.\<close>

lemma unit_ratio_exact:
  assumes "unat a < 2 ^ 53" and "unat b < 2 ^ 53"
  shows "unit_ratio a b = rnd32 (clamp (rnd64 (of_nat (unat a) / of_nat (unat b))) 0 1)"
  using assms by (simp only: unit_ratio_def div64_def u64_to_f64_def rnd64_nat)

lemma unit_ratio_le:
  assumes "unat a < 2 ^ 53" "unat b < 2 ^ 53" "0 < unat b" "0 \<le> q" "q \<le> 1" "of_nat (unat a) \<le> q * of_nat (unat b)"
  shows "unit_ratio a b \<le> rnd32 (rnd64 q)"
proof -
  have "of_nat (unat a) / of_nat (unat b) \<le> q"
    using assms(3,6) by (simp only: pos_divide_le_eq of_nat_0_less_iff)
  then have "clamp (rnd64 (of_nat (unat a) / of_nat (unat b))) 0 1 \<le> clamp (rnd64 q) 0 1"
    by (intro clamp_mono f64.mono) simp_all
  also have "clamp (rnd64 q) 0 1 = rnd64 q" using f64.unit [OF assms(4,5)] by (intro clamp_id) simp_all
  finally show ?thesis unfolding unit_ratio_exact [OF assms(1,2)] by (rule f32.mono)
qed

lemma unit_ratio_ge:
  assumes "unat a < 2 ^ 53" "unat b < 2 ^ 53" "0 < unat b" "0 \<le> q" "q \<le> 1" "q * of_nat (unat b) \<le> of_nat (unat a)"
  shows "rnd32 (rnd64 q) \<le> unit_ratio a b"
proof -
  have "q \<le> of_nat (unat a) / of_nat (unat b)"
    using assms(3,6) by (simp only: pos_le_divide_eq of_nat_0_less_iff)
  then have "clamp (rnd64 q) 0 1 \<le> clamp (rnd64 (of_nat (unat a) / of_nat (unat b))) 0 1"
    by (intro clamp_mono f64.mono) simp_all
  moreover have "clamp (rnd64 q) 0 1 = rnd64 q" using f64.unit [OF assms(4,5)] by (intro clamp_id) simp_all
  ultimately show ?thesis unfolding unit_ratio_exact [OF assms(1,2)] by (intro f32.mono) simp
qed

text \<open>The literals of the rules, rounded once (to \<open>f32\<close>) and twice (through \<open>f64\<close>).\<close>

lemma lit_twice:
  "rnd32 (rnd64 (85/100)) = rnd32 (85/100)" "rnd32 (rnd64 (10/100)) = rnd32 (10/100)"
  "rnd32 (rnd64 (30/100)) = rnd32 (30/100)"
  by code_simp+

lemma lit_order:
  "rnd32 (rnd64 (9/100)) < rnd32 (10/100)" "rnd32 (85/100) < rnd32 (rnd64 (86/100))"
  "rnd32 (rnd64 (29/100)) < rnd32 (30/100)" "rnd32 (10/100) < rnd32 (30/100)"
  "rnd32 (95/100) < rnd32 (9501/10000)"
  by code_simp+

lemma rnd64_double: "rnd64 (10/100) = rnd64 (1/10)" "rnd64 (30/100) = rnd64 (3/10)"
  by simp_all

section \<open>Features as integer conditions\<close>

definition burst_of :: "queued_task \<Rightarrow> u64" where
  "burst_of t = sat_sub (stop_ts t) (start_ts t)"

lemma features_eq:
  "cpu_intensity (compute_features t base prev cpus) = unit_ratio (burst_of t) (max prev 1)"
  "exec_ratio (compute_features t base prev cpus) =
     (if 0 < exec_runtime t then unit_ratio (burst_of t) (exec_runtime t) else 1)"
  "runnable_ratio (compute_features t base prev cpus) =
     (if 0 < base then unit_ratio (burst_of t) base else 0)"
  "weight_norm (compute_features t base prev cpus) = clamp (div32 (u64_to_f32 (qt_weight t)) 10000) 0 1"
  by (simp_all add: compute_features_def Let_def unit_ratio_def burst_of_def)

lemma weight_norm_realtime:
  "rnd32 (95/100) < clamp (div32 (u64_to_f32 w) 10000) 0 1 \<longleftrightarrow> 9500 < unat w"
proof
  have le1: "rnd32 (95/100) < 1" using lit_order(5) f32.le_one [of "9501/10000"] by simp
  have pos: "0 \<le> rnd32 (95/100)" by (rule f32.nonneg) simp
  {
    assume "9500 < unat w"
    then have "(of_nat 9501 :: rat) \<le> of_nat (unat w)" by (simp only: of_nat_le_iff)
    then have "rnd32 (of_nat 9501) \<le> u64_to_f32 w" unfolding u64_to_f32_def by (rule f32.mono)
    then have "9501 / 10000 \<le> u64_to_f32 w / 10000" using rnd32_nat [of 9501] by simp
    then have "rnd32 (9501/10000) \<le> div32 (u64_to_f32 w) 10000" unfolding div32_def by (rule f32.mono)
    then show "rnd32 (95/100) < clamp (div32 (u64_to_f32 w) 10000) 0 1"
      using lit_order(5) le1 by (auto simp: clamp_def)
  }
  {
    assume less: "rnd32 (95/100) < clamp (div32 (u64_to_f32 w) 10000) 0 1"
    show "9500 < unat w"
    proof (rule ccontr)
      assume "\<not> 9500 < unat w"
      then have "(of_nat (unat w) :: rat) \<le> of_nat 9500" by (simp only: of_nat_le_iff)
      then have "u64_to_f32 w \<le> rnd32 (of_nat 9500)" unfolding u64_to_f32_def by (rule f32.mono)
      then have "u64_to_f32 w / 10000 \<le> 95/100" using rnd32_nat [of 9500] by simp
      then have "div32 (u64_to_f32 w) 10000 \<le> rnd32 (95/100)" unfolding div32_def by (rule f32.mono)
      then show False using less pos by (auto simp: clamp_def split: if_splits)
    qed
  }
qed

text \<open>Bounds on a ratio in percent.\<close>

lemma ratio_ge_pct:
  assumes "unat a < 2 ^ 53" "unat b < 2 ^ 53" "0 < unat b" "p \<le> 100" "p * unat b \<le> 100 * unat a"
  shows "rnd32 (rnd64 (of_nat p / 100)) \<le> unit_ratio a b"
proof (rule unit_ratio_ge [OF assms(1-3)])
  have "(of_nat (p * unat b) :: rat) \<le> of_nat (100 * unat a)" using assms(5) by (simp only: of_nat_le_iff)
  then show "of_nat p / 100 * of_nat (unat b) \<le> (of_nat (unat a) :: rat)" by simp
qed (use assms(4) in simp_all)

lemma ratio_le_pct:
  assumes "unat a < 2 ^ 53" "unat b < 2 ^ 53" "0 < unat b" "p \<le> 100" "100 * unat a \<le> p * unat b"
  shows "unit_ratio a b \<le> rnd32 (rnd64 (of_nat p / 100))"
proof (rule unit_ratio_le [OF assms(1-3)])
  have "(of_nat (100 * unat a) :: rat) \<le> of_nat (p * unat b)" using assms(5) by (simp only: of_nat_le_iff)
  then show "(of_nat (unat a) :: rat) \<le> of_nat p / 100 * of_nat (unat b)" by simp
qed (use assms(4) in simp_all)

text \<open>The times of an event are exact in \<open>f64\<close>: below \<open>2 ^ 53\<close> ns, over a hundred days.\<close>

definition exact_times :: "queued_task \<Rightarrow> u64 \<Rightarrow> bool" where
  "exact_times t prev \<longleftrightarrow> unat (burst_of t) < 2 ^ 53 \<and> 0 < unat prev \<and> unat prev < 2 ^ 53 \<and>
     unat (exec_runtime t) < 2 ^ 53"

lemma prev_max: "exact_times t prev \<Longrightarrow> max prev 1 = prev"
  by (intro max_absorb1) (simp add: exact_times_def word_le_nat_alt)

lemma intensity_ge:
  "exact_times t prev \<Longrightarrow> p \<le> 100 \<Longrightarrow> p * unat prev \<le> 100 * unat (burst_of t) \<Longrightarrow>
     rnd32 (rnd64 (of_nat p / 100)) \<le> cpu_intensity (compute_features t base prev cpus)"
  using ratio_ge_pct [of "burst_of t" prev p] by (simp add: features_eq prev_max) (simp add: exact_times_def)

lemma intensity_le:
  "exact_times t prev \<Longrightarrow> p \<le> 100 \<Longrightarrow> 100 * unat (burst_of t) \<le> p * unat prev \<Longrightarrow>
     cpu_intensity (compute_features t base prev cpus) \<le> rnd32 (rnd64 (of_nat p / 100))"
  using ratio_le_pct [of "burst_of t" prev p] by (simp add: features_eq prev_max) (simp add: exact_times_def)

lemma exec_ratio_ge:
  assumes "exact_times t prev" "p \<le> 100" "p * unat (exec_runtime t) \<le> 100 * unat (burst_of t)"
  shows "rnd32 (rnd64 (of_nat p / 100)) \<le> exec_ratio (compute_features t base prev cpus)"
proof (cases "exec_runtime t = 0")
  case True
  have "rnd32 (rnd64 (of_nat p / 100)) \<le> 1" using assms(2) by (intro f32.le_one f64.le_one) simp
  with True show ?thesis by (simp add: features_eq)
next
  case False
  then show ?thesis
    using ratio_ge_pct [of "burst_of t" "exec_runtime t" p] assms
    by (simp add: features_eq exact_times_def word_less_nat_alt unat_gt_0)
qed

lemma exec_ratio_le:
  assumes "exact_times t prev" "p \<le> 100" "100 * unat (burst_of t) \<le> p * unat (exec_runtime t)" "0 < unat (exec_runtime t)"
  shows "exec_ratio (compute_features t base prev cpus) \<le> rnd32 (rnd64 (of_nat p / 100))"
  using ratio_le_pct [of "burst_of t" "exec_runtime t" p] assms
  by (simp add: features_eq exact_times_def word_less_nat_alt)

lemma classify_weight:
  "classify (compute_features t base prev cpus) = RealTime \<longleftrightarrow> 9500 < unat (qt_weight t)"
  using weight_norm_realtime [of "qt_weight t"] by (simp add: classify_def features_eq(4))

section \<open>Properties\<close>

text \<open>
  Every feature lies in the unit interval, for any times, weight, affinity and CPU count: no
  division by zero and no value outside the range the classifier is written for.
\<close>

theorem features_in_unit_interval:
  "let f = compute_features t base prev cpus in
     {runnable_ratio f, cpu_intensity f, exec_ratio f, weight_norm f, cpu_affinity f} \<subseteq> {0..1}"
  using unit_ratio_range clamp_bounds [of "0 :: rat" 1]
  by (auto simp: features_eq Let_def) (simp_all add: compute_features_def Let_def)

text \<open>
  The real-time rule is exactly a weight above 9500, whatever the rest of the event says; in
  particular a weight of 9500 is not real-time although its normalised weight prints as 0.95.
\<close>

theorem realtime_iff_weight:
  "classify (compute_features t base prev cpus) = RealTime \<longleftrightarrow> 9500 < unat (qt_weight t)"
  by (rule classify_weight)

text \<open>
  The other labels follow the slice usage the source documents: a task that used at least 10% of
  its slice is never IoWait and one that used at most 9% always is; a task that used at most 85%, or
  whose burst is at least 30% of its run time since the last sleep, is never Compute, and one that used
  at least 86% with a burst of at most 29% of that run time always is.
\<close>

theorem classify_by_slice_usage:
  assumes "exact_times t prev" and "unat (qt_weight t) \<le> 9500"
  shows "let label = classify (compute_features t base prev cpus); used = 100 * unat (burst_of t) in
    (10 * unat prev \<le> used \<longrightarrow> label \<noteq> IoWait) \<and> (used \<le> 9 * unat prev \<longrightarrow> label = IoWait) \<and>
    (used \<le> 85 * unat prev \<or> 30 * unat (exec_runtime t) \<le> used \<longrightarrow> label \<noteq> Compute) \<and>
    (86 * unat prev \<le> used \<and> used \<le> 29 * unat (exec_runtime t) \<longrightarrow> label = Compute)"
proof -
  let ?f = "compute_features t base prev cpus"
  define label where "label = classify ?f"
  define used where "used = 100 * unat (burst_of t)"
  note lits = lit_twice lit_order
  have nrt: "\<not> rnd32 (95/100) < weight_norm ?f"
    using assms(2) weight_norm_realtime [of "qt_weight t"] by (simp add: features_eq(4))
  note ge = intensity_ge [OF assms(1), of _ base cpus] and le = intensity_le [OF assms(1), of _ base cpus]
  have io: "label \<noteq> IoWait" if "10 * unat prev \<le> used"
    using ge [of 10] that lits by (auto simp: label_def used_def classify_def)
  have io': "label = IoWait" if "used \<le> 9 * unat prev"
    using le [of 9] that lits nrt f32.mono [of "10/100" "85/100"] by (auto simp: label_def used_def classify_def)
  have cp: "label \<noteq> Compute" if "used \<le> 85 * unat prev \<or> 30 * unat (exec_runtime t) \<le> used"
    using le [of 85] exec_ratio_ge [OF assms(1), of 30 base cpus] that lits
    by (auto simp: label_def used_def classify_def)
  have cp': "label = Compute" if u: "86 * unat prev \<le> used" "used \<le> 29 * unat (exec_runtime t)"
  proof -
    have "0 < unat (exec_runtime t)" using u assms(1) by (cases "unat (exec_runtime t)") (auto simp: exact_times_def)
    then show ?thesis
      using ge [of 86] exec_ratio_le [OF assms(1), of 29 base cpus] u lits nrt
      by (auto simp: label_def used_def classify_def)
  qed
  show ?thesis
    unfolding Let_def label_def [symmetric] used_def [symmetric] using io io' cp cp' by blast
qed

theorem classify_by_slice_usage_witness:
  "classify (compute_features sample_task 1000000 1000000 8) = Interactive"
proof -
  have "exact_times sample_task 1000000" "unat (qt_weight sample_task) \<le> 9500" "burst_of sample_task = 900000"
    by (simp_all add: exact_times_def sample_task_def burst_of_def sat_sub_def)
  with classify_by_slice_usage [of sample_task 1000000 1000000 8]
    classify_weight [of sample_task 1000000 1000000 8] show ?thesis
    by (cases "classify (compute_features sample_task 1000000 1000000 8)")
      (simp_all add: sample_task_def classify_def split: if_splits)
qed

text \<open>
  Only tasks labelled Interactive are latency-sensitive, wake-boosted or allowed to preempt on
  wake-up: the IoWait case of \<open>is_latency_sensitive\<close> is never met, since an IoWait task used less of its
  slice than the rule asks for. A boost also needs a sleep of 0.75 to 25 ms.
\<close>

theorem wake_boost_is_interactive:
  assumes "is_latency_sensitive (classify f) f sleep_ns"
  shows "classify f = Interactive \<and> 750000 \<le> unat sleep_ns \<and> unat sleep_ns \<le> 25000000"
  using assms lit_order(4)
  by (auto simp: is_latency_sensitive_def classify_def WAKE_BOOST_MIN_SLEEP_NS_def
      WAKE_BOOST_MAX_SLEEP_NS_def word_le_nat_alt split: if_splits)

theorem wake_boost_is_interactive_witness:
  "\<exists>f. is_latency_sensitive (classify f) f 1000000 \<and> classify f = Interactive"
proof -
  let ?f = "\<lparr>runnable_ratio = 0, cpu_intensity = 1/2, exec_ratio = 1, weight_norm = 0, cpu_affinity = 1\<rparr>"
  have "is_latency_sensitive (classify ?f) ?f 1000000" by code_simp
  with wake_boost_is_interactive [OF this] show ?thesis by blast
qed

end
