(* ===== verification/Profile.thy ===== *)
theory Profile
  imports Cognis_Prelude
begin

text \<open>
  The command line of \<open>src/main.rs\<close> (\<open>Opts\<close>, less the flags that only select another mode of the
  binary) and what the program derives from it: \<open>BpfProfile::from_opts\<close>, \<open>enabled_flag_summary\<close>
  and \<open>should_launch_stats_server\<close>. A float option is kept as the rational the user gave.
\<close>

section \<open>Options\<close>

datatype scheduler_mode = Desktop | Server

fun mode_as_str :: "scheduler_mode \<Rightarrow> string" where
  "mode_as_str Desktop = ''desktop''"
| "mode_as_str Server = ''server''"

record opts =
  slice_us :: u64
  slice_us_min :: u64
  opt_mode :: scheduler_mode
  percpu_local :: bool
  opt_partial :: bool
  exit_dump_len :: u32
  verbose :: bool
  tui :: bool
  stats :: "rat option"
  userspace_fallback :: bool
  serve_stats :: bool
  monitor :: "rat option"
  help_stats :: bool
  version :: bool

definition NSEC_PER_USEC :: u64 where "NSEC_PER_USEC = 1000"
definition NSEC_PER_SEC :: u64 where "NSEC_PER_SEC = 1000000000"
definition DEFAULT_DESKTOP_SLICE_NS :: u64 where "DEFAULT_DESKTOP_SLICE_NS = 1000000"
definition DEFAULT_SERVER_SLICE_NS :: u64 where "DEFAULT_SERVER_SLICE_NS = 8000000"
definition DEFAULT_DESKTOP_SLICE_MIN_NS :: u64 where "DEFAULT_DESKTOP_SLICE_MIN_NS = 250000"
definition DEFAULT_SERVER_SLICE_MIN_NS :: u64 where "DEFAULT_SERVER_SLICE_MIN_NS = 1000000"
definition DEFAULT_DESKTOP_SLICE_LAG_NS :: u64 where "DEFAULT_DESKTOP_SLICE_LAG_NS = 40000000"
definition DEFAULT_SERVER_SLICE_LAG_NS :: u64 where "DEFAULT_SERVER_SLICE_LAG_NS = 1500000"

section \<open>The profile\<close>

record bpf_profile =
  prof_mode :: scheduler_mode
  prof_slice_ns :: u64
  prof_slice_min_ns :: u64
  prof_slice_lag_ns :: u64
  no_wake_sync :: bool
  sticky_tasks :: bool

definition mode_defaults :: "scheduler_mode \<Rightarrow> u64 \<times> u64 \<times> u64 \<times> bool \<times> bool" where
  "mode_defaults m = (case m of
     Desktop \<Rightarrow> (DEFAULT_DESKTOP_SLICE_NS, DEFAULT_DESKTOP_SLICE_MIN_NS, DEFAULT_DESKTOP_SLICE_LAG_NS, False, True)
   | Server \<Rightarrow> (DEFAULT_SERVER_SLICE_NS, DEFAULT_SERVER_SLICE_MIN_NS, DEFAULT_SERVER_SLICE_LAG_NS, True, False))"

definition from_opts :: "opts \<Rightarrow> bpf_profile" where
  "from_opts cli =
     (let (default_slice_ns, default_min_ns, default_lag_ns, wake_sync, sticky) = mode_defaults (opt_mode cli);
          slice_ns = (if 0 < slice_us cli then sat_mul (slice_us cli) NSEC_PER_USEC else default_slice_ns);
          slice_min_ns = (if 0 < slice_us_min cli then sat_mul (slice_us_min cli) NSEC_PER_USEC else default_min_ns)
      in \<lparr>prof_mode = opt_mode cli, prof_slice_ns = max slice_ns slice_min_ns, prof_slice_min_ns = slice_min_ns,
          prof_slice_lag_ns = default_lag_ns, no_wake_sync = wake_sync, sticky_tasks = sticky\<rparr>)"

definition is_server :: "bpf_profile \<Rightarrow> bool" where
  "is_server p \<longleftrightarrow> prof_mode p = Server"

section \<open>Flags\<close>

text \<open>\<open>flags.join(\<dots>)\<close>.\<close>

fun join :: "string \<Rightarrow> string list \<Rightarrow> string" where
  "join sep [] = ''''"
| "join sep [x] = x"
| "join sep (x # y # ys) = x @ sep @ join sep (y # ys)"

definition enabled_flags :: "opts \<Rightarrow> string list" where
  "enabled_flags cli =
     (if opt_partial cli then [''partial''] else []) @ (if percpu_local cli then [''percpu_local''] else []) @
     (if verbose cli then [''verbose''] else []) @ (if tui cli then [''tui''] else []) @
     (if stats cli \<noteq> None then [''stats''] else []) @
     (if userspace_fallback cli then [''userspace_fallback''] else []) @
     (if serve_stats cli then [''serve_stats''] else [])"

definition enabled_flag_summary :: "opts \<Rightarrow> string" where
  "enabled_flag_summary cli = (if enabled_flags cli = [] then ''none'' else join '','' (enabled_flags cli))"

definition should_launch_stats_server :: "opts \<Rightarrow> bool" where
  "should_launch_stats_server cli \<longleftrightarrow> serve_stats cli \<or> stats cli \<noteq> None \<or> tui cli"

section \<open>Reading the summary back\<close>

fun split_on :: "char \<Rightarrow> string \<Rightarrow> string list" where
  "split_on c [] = [[]]"
| "split_on c (x # xs) = (if x = c then [] # split_on c xs
     else case split_on c xs of y # ys \<Rightarrow> (x # y) # ys | [] \<Rightarrow> [[x]])"

lemma split_on_nonempty: "split_on c xs \<noteq> []"
  by (induction xs) (auto split: list.splits)

lemma split_on_append: "c \<notin> set x \<Longrightarrow> split_on c (x @ c # rest) = x # split_on c rest"
  by (induction x) auto

lemma split_on_single: "c \<notin> set x \<Longrightarrow> split_on c x = [x]"
  by (induction x) auto

lemma split_join: "xs \<noteq> [] \<Longrightarrow> \<forall>x \<in> set xs. c \<notin> set x \<Longrightarrow> split_on c (join [c] xs) = xs"
  by (induction "[c]" xs rule: join.induct) (simp_all add: split_on_append split_on_single)

section \<open>Properties\<close>

text \<open>
  For any command line the profile's slice is at least its minimum, both are positive, a slice or
  minimum given in microseconds is used unless the minimum overrides it, and the conversion never
  wraps; with no option given the desktop and server defaults of the documentation apply.
\<close>

theorem profile_from_opts:
  "let p = from_opts cli; ms = (\<lambda>n. min (unat n * 1000) (2 ^ 64 - 1));
       lo = (if slice_us_min cli = 0 then (if opt_mode cli = Desktop then 250000 else 1000000) else ms (slice_us_min cli));
       hi = (if slice_us cli = 0 then (if opt_mode cli = Desktop then 1000000 else 8000000) else ms (slice_us cli))
   in unat (prof_slice_min_ns p) = lo \<and> unat (prof_slice_ns p) = max hi lo \<and> 0 < lo \<and>
      (is_server p \<longleftrightarrow> no_wake_sync p) \<and> (is_server p \<longleftrightarrow> \<not> sticky_tasks p)"
proof -
  note defs = DEFAULT_DESKTOP_SLICE_NS_def DEFAULT_SERVER_SLICE_NS_def DEFAULT_DESKTOP_SLICE_MIN_NS_def
    DEFAULT_SERVER_SLICE_MIN_NS_def NSEC_PER_USEC_def
  have pos: "0 < unat n" if "n \<noteq> 0" for n :: u64
    using that by (simp add: unat_gt_0)
  show ?thesis
    by (cases "opt_mode cli"; cases "slice_us cli = 0"; cases "slice_us_min cli = 0")
      (simp_all add: from_opts_def mode_defaults_def Let_def is_server_def word_gt_0 unat_max_word unat_sat_mul
        defs pos)
qed

text \<open>
  The flag summary loses nothing: splitting it at the commas gives back exactly the enabled flags,
  and it is ''none'' only when there are none. The stats server is started exactly for the runs that
  can read it: an external client, the local monitor or the dashboard.
\<close>

theorem flag_summary_roundtrip:
  "enabled_flags cli \<noteq> [] \<longrightarrow> split_on (CHR '','') (enabled_flag_summary cli) = enabled_flags cli"
proof -
  have "\<forall>x \<in> set (enabled_flags cli). CHR '','' \<notin> set x" by (auto simp: enabled_flags_def split: if_splits)
  then show ?thesis using split_join [of "enabled_flags cli" "CHR '',''"] by (simp add: enabled_flag_summary_def)
qed

definition opts_default :: opts where
  "opts_default = \<lparr>slice_us = 0, slice_us_min = 0, opt_mode = Desktop, percpu_local = False, opt_partial = False,
     exit_dump_len = 0, verbose = False, tui = False, stats = None, userspace_fallback = False,
     serve_stats = False, monitor = None, help_stats = False, version = False\<rparr>"

theorem flag_summary_roundtrip_witness:
  "split_on (CHR '','') (enabled_flag_summary (opts_default\<lparr>tui := True, stats := Some 1\<rparr>)) = [''tui'', ''stats'']"
  using flag_summary_roundtrip [of "opts_default\<lparr>tui := True, stats := Some 1\<rparr>"]
  by (simp add: enabled_flags_def opts_default_def)

end
