(* ===== verification/Bpf_Scheduler.thy ===== *)
theory Bpf_Scheduler
  imports Bpf_Messages
begin

text \<open>
  \<open>BpfScheduler\<close> of \<open>src/bpf.rs\<close>: the rings and counters the scheduler shares with the kernel. The
  kernel and libbpf are not part of the program: they are the functions of the record \<open>os\<close>, over a
  world of any type \<open>'w\<close>, and every operation of the source is an action on the scheduler's own
  fields and that world. \<open>libbpf_ok\<close> states what libbpf documents of its rings, for a log \<open>rx\<close> of the
  messages delivered and a log \<open>tx\<close> of the messages submitted; the kernel may do anything else
  between two calls.
\<close>

section \<open>The environment\<close>

datatype bss_counter =
    Nr_online_cpus | Nr_running | Nr_queued | Nr_scheduled | Nr_user_dispatches | Nr_kernel_dispatches
  | Nr_local_dispatches | Nr_llc_dispatches | Nr_node_dispatches | Nr_shared_dispatches | Nr_xllc_steals
  | Nr_xnode_steals | Nr_cancel_dispatches | Nr_bounce_dispatches | Nr_failed_dispatches | Nr_sched_congested

text \<open>
  \<open>os_consume_queued\<close> and \<open>os_consume_exits\<close> are \<open>consume_raw_n(1)\<close>: the message handed to the
  callback, if any, and the result as a function of what the callback returned. \<open>os_reserve\<close> gives a
  buffer and whether it is aligned for the context.
\<close>

record 'w os =
  os_now :: "'w \<Rightarrow> u64 \<times> 'w"
  os_instant :: "'w \<Rightarrow> nat \<times> 'w"
  os_counter :: "bss_counter \<Rightarrow> 'w \<Rightarrow> u64 \<times> 'w"
  os_set_counter :: "bss_counter \<Rightarrow> u64 \<Rightarrow> 'w \<Rightarrow> 'w"
  os_consume_queued :: "'w \<Rightarrow> (u8 list option \<times> (i32 \<Rightarrow> i32)) \<times> 'w"
  os_consume_exits :: "'w \<Rightarrow> (u8 list option \<times> (i32 \<Rightarrow> i32)) \<times> 'w"
  os_reserve :: "nat \<Rightarrow> 'w \<Rightarrow> (i32 + u8 list \<times> bool) \<times> 'w"
  os_submit :: "u8 list \<Rightarrow> 'w \<Rightarrow> (i32 + unit) \<times> 'w"
  os_discard :: "u8 list \<Rightarrow> 'w \<Rightarrow> 'w"
  os_yield :: "'w \<Rightarrow> 'w"
  os_shutdown :: "'w \<Rightarrow> bool \<times> 'w"
  os_uei_exited :: "'w \<Rightarrow> bool \<times> 'w"

text \<open>Calling the environment.\<close>

definition ask :: "('w \<Rightarrow> 'a \<times> 'w) \<Rightarrow> ('s \<times> 'w, 'a) action" where
  "ask f = (\<lambda>(s, w). case f w of (x, w') \<Rightarrow> Inr (x, (s, w')))"

definition tell :: "('w \<Rightarrow> 'w) \<Rightarrow> ('s \<times> 'w, unit) action" where
  "tell f = (\<lambda>(s, w). Inr ((), (s, f w)))"

definition gets_own :: "('s \<Rightarrow> 'a) \<Rightarrow> ('s \<times> 'w, 'a) action" where
  "gets_own f = gets (\<lambda>(s, w). f s)"

definition modify_own :: "('s \<Rightarrow> 's) \<Rightarrow> ('s \<times> 'w, unit) action" where
  "modify_own f = modify (\<lambda>(s, w). (f s, w))"

lemma wp_ask [wp_simps]: "wp (ask f) Q (s, w) \<longleftrightarrow> Q (fst (f w)) (s, snd (f w))"
  by (simp add: wp_def ask_def split: prod.splits)

lemma wp_tell [wp_simps]: "wp (tell f) Q (s, w) \<longleftrightarrow> Q () (s, f w)"
  by (simp add: wp_def tell_def)

lemma wp_gets_own [wp_simps]: "wp (gets_own f) Q (s, w) \<longleftrightarrow> Q (f s) (s, w)"
  by (simp add: gets_own_def wp_simps)

lemma wp_modify_own [wp_simps]: "wp (modify_own f) Q (s, w) \<longleftrightarrow> Q () (f s, w)"
  by (simp add: modify_own_def wp_simps)

section \<open>The scheduler's side\<close>

record bpf_scheduler =
  bss_present :: bool
  queued_slot :: "queued_task option"
  exited_pid_slot :: "i32 option"
  struct_ops_attached :: bool

definition EIO :: i32 where "EIO = 5"
definition EPROTO :: i32 where "EPROTO = 71"

text \<open>\<open>*self.nr_\<dots>_mut()\<close>: the map is unwrapped at every access.\<close>

definition read_counter :: "'w os \<Rightarrow> bss_counter \<Rightarrow> (bpf_scheduler \<times> 'w, u64) action" where
  "read_counter os c = bindS (gets_own bss_present) (\<lambda>b. if b then ask (os_counter os c) else panic)"

definition write_counter :: "'w os \<Rightarrow> bss_counter \<Rightarrow> u64 \<Rightarrow> (bpf_scheduler \<times> 'w, unit) action" where
  "write_counter os c v = bindS (gets_own bss_present) (\<lambda>b. if b then tell (os_set_counter os c v) else panic)"

definition notify_complete :: "'w os \<Rightarrow> u64 \<Rightarrow> (bpf_scheduler \<times> 'w, unit) action" where
  "notify_complete os nr_pending =
     bindS (write_counter os Nr_scheduled nr_pending) (\<lambda>_.
       if 0 < nr_pending then tell (os_yield os) else return ())"

text \<open>The ring callbacks: fill the slot, or report the decoder's error.\<close>

definition queued_callback :: "u8 list option \<Rightarrow> (bpf_scheduler \<times> 'w, i32) action" where
  "queued_callback msg =
     (case msg of
        None \<Rightarrow> return 0
      | Some data \<Rightarrow> (case decode_queued_task data of
            Inr task \<Rightarrow> bindS (modify_own (queued_slot_update (\<lambda>_. Some task))) (\<lambda>_. return 0)
          | Inl err \<Rightarrow> return err))"

definition exited_callback :: "u8 list option \<Rightarrow> (bpf_scheduler \<times> 'w, i32) action" where
  "exited_callback msg =
     (case msg of
        None \<Rightarrow> return 0
      | Some data \<Rightarrow> (case decode_exited_pid data of
            Inr pid \<Rightarrow> bindS (modify_own (exited_pid_slot_update (\<lambda>_. Some pid))) (\<lambda>_. return 0)
          | Inl err \<Rightarrow> return err))"

definition take_queued_slot :: "(bpf_scheduler \<times> 'w, queued_task option) action" where
  "take_queued_slot = bindS (gets_own queued_slot) (\<lambda>t.
     bindS (modify_own (queued_slot_update (\<lambda>_. None))) (\<lambda>_. return t))"

definition take_exited_slot :: "(bpf_scheduler \<times> 'w, i32 option) action" where
  "take_exited_slot = bindS (gets_own exited_pid_slot) (\<lambda>t.
     bindS (modify_own (exited_pid_slot_update (\<lambda>_. None))) (\<lambda>_. return t))"

definition dequeue_task :: "'w os \<Rightarrow> (bpf_scheduler \<times> 'w, i32 + queued_task option) action" where
  "dequeue_task os =
     bindS (gets_own bss_present) (\<lambda>present.
     if \<not> present then return (Inl (- EIO))
     else bindS take_queued_slot (\<lambda>_.
       bindS (ask (os_consume_queued os)) (\<lambda>(msg, result).
       bindS (queued_callback msg) (\<lambda>cb.
       let res = result cb in
         if res = 0 then bindS (tell (os_set_counter os Nr_queued 0)) (\<lambda>_. return (Inr None))
         else if res = 1 then
           bindS take_queued_slot (\<lambda>slot. case slot of
             None \<Rightarrow> return (Inl (- EIO))
           | Some task \<Rightarrow>
               bindS (ask (os_counter os Nr_queued)) (\<lambda>n.
               bindS (tell (os_set_counter os Nr_queued (sat_sub n 1))) (\<lambda>_.
               return (Inr (Some task)))))
         else if sint res < 0 then return (Inl res)
         else return (Inl (- EPROTO))))))"

definition dequeue_exited_pid :: "'w os \<Rightarrow> (bpf_scheduler \<times> 'w, i32 + i32 option) action" where
  "dequeue_exited_pid os =
     bindS take_exited_slot (\<lambda>_.
     bindS (ask (os_consume_exits os)) (\<lambda>(msg, result).
     bindS (exited_callback msg) (\<lambda>cb.
     let res = result cb in
       if res = 0 then return (Inr None)
       else if res = 1 then
         bindS take_exited_slot (\<lambda>slot. case slot of
           None \<Rightarrow> return (Inl (- EIO))
         | Some pid \<Rightarrow> return (Inr (Some pid)))
       else if sint res < 0 then return (Inl res)
       else return (Inl (- EPROTO)))))"

text \<open>The context overwrites the first 40 bytes of the sample; an unusable sample is dropped.\<close>

definition bpf_dispatch_task :: "'w os \<Rightarrow> dispatched_task \<Rightarrow> (bpf_scheduler \<times> 'w, i32 + unit) action" where
  "bpf_dispatch_task os task =
     bindS (ask (os_reserve os DISPATCHED_TASK_CTX_SIZE)) (\<lambda>r. case r of
       Inl err \<Rightarrow> return (Inl err)
     | Inr (bytes, aligned) \<Rightarrow>
         if length bytes < DISPATCHED_TASK_CTX_SIZE \<or> \<not> aligned then
           bindS (tell (os_discard os bytes)) (\<lambda>_. return (Inl (- EINVAL)))
         else ask (os_submit os (dispatched_ctx task @ drop DISPATCHED_TASK_CTX_SIZE bytes)))"

definition bpf_exited :: "'w os \<Rightarrow> (bpf_scheduler \<times> 'w, bool) action" where
  "bpf_exited os = bindS (ask (os_shutdown os)) (\<lambda>stop. if stop then return True else ask (os_uei_exited os))"

definition shutdown_and_report :: "(bpf_scheduler \<times> 'w, unit) action" where
  "shutdown_and_report = modify_own (struct_ops_attached_update (\<lambda>_. False))"

section \<open>What libbpf documents\<close>

text \<open>A call that neither delivers nor submits a message of the two task rings.\<close>

definition silent :: "('w \<Rightarrow> 'l) \<Rightarrow> ('w \<Rightarrow> 'm) \<Rightarrow> ('w \<Rightarrow> 'w) \<Rightarrow> bool" where
  "silent rx tx f \<longleftrightarrow> (\<forall>w. rx (f w) = rx w \<and> tx (f w) = tx w)"

text \<open>\<open>consume_raw_n(1)\<close>: no message and a result that is 0 or an error, or one message and the result 1
  unless the callback reported an error.\<close>

definition consume_ok :: "('w \<Rightarrow> (u8 list option \<times> (i32 \<Rightarrow> i32)) \<times> 'w) \<Rightarrow> ('w \<Rightarrow> u8 list list) \<Rightarrow> ('w \<Rightarrow> u8 list list) \<Rightarrow> bool" where
  "consume_ok f rx tx \<longleftrightarrow> (\<forall>w msg result w'. f w = ((msg, result), w') \<longrightarrow> tx w' = tx w \<and>
     (case msg of
        None \<Rightarrow> sint (result 0) \<le> 0 \<and> rx w' = rx w
      | Some d \<Rightarrow> result 0 = 1 \<and> (\<forall>e. sint e < 0 \<longrightarrow> result e = e) \<and> rx w' = rx w @ [d]))"

definition reserve_ok :: "(nat \<Rightarrow> 'w \<Rightarrow> (i32 + u8 list \<times> bool) \<times> 'w) \<Rightarrow> ('w \<Rightarrow> u8 list list) \<Rightarrow> ('w \<Rightarrow> u8 list list) \<Rightarrow> bool" where
  "reserve_ok f rx tx \<longleftrightarrow> (\<forall>n w r w'. f n w = (r, w') \<longrightarrow> rx w' = rx w \<and> tx w' = tx w \<and>
     (\<forall>bytes aligned. r = Inr (bytes, aligned) \<longrightarrow> length bytes = n \<and> aligned))"

definition submit_ok :: "(u8 list \<Rightarrow> 'w \<Rightarrow> (i32 + unit) \<times> 'w) \<Rightarrow> ('w \<Rightarrow> u8 list list) \<Rightarrow> ('w \<Rightarrow> u8 list list) \<Rightarrow> bool" where
  "submit_ok f rx tx \<longleftrightarrow> (\<forall>b w r w'. f b w = (r, w') \<longrightarrow> rx w' = rx w \<and>
     tx w' = (if r = Inr () then tx w @ [b] else tx w))"

definition libbpf_ok :: "'w os \<Rightarrow> ('w \<Rightarrow> u8 list list) \<Rightarrow> ('w \<Rightarrow> u8 list list) \<Rightarrow> bool" where
  "libbpf_ok os rx tx \<longleftrightarrow>
     silent rx tx (\<lambda>w. snd (os_now os w)) \<and> silent rx tx (\<lambda>w. snd (os_instant os w)) \<and>
     (\<forall>c. silent rx tx (\<lambda>w. snd (os_counter os c w))) \<and> (\<forall>c v. silent rx tx (os_set_counter os c v)) \<and>
     silent rx tx (\<lambda>w. snd (os_consume_exits os w)) \<and> (\<forall>b. silent rx tx (os_discard os b)) \<and>
     silent rx tx (os_yield os) \<and> silent rx tx (\<lambda>w. snd (os_shutdown os w)) \<and>
     silent rx tx (\<lambda>w. snd (os_uei_exited os w)) \<and>
     consume_ok (os_consume_queued os) rx tx \<and> reserve_ok (os_reserve os) rx tx \<and> submit_ok (os_submit os) rx tx"

text \<open>The tasks a log of delivered messages carries, and those a log of submitted ones does.\<close>

definition received :: "u8 list list \<Rightarrow> queued_task list" where
  "received msgs = List.map_filter (\<lambda>d. case decode_queued_task d of Inr t \<Rightarrow> Some t | Inl _ \<Rightarrow> None) msgs"

definition submitted :: "u8 list list \<Rightarrow> dispatched_task list" where
  "submitted msgs = map read_dispatched_ctx msgs"

lemma received_append: "received (xs @ ys) = received xs @ received ys"
  by (simp add: received_def map_filter_def)

lemma received_single:
  "received [d] = (case decode_queued_task d of Inr t \<Rightarrow> [t] | Inl _ \<Rightarrow> [])"
  by (auto simp: received_def map_filter_def split: sum.splits)

lemma submitted_append: "submitted (xs @ ys) = submitted xs @ submitted ys"
  by (simp add: submitted_def)

lemma libbpf_silent:
  assumes "libbpf_ok os rx tx"
  shows "rx (snd (os_now os w)) = rx w" "tx (snd (os_now os w)) = tx w"
    "rx (snd (os_instant os w)) = rx w" "tx (snd (os_instant os w)) = tx w"
    "rx (snd (os_counter os c w)) = rx w" "tx (snd (os_counter os c w)) = tx w"
    "rx (os_set_counter os c v w) = rx w" "tx (os_set_counter os c v w) = tx w"
    "rx (snd (os_consume_exits os w)) = rx w" "tx (snd (os_consume_exits os w)) = tx w"
    "rx (os_discard os b w) = rx w" "tx (os_discard os b w) = tx w"
    "rx (os_yield os w) = rx w" "tx (os_yield os w) = tx w"
    "rx (snd (os_shutdown os w)) = rx w" "tx (snd (os_shutdown os w)) = tx w"
    "rx (snd (os_uei_exited os w)) = rx w" "tx (snd (os_uei_exited os w)) = tx w"
  using assms by (simp_all add: libbpf_ok_def silent_def)

lemma libbpf_consume:
  assumes "libbpf_ok os rx tx" and "os_consume_queued os w = ((msg, result), w')"
  shows "tx w' = tx w \<and>
    (case msg of
       None \<Rightarrow> sint (result 0) \<le> 0 \<and> rx w' = rx w
     | Some d \<Rightarrow> result 0 = 1 \<and> (\<forall>e. sint e < 0 \<longrightarrow> result e = e) \<and> rx w' = rx w @ [d])"
  using assms unfolding libbpf_ok_def consume_ok_def by blast

lemma libbpf_reserve:
  assumes "libbpf_ok os rx tx" and "os_reserve os n w = (r, w')"
  shows "rx w' = rx w \<and> tx w' = tx w \<and> (\<forall>bytes al. r = Inr (bytes, al) \<longrightarrow> length bytes = n \<and> al)"
  using assms unfolding libbpf_ok_def reserve_ok_def by blast

lemma libbpf_submit:
  assumes "libbpf_ok os rx tx" and "os_submit os b w = (r, w')"
  shows "rx w' = rx w \<and> tx w' = (if r = Inr () then tx w @ [b] else tx w)"
  using assms unfolding libbpf_ok_def submit_ok_def by blast

section \<open>Correctness of the calls\<close>

lemma decode_error: "decode_queued_task d = Inl e \<Longrightarrow> sint e < 0 \<and> e \<noteq> 0 \<and> e \<noteq> 1"
  by (auto simp: decode_queued_task_def EINVAL_def split: if_splits)

lemma wp_dequeue_task:
  assumes ok: "libbpf_ok os rx tx" and present: "bss_present b"
  shows "wp (dequeue_task os) (\<lambda>r (b', w'). bss_present b' \<and> tx w' = tx w \<and>
     (\<exists>log. rx w' = rx w @ log \<and> received log = (case r of Inr (Some t) \<Rightarrow> [t] | _ \<Rightarrow> []))) (b, w)"
proof -
  obtain msg result w1 where c: "os_consume_queued os w = ((msg, result), w1)" by (metis prod.exhaust)
  note q = libbpf_consume [OF ok c] and sil = libbpf_silent [OF ok]
  show ?thesis
  proof (cases msg)
    case None
    then have res: "result 0 \<noteq> 1" using q by auto
    show ?thesis
      using present None res q c
      by (auto simp: dequeue_task_def take_queued_slot_def queued_callback_def wp_simps Let_def sil
          received_def map_filter_def intro!: exI [of _ "[]"])
  next
    case (Some d)
    then have q': "result 0 = 1" "\<And>e. sint e < 0 \<Longrightarrow> result e = e" "rx w1 = rx w @ [d]" "tx w1 = tx w"
      using q by auto
    show ?thesis
    proof (cases "decode_queued_task d")
      case (Inl e)
      then show ?thesis
        using present Some q' c decode_error [OF Inl]
        by (auto simp: dequeue_task_def take_queued_slot_def queued_callback_def wp_simps Let_def sil
            received_single intro!: exI [of _ "[d]"])
    next
      case (Inr t)
      then show ?thesis
        using present Some q' c
        by (auto simp: dequeue_task_def take_queued_slot_def queued_callback_def wp_simps Let_def sil
            received_single intro!: exI [of _ "[d]"])
    qed
  qed
qed

lemma read_dispatched_ctx_at: "read_dispatched_ctx (dispatched_ctx d) = d"
  using dispatched_ctx_read by simp

lemma wp_bpf_dispatch_task:
  assumes ok: "libbpf_ok os rx tx"
  shows "wp (bpf_dispatch_task os d) (\<lambda>r (b', w'). b' = b \<and> rx w' = rx w \<and>
     tx w' = tx w @ (if r = Inr () then [dispatched_ctx d] else [])) (b, w)"
proof -
  obtain r w1 where c: "os_reserve os DISPATCHED_TASK_CTX_SIZE w = (r, w1)" by fastforce
  note res = libbpf_reserve [OF ok c]
  show ?thesis
  proof (cases r)
    case (Inl e)
    then show ?thesis using res c by (simp add: bpf_dispatch_task_def wp_simps)
  next
    case (Inr p)
    obtain bytes al where p: "p = (bytes, al)" by fastforce
    then have len: "length bytes = DISPATCHED_TASK_CTX_SIZE" al using res Inr by auto
    obtain r2 w2 where s: "os_submit os (dispatched_ctx d) w1 = (r2, w2)" by fastforce
    show ?thesis
      using Inr p len c s libbpf_submit [OF ok s] res by (auto simp: bpf_dispatch_task_def wp_simps)
  qed
qed

lemma wp_dequeue_exited_pid:
  assumes ok: "libbpf_ok os rx tx"
  shows "wp (dequeue_exited_pid os) (\<lambda>r (b', w'). bss_present b' = bss_present b \<and> rx w' = rx w \<and> tx w' = tx w) (b, w)"
proof -
  obtain msg result w1 where c: "os_consume_exits os w = ((msg, result), w1)" by (metis prod.exhaust)
  have "rx w1 = rx w" "tx w1 = tx w" using libbpf_silent(9,10) [OF ok, of w] c by auto
  then show ?thesis
    using c by (auto simp: dequeue_exited_pid_def take_exited_slot_def exited_callback_def wp_simps Let_def
        split: option.splits sum.splits)
qed

section \<open>A kernel that delivers a given list of messages\<close>

text \<open>The world is the messages still to deliver, those delivered, and those submitted.\<close>

type_synonym script = "u8 list list \<times> u8 list list \<times> u8 list list"

definition script_os :: "script os" where
  "script_os = \<lparr>os_now = (\<lambda>w. (5000, w)), os_instant = (\<lambda>w. (0, w)), os_counter = (\<lambda>c w. (1, w)),
     os_set_counter = (\<lambda>c v w. w),
     os_consume_queued = (\<lambda>(p, r, t). case p of
        [] \<Rightarrow> ((None, \<lambda>c. 0), ([], r, t))
      | d # ds \<Rightarrow> ((Some d, \<lambda>c. if sint c < 0 then c else 1), (ds, r @ [d], t))),
     os_consume_exits = (\<lambda>w. ((None, \<lambda>c. 0), w)),
     os_reserve = (\<lambda>n w. (Inr (replicate n 0, True), w)),
     os_submit = (\<lambda>b (p, r, t). (Inr (), (p, r, t @ [b]))),
     os_discard = (\<lambda>b w. w), os_yield = (\<lambda>w. w),
     os_shutdown = (\<lambda>w. (False, w)), os_uei_exited = (\<lambda>w. (False, w))\<rparr>"

abbreviation (input) script_rx :: "script \<Rightarrow> u8 list list" where "script_rx \<equiv> (\<lambda>w. fst (snd w))"
abbreviation (input) script_tx :: "script \<Rightarrow> u8 list list" where "script_tx \<equiv> (\<lambda>w. snd (snd w))"

lemma script_ok: "libbpf_ok script_os script_rx script_tx"
  by (auto simp: libbpf_ok_def silent_def consume_ok_def reserve_ok_def submit_ok_def script_os_def
      split: list.splits)

definition bpf_started :: bpf_scheduler where
  "bpf_started = \<lparr>bss_present = True, queued_slot = None, exited_pid_slot = None, struct_ops_attached = True\<rparr>"

section \<open>Properties\<close>

text \<open>
  \<open>dequeue_task\<close> neither invents nor loses a task: it returns, without panicking, a task exactly
  when the kernel delivered a well-formed message, that task being the decoded message, whatever was
  left in the slot before; nothing is submitted.
\<close>

theorem dequeue_task_delivers:
  assumes "libbpf_ok os rx tx" and "bss_present b"
  shows "\<exists>r b' w'. dequeue_task os (b, w) = Inr (r, (b', w')) \<and> tx w' = tx w \<and>
    (\<exists>msgs. rx w' = rx w @ msgs \<and> received msgs = (case r of Inr (Some t) \<Rightarrow> [t] | _ \<Rightarrow> []))"
  using wp_dequeue_task [OF assms, of w] by (auto simp: wp_iff)

theorem dequeue_task_delivers_witness:
  "\<exists>r b' w'. dequeue_task script_os (bpf_started, ([queued_ctx sample_task], [], [])) = Inr (r, (b', w'))"
  using dequeue_task_delivers [OF script_ok, of bpf_started] by (fastforce simp: bpf_started_def)

text \<open>
  \<open>dispatch_task\<close> submits exactly the context of its task when it reports success and nothing
  when it reports an error, and never panics; so on success the BPF side reads the task back.
\<close>

theorem dispatch_task_sends:
  assumes "libbpf_ok os rx tx"
  shows "\<exists>r b' w'. bpf_dispatch_task os d (b, w) = Inr (r, (b', w')) \<and> rx w' = rx w \<and>
    submitted (tx w') = submitted (tx w) @ (if r = Inr () then [d] else [])"
  using wp_bpf_dispatch_task [OF assms, of d b w]
  by (fastforce simp: wp_iff submitted_def read_dispatched_ctx_at)

theorem dispatch_task_sends_witness:
  "\<exists>r b' w'. bpf_dispatch_task script_os (dispatched_new sample_task) (bpf_started, ([], [], [])) = Inr (r, (b', w'))"
  using dispatch_task_sends [OF script_ok] by blast

section \<open>Asking for an idle CPU\<close>

text \<open>
  \<open>select_cpu\<close> runs a program of the BPF side on the bytes of a \<open>task_cpu_arg\<close>; \<open>test_run\<close> is that run, an error
  or the program's return value.
\<close>

definition task_cpu_arg :: "i32 \<Rightarrow> i32 \<Rightarrow> u64 \<Rightarrow> u8 list" where
  "task_cpu_arg pid cpu flags = write_u32 pid @ write_u32 cpu @ write_u64 flags"

definition select_cpu ::
    "(u8 list \<Rightarrow> 'w \<Rightarrow> (i32 + u32) \<times> 'w) \<Rightarrow> i32 \<Rightarrow> i32 \<Rightarrow> u64 \<Rightarrow> (bpf_scheduler \<times> 'w, i32) action" where
  "select_cpu test_run pid cpu flags =
     bindS (ask (test_run (task_cpu_arg pid cpu flags))) (\<lambda>out. case out of
       Inr return_value \<Rightarrow> return return_value
     | Inl err \<Rightarrow> return RL_CPU_ANY)"

text \<open>
  The program reads back the arguments it was called with, and its answer is returned as it is; when the run
  fails, any CPU will do.
\<close>

theorem select_cpu_passes_arguments:
  "\<exists>r w'. select_cpu test_run pid cpu flags (b, w) = Inr (r, (b, w')) \<and>
    r = (case fst (test_run (task_cpu_arg pid cpu flags) w) of Inr v \<Rightarrow> v | Inl _ \<Rightarrow> RL_CPU_ANY) \<and>
    read_u32 (task_cpu_arg pid cpu flags) 0 = pid \<and> read_u32 (task_cpu_arg pid cpu flags) 4 = cpu \<and>
    read_u64 (task_cpu_arg pid cpu flags) 8 = flags"
proof -
  have "read_u32 (task_cpu_arg pid cpu flags) 0 = pid" by (rule read_u32_at [of _ "[]"]) (simp_all add: task_cpu_arg_def)
  moreover have "read_u32 (task_cpu_arg pid cpu flags) 4 = cpu"
    by (rule read_u32_at [of _ "write_u32 pid"]) (simp_all add: task_cpu_arg_def)
  moreover have "read_u64 (task_cpu_arg pid cpu flags) 8 = flags"
    by (rule read_u64_at [of _ "write_u32 pid @ write_u32 cpu" _ "[]"]) (simp_all add: task_cpu_arg_def)
  moreover have "wp (select_cpu test_run pid cpu flags) (\<lambda>r (b', w').
      b' = b \<and> r = (case fst (test_run (task_cpu_arg pid cpu flags) w) of Inr v \<Rightarrow> v | Inl _ \<Rightarrow> RL_CPU_ANY)) (b, w)"
    by (auto simp: select_cpu_def wp_simps split: sum.split)
  ultimately show ?thesis by (auto simp: wp_iff)
qed

end
