(* ===== verification/Lifetime_Table.thy ===== *)
theory Lifetime_Table
  imports Pid_Table
begin

text \<open>
  The per-PID lifetime table of \<open>src/main.rs\<close>: \<open>TaskLifetime\<close>, the two arrays \<open>lifetime_pids\<close> and
  \<open>lifetime_table\<close>, and the \<open>lifetime_*\<close> helpers of the scheduler. It repeats the probing code of the
  trust table with constants of its own; both are the same \<open>pid_store\<close>.
\<close>

section \<open>Model\<close>

record task_lifetime =
  slice_assigned_ns :: u64
  slice_used_ns :: u64
  lt_preempted :: bool
  lt_cheat_flagged :: bool
  interactive_slice_credit_ns :: u64
  interactive_slice_bias_ns :: "64 word"
  last_slice_ns :: u64
  last_seen_ns :: u64
  last_stop_ts :: u64

definition lifetime_default :: task_lifetime where
  "lifetime_default = \<lparr>slice_assigned_ns = 0, slice_used_ns = 0, lt_preempted = False, lt_cheat_flagged = False,
     interactive_slice_credit_ns = 0, interactive_slice_bias_ns = 0, last_slice_ns = 0, last_seen_ns = 0,
     last_stop_ts = 0\<rparr>"

record lifetimes =
  lifetime_pids :: "nat \<Rightarrow> i32"
  lifetime_table :: "nat \<Rightarrow> task_lifetime"

definition lifetimes_zeroed :: lifetimes where
  "lifetimes_zeroed = \<lparr>lifetime_pids = (\<lambda>_. 0), lifetime_table = (\<lambda>_. lifetime_default)\<rparr>"

definition lifetime_find_slot :: "lifetimes \<Rightarrow> i32 \<Rightarrow> nat option" where
  "lifetime_find_slot l pid = find_slot (lifetime_pids l) pid"

definition lifetime_find_or_insert_slot :: "lifetimes \<Rightarrow> i32 \<Rightarrow> nat \<times> lifetimes" where
  "lifetime_find_or_insert_slot l pid =
     (case insert_probe (lifetime_pids l) pid of
        Existing s \<Rightarrow> (s, l)
      | Fresh dst \<Rightarrow> (dst, l\<lparr>lifetime_pids := (lifetime_pids l)(dst := pid),
                            lifetime_table := (lifetime_table l)(dst := lifetime_default)\<rparr>))"

definition lifetime_get :: "lifetimes \<Rightarrow> i32 \<Rightarrow> task_lifetime option" where
  "lifetime_get l pid =
     (case lifetime_find_slot l pid of
        Some s \<Rightarrow> if 0 < sint pid then Some (lifetime_table l s) else None
      | None \<Rightarrow> None)"

text \<open>Updating through the reference \<open>lifetime_get_mut_or_default\<close> returns.\<close>

definition lifetime_update :: "(task_lifetime \<Rightarrow> task_lifetime) \<Rightarrow> lifetimes \<Rightarrow> i32 \<Rightarrow> lifetimes" where
  "lifetime_update f l pid =
     (case lifetime_find_or_insert_slot l pid of
        (s, l') \<Rightarrow> l'\<lparr>lifetime_table := (lifetime_table l')(s := f (lifetime_table l' s))\<rparr>)"

definition lifetime_evict :: "lifetimes \<Rightarrow> i32 \<Rightarrow> lifetimes" where
  "lifetime_evict l pid =
     (case lifetime_find_slot l pid of
        Some s \<Rightarrow> l\<lparr>lifetime_pids := (lifetime_pids l)(s := PID_TOMBSTONE),
                    lifetime_table := (lifetime_table l)(s := lifetime_default)\<rparr>
      | None \<Rightarrow> l)"

section \<open>The table is a PID store\<close>

interpretation lifetime: pid_store lifetime_pids lifetime_table lifetime_default
    lifetime_find_or_insert_slot lifetime_evict
  by unfold_locales (auto simp: lifetime_find_or_insert_slot_def lifetime_evict_def lifetime_find_slot_def)

definition lifetimes_valid :: "lifetimes \<Rightarrow> bool" where
  "lifetimes_valid l \<longleftrightarrow> pids_valid (lifetime_pids l)"

lemma lifetimes_valid_zeroed: "lifetimes_valid lifetimes_zeroed"
  using pids_valid_empty by (simp add: lifetimes_valid_def lifetimes_zeroed_def PID_EMPTY_def)

lemma lifetime_get_view:
  "is_pos_i32 pid \<Longrightarrow> lifetime_get l pid = pid_view (lifetime_pids l) (lifetime_table l) pid"
  by (simp add: lifetime_get_def lifetime_find_slot_def pid_view_def split: option.splits)

lemma lifetimes_valid_update: "lifetimes_valid l \<Longrightarrow> live pid \<Longrightarrow> lifetimes_valid (lifetime_update f l pid)"
  using lifetime.insert_valid(1) by (fastforce simp: lifetimes_valid_def lifetime_update_def split: prod.splits)

lemma lifetimes_valid_evict: "lifetimes_valid l \<Longrightarrow> lifetimes_valid (lifetime_evict l pid)"
  using lifetime.evict_valid by (simp add: lifetimes_valid_def)

lemma lifetime_get_update_same:
  assumes "lifetimes_valid l" and "is_pos_i32 pid"
  shows "lifetime_get (lifetime_update f l pid) pid =
    Some (f (case lifetime_get l pid of Some lt \<Rightarrow> lt | None \<Rightarrow> lifetime_default))"
proof -
  obtain s l' where ins: "lifetime_find_or_insert_slot l pid = (s, l')" by fastforce
  have v: "pids_valid (lifetime_pids l)" and pid: "live pid"
    using assms live_pos by (auto simp: lifetimes_valid_def)
  show ?thesis
    using lifetime.insert_valid(2) [OF v pid ins] lifetime.insert_view [OF v pid ins] assms(2)
    by (simp add: lifetime_get_view pid_view_def lifetime_update_def ins)
qed

lemma lifetime_get_update_other:
  assumes "lifetimes_valid l" and "is_pos_i32 pid" and "is_pos_i32 q" and "q \<noteq> pid"
    and "\<not> table_full (lifetime_pids l)"
  shows "lifetime_get (lifetime_update f l pid) q = lifetime_get l q"
proof -
  obtain s l' where ins: "lifetime_find_or_insert_slot l pid = (s, l')" by fastforce
  have v: "pids_valid (lifetime_pids l)" and pid: "live pid" "live q"
    using assms live_pos by (auto simp: lifetimes_valid_def)
  have "pid_view (lifetime_pids l') (lifetime_table l') q = pid_view (lifetime_pids l) (lifetime_table l) q"
    using lifetime.insert_other [OF v pid(1) pid(2) assms(4) ins] assms(5) by blast
  moreover have "find_slot (lifetime_pids l') q \<noteq> Some s"
    using lifetime.insert_valid(2) [OF v pid(1) ins] find_slot_Some assms(4) by metis
  ultimately show ?thesis
    using assms(3)
    by (cases "find_slot (lifetime_pids l') q") (auto simp: lifetime_get_view pid_view_def lifetime_update_def ins)
qed

lemma lifetime_get_evict:
  assumes "lifetimes_valid l" and "is_pos_i32 pid" and "is_pos_i32 q"
  shows "lifetime_get (lifetime_evict l pid) q = (if q = pid then None else lifetime_get l q)"
  using lifetime.evict_view [of l pid q] assms live_pos [of pid] live_pos [of q]
  by (simp add: lifetimes_valid_def lifetime_get_view)

text \<open>Rows no update touches keep any property that default rows have.\<close>

lemma lifetime_update_rows:
  assumes "\<forall>s. P (lifetime_table l s)" and "P lifetime_default" and "\<And>lt. P (f lt)"
  shows "\<forall>s. P (lifetime_table (lifetime_update f l pid) s)"
  using assms
  by (auto simp: lifetime_update_def lifetime_find_or_insert_slot_def split: probe_result.splits)

lemma lifetime_evict_rows:
  "\<forall>s. P (lifetime_table l s) \<Longrightarrow> P lifetime_default \<Longrightarrow> \<forall>s. P (lifetime_table (lifetime_evict l pid) s)"
  by (auto simp: lifetime_evict_def split: option.splits)

section \<open>Properties\<close>

text \<open>
  C19. The lifetime table is a map from positive PIDs to rows: an update through the returned reference
  changes the row of its PID (starting from the default row for a new one), an eviction removes it,
  and neither changes the row another PID reads, whatever PIDs collide, unless the table is full.
\<close>

theorem lifetime_table_is_map:
  assumes "lifetimes_valid l" and "is_pos_i32 pid" and "is_pos_i32 q" and "\<not> table_full (lifetime_pids l)"
  shows "lifetime_get (lifetime_update f l pid) q =
      (if q = pid then Some (f (case lifetime_get l pid of Some lt \<Rightarrow> lt | None \<Rightarrow> lifetime_default))
       else lifetime_get l q) \<and>
    lifetime_get (lifetime_evict l pid) q = (if q = pid then None else lifetime_get l q)"
  using lifetime_get_update_same [OF assms(1,2)] lifetime_get_update_other [OF assms(1-3) _ assms(4)]
    lifetime_get_evict [OF assms(1-3)] by simp

theorem lifetime_table_is_map_witness:
  "lifetime_get (lifetime_update (\<lambda>lt. lt\<lparr>last_slice_ns := 9\<rparr>) lifetimes_zeroed 5) 5 =
     Some (lifetime_default\<lparr>last_slice_ns := 9\<rparr>)"
proof -
  have "\<not> table_full (lifetime_pids lifetimes_zeroed)"
    by (auto simp: table_full_def lifetimes_zeroed_def live_def PID_EMPTY_def TABLE_SIZE_def intro!: exI [of _ 0])
  moreover have "lifetime_get lifetimes_zeroed 5 = None"
    by (cases "find_slot (\<lambda>_. 0) 5")
      (auto simp: lifetime_get_def lifetime_find_slot_def lifetimes_zeroed_def dest: find_slot_Some)
  ultimately show ?thesis
    using lifetime_table_is_map [OF lifetimes_valid_zeroed, of 5 5 "\<lambda>lt. lt\<lparr>last_slice_ns := 9\<rparr>"] by simp
qed

end
