(* ===== verification/Stats.thy ===== *)
theory Stats
  imports Ieee_Float
begin

text \<open>
  \<open>src/stats.rs\<close>: the metrics snapshot, the one-line health summary \<open>tldr\<close>, the difference of two snapshots
  and the stats reader that sends such differences, and the text form of a snapshot. The summary's load
  thresholds are compared in f64; an integer form of the same decision table is shown equivalent.
\<close>

section \<open>Metrics\<close>

record metrics =
  elapsed_secs :: u64
  nr_cpus :: u64
  nr_running :: u64
  nr_queued :: u64
  nr_scheduled :: u64
  nr_page_faults :: u64
  nr_user_dispatches :: u64
  nr_kernel_dispatches :: u64
  nr_local_dispatches :: u64
  nr_llc_dispatches :: u64
  nr_node_dispatches :: u64
  nr_shared_dispatches :: u64
  nr_xllc_steals :: u64
  nr_xnode_steals :: u64
  nr_cancel_dispatches :: u64
  nr_bounce_dispatches :: u64
  nr_failed_dispatches :: u64
  nr_sched_congested :: u64
  nr_interactive :: u64
  nr_compute :: u64
  nr_iowait :: u64
  nr_realtime :: u64
  nr_unknown :: u64
  nr_quarantined :: u64
  nr_flagged :: u64
  base_slice_us :: u64
  assigned_slice_us :: u64
  slice_min_us :: u64
  slice_max_us :: u64
  inference_us :: u64
  sched_p50_us :: u64
  sched_p95_us :: u64
  sched_p99_us :: u64

definition metrics_default :: metrics where
  "metrics_default = \<lparr>elapsed_secs = 0, nr_cpus = 0, nr_running = 0, nr_queued = 0, nr_scheduled = 0,
     nr_page_faults = 0, nr_user_dispatches = 0, nr_kernel_dispatches = 0, nr_local_dispatches = 0,
     nr_llc_dispatches = 0, nr_node_dispatches = 0, nr_shared_dispatches = 0, nr_xllc_steals = 0,
     nr_xnode_steals = 0, nr_cancel_dispatches = 0, nr_bounce_dispatches = 0,
     nr_failed_dispatches = 0, nr_sched_congested = 0, nr_interactive = 0, nr_compute = 0,
     nr_iowait = 0, nr_realtime = 0, nr_unknown = 0, nr_quarantined = 0, nr_flagged = 0,
     base_slice_us = 0, assigned_slice_us = 0, slice_min_us = 0, slice_max_us = 0,
     inference_us = 0, sched_p50_us = 0, sched_p95_us = 0, sched_p99_us = 0\<rparr>"

text \<open>The counters that \<open>delta\<close> differentiates; all other fields are passed on as they are.\<close>

definition delta :: "metrics \<Rightarrow> metrics \<Rightarrow> metrics" where
  "delta cur rhs = cur\<lparr>
     nr_user_dispatches := sat_sub (nr_user_dispatches cur) (nr_user_dispatches rhs),
     nr_kernel_dispatches := sat_sub (nr_kernel_dispatches cur) (nr_kernel_dispatches rhs),
     nr_local_dispatches := sat_sub (nr_local_dispatches cur) (nr_local_dispatches rhs),
     nr_llc_dispatches := sat_sub (nr_llc_dispatches cur) (nr_llc_dispatches rhs),
     nr_node_dispatches := sat_sub (nr_node_dispatches cur) (nr_node_dispatches rhs),
     nr_shared_dispatches := sat_sub (nr_shared_dispatches cur) (nr_shared_dispatches rhs),
     nr_xllc_steals := sat_sub (nr_xllc_steals cur) (nr_xllc_steals rhs),
     nr_xnode_steals := sat_sub (nr_xnode_steals cur) (nr_xnode_steals rhs),
     nr_cancel_dispatches := sat_sub (nr_cancel_dispatches cur) (nr_cancel_dispatches rhs),
     nr_bounce_dispatches := sat_sub (nr_bounce_dispatches cur) (nr_bounce_dispatches rhs),
     nr_failed_dispatches := sat_sub (nr_failed_dispatches cur) (nr_failed_dispatches rhs),
     nr_sched_congested := sat_sub (nr_sched_congested cur) (nr_sched_congested rhs),
     nr_page_faults := sat_sub (nr_page_faults cur) (nr_page_faults rhs),
     nr_interactive := sat_sub (nr_interactive cur) (nr_interactive rhs),
     nr_compute := sat_sub (nr_compute cur) (nr_compute rhs),
     nr_iowait := sat_sub (nr_iowait cur) (nr_iowait rhs),
     nr_realtime := sat_sub (nr_realtime cur) (nr_realtime rhs),
     nr_unknown := sat_sub (nr_unknown cur) (nr_unknown rhs)\<rparr>"

text \<open>The reader of a stats connection: it keeps the snapshot it got last and sends the difference to it.\<close>

definition stats_read :: "metrics \<Rightarrow> metrics \<Rightarrow> metrics \<times> metrics" where
  "stats_read prev cur = (delta cur prev, cur)"

fun stats_session :: "metrics \<Rightarrow> metrics list \<Rightarrow> metrics list" where
  "stats_session prev [] = []"
| "stats_session prev (cur # rest) = (case stats_read prev cur of (d, prev') \<Rightarrow> d # stats_session prev' rest)"

section \<open>The health summary\<close>

definition classified :: "metrics \<Rightarrow> u64" where
  "classified m = nr_interactive m + nr_compute m + nr_iowait m + nr_realtime m"

definition compute_heavy :: "metrics \<Rightarrow> bool" where
  "compute_heavy m \<longleftrightarrow> 0 < classified m \<and> classified m div 2 < nr_compute m"

definition interactive_heavy :: "metrics \<Rightarrow> bool" where
  "interactive_heavy m \<longleftrightarrow> 0 < classified m \<and> classified m div 2 < nr_interactive m"

text \<open>The cascade of \<open>tldr\<close>; \<open>hot p\<close> stands for the test that the load is at least \<open>p\<close> percent.\<close>

definition tldr_table :: "(nat \<Rightarrow> bool) \<Rightarrow> metrics \<Rightarrow> string" where
  "tldr_table hot m =
     (if 0 < nr_page_faults m then ''Scheduler hit major page faults; check memory pressure.''
      else if 0 < nr_failed_dispatches m then ''Dispatch failures detected; inspect dmesg.''
      else if 0 < nr_queued m \<or> 0 < nr_scheduled m then
        ''Userspace fallback is active; BPF fast path is not covering this load.''
      else if 0 < nr_sched_congested m then
        ''Compatibility fallback is congested; BPF-side dispatch needs attention.''
      else if 0 < nr_flagged m \<or> 0 < nr_quarantined m then
        ''Observability watchlist has active PIDs; review repeated adverse exits.''
      else if hot 90 \<and> sat_mul (sat_add (nr_llc_dispatches m) (nr_node_dispatches m)) 2 < nr_shared_dispatches m \<and>
        0 < nr_shared_dispatches m then
        ''System saturated; shared spill dominates, check LLC and node balance.''
      else if hot 90 \<and> 0 < nr_kernel_dispatches m then
        ''System saturated; BPF local/LLC/node/shared hierarchy is carrying the load.''
      else if hot 85 \<and> compute_heavy m then
        ''Heavy compute load detected; watch fallback activity and tail latency.''
      else if hot 85 \<and> interactive_heavy m then
        ''Interactive-heavy load is running hot; check frame pacing and wake behavior.''
      else if hot 85 then ''Heavy mixed load; BPF fast path is still the primary scheduler.''
      else if hot 65 then ''Moderate load; locality and LLC spill behavior look nominal.''
      else if interactive_heavy m \<and> \<not> hot 50 then
        ''Mostly interactive load; BPF wakeup path is staying responsive.''
      else if compute_heavy m \<and> \<not> hot 65 then ''Compute work is present without saturation.''
      else if \<not> hot 10 then ''System mostly idle.''
      else if \<not> hot 50 then ''Balanced light load; BPF fast path is in control.''
      else ''Scheduler healthy.'')"

definition load :: "metrics \<Rightarrow> rat" where
  "load m = div64 (u64_to_f64 (nr_running m)) (u64_to_f64 (max (nr_cpus m) 1))"

definition tldr :: "metrics \<Rightarrow> string" where
  "tldr m = tldr_table (\<lambda>p. rnd64 (of_nat p / 100) \<le> load m) m"

section \<open>The text form\<close>

fun dec :: "nat \<Rightarrow> string" where
  "dec n = (if n < 10 then [char_of (48 + n)] else dec (n div 10) @ [char_of (48 + n mod 10)])"

declare dec.simps [simp del]

definition shown :: "u64 \<Rightarrow> string" where "shown x = dec (unat x)"
definition pad_left :: "char \<Rightarrow> nat \<Rightarrow> string \<Rightarrow> string" where "pad_left c n s = replicate (n - length s) c @ s"
definition pad_right :: "nat \<Rightarrow> string \<Rightarrow> string" where "pad_right n s = s @ replicate (n - length s) CHR '' ''"

definition uptime :: "u64 \<Rightarrow> u64 \<times> u64 \<times> u64 \<times> u64 \<times> u64 \<times> u64" where
  "uptime secs =
     (let days_total = secs div 86400; days_after_years = days_total mod 365
      in (days_total div 365, days_after_years div 30, days_after_years mod 30,
          (secs mod 86400) div 3600, (secs mod 3600) div 60, secs mod 60))"

text \<open>The arrow and the micro sign are written as their UTF-8 bytes.\<close>

definition headline :: "string \<Rightarrow> metrics \<Rightarrow> string" where
  "headline version m =
     (case uptime (elapsed_secs m) of (years, months, days, hours, minutes, seconds) \<Rightarrow>
      ''[cognis v'' @ version @ ''] elapsed: '' @ shown years @ ''y'' @ shown months @ ''m'' @ shown days @ ''d '' @
      pad_left CHR ''0'' 2 (shown hours) @ ''h:'' @ pad_left CHR ''0'' 2 (shown minutes) @ ''m:'' @
      pad_left CHR ''0'' 2 (shown seconds) @ ''s | tldr: '' @ pad_right 55 (tldr m) @
      '' | r:'' @ pad_left CHR '' '' 3 (shown (nr_running m)) @ ''/'' @ pad_right 3 (shown (nr_cpus m)) @
      '' q:'' @ pad_right 3 (shown (nr_queued m)) @ ''/'' @ pad_right 3 (shown (nr_scheduled m)) @
      '' | pf:'' @ pad_right 4 (shown (nr_page_faults m)) @
      '' | d'' @ [CHR 0xE2, CHR 0x86, CHR 0x92] @ ''u:'' @ pad_right 6 (shown (nr_user_dispatches m)) @
      '' k:'' @ pad_right 4 (shown (nr_kernel_dispatches m)) @ '' c:'' @ pad_right 4 (shown (nr_cancel_dispatches m)) @
      '' b:'' @ pad_right 4 (shown (nr_bounce_dispatches m)) @ '' f:'' @ pad_right 4 (shown (nr_failed_dispatches m)) @
      '' sched:'' @ pad_right 5 (shown (sched_p50_us m)) @ ''/'' @ pad_right 5 (shown (sched_p95_us m)) @ ''/'' @
      pad_right 5 (shown (sched_p99_us m)) @ '' | cong:'' @ pad_right 4 (shown (nr_sched_congested m)) @ '' |'')"

definition slashed :: "u64 list \<Rightarrow> string" where
  "slashed xs = concat (map (\<lambda>x. ''/'' @ shown x) xs)"

definition route_line :: "metrics \<Rightarrow> string" where
  "route_line m = replicate 13 CHR '' '' @ ''route(local/llc/node/shared/xllc/xnode): '' @ shown (nr_local_dispatches m) @
     slashed [nr_llc_dispatches m, nr_node_dispatches m, nr_shared_dispatches m, nr_xllc_steals m, nr_xnode_steals m] @
     '' | slice(base/assigned):'' @ shown (base_slice_us m) @ slashed [assigned_slice_us m] @
     [CHR 0xC2, CHR 0xB5] @ ''s''"

definition label_line :: "metrics \<Rightarrow> string" where
  "label_line m = replicate 13 CHR '' '' @ ''fallback labels(I/C/IO/RT/U): '' @ shown (nr_interactive m) @
     slashed [nr_compute m, nr_iowait m, nr_realtime m, nr_unknown m] @
     '' | watchlist:'' @ shown (nr_quarantined m) @ slashed [nr_flagged m]"

abbreviation (input) newline :: char where "newline \<equiv> CHR 0x0A"

definition format_metrics :: "string \<Rightarrow> metrics \<Rightarrow> string" where
  "format_metrics version m =
     headline version m @ [newline] @ route_line m @ [newline] @ label_line m @ [newline]"

section \<open>Differences\<close>

definition counter_fields :: "(metrics \<Rightarrow> u64) list" where
  "counter_fields = [nr_user_dispatches, nr_kernel_dispatches, nr_local_dispatches, nr_llc_dispatches,
     nr_node_dispatches, nr_shared_dispatches, nr_xllc_steals, nr_xnode_steals, nr_cancel_dispatches,
     nr_bounce_dispatches, nr_failed_dispatches, nr_sched_congested, nr_page_faults, nr_interactive, nr_compute,
     nr_iowait, nr_realtime, nr_unknown]"

definition gauge_fields :: "(metrics \<Rightarrow> u64) list" where
  "gauge_fields = [elapsed_secs, nr_cpus, nr_running, nr_queued, nr_scheduled, nr_quarantined, nr_flagged,
     base_slice_us, assigned_slice_us, slice_min_us, slice_max_us, inference_us, sched_p50_us, sched_p95_us,
     sched_p99_us]"

lemma delta_counter: "f \<in> set counter_fields \<Longrightarrow> f (delta cur rhs) = sat_sub (f cur) (f rhs)"
  by (auto simp: counter_fields_def delta_def)

lemma delta_gauge: "g \<in> set gauge_fields \<Longrightarrow> g (delta cur rhs) = g cur"
  by (auto simp: gauge_fields_def delta_def)

text \<open>A counter that never decreases along a connection.\<close>

fun rising :: "(metrics \<Rightarrow> u64) \<Rightarrow> metrics \<Rightarrow> metrics list \<Rightarrow> bool" where
  "rising f prev [] = True"
| "rising f prev (cur # rest) = (f prev \<le> f cur \<and> rising f cur rest)"

lemma rising_last: "rising f prev ms \<Longrightarrow> f prev \<le> f (last (prev # ms))"
  by (induction ms arbitrary: prev) (fastforce split: if_splits)+

section \<open>Load thresholds\<close>

text \<open>Below 1 a double is within \<open>2^-54\<close> of what it rounds.\<close>

lemma rnd64_unit_error:
  assumes "0 < x" and "x < 1" shows "\<bar>rnd64 x - x\<bar> \<le> 1 / 2 ^ 54"
proof -
  let ?e = "quantum 53 (- 1074) x"
  have "ilog2 x \<le> - 1"
    using ilog2_bounds(1) [OF assms(1)] pow2_less_iff [of "ilog2 x" 0] assms(2) by (simp add: pow2_def)
  then have e: "?e \<le> - 53" using assms(1) by (simp add: quantum_def)
  have "rnd64 x - x = (of_int (rne (x / pow2 ?e)) - x / pow2 ?e) * pow2 ?e"
    using assms(1) by (simp add: rnd64_def rnd_def Let_def left_diff_distrib)
  then have "\<bar>rnd64 x - x\<bar> = \<bar>of_int (rne (x / pow2 ?e)) - x / pow2 ?e\<bar> * pow2 ?e"
    by (simp add: abs_mult abs_of_pos)
  also have "\<dots> \<le> 1 / 2 * pow2 ?e" using rne_error by (intro mult_right_mono) (auto simp: less_imp_le)
  also have "\<dots> \<le> 1 / 2 * pow2 (- 53)" using e by (simp add: pow2_le_iff)
  finally show ?thesis by (simp add: pow2_def)
qed

text \<open>A fraction of small numbers below a percentage stays below it after rounding.\<close>

lemma percent_below:
  assumes b: "0 < b" "b < 2 ^ 40" and p: "p \<le> 100" and lt: "100 * a < p * b"
  shows "rnd64 (of_nat a / of_nat b) < rnd64 (of_nat p / 100)"
proof -
  let ?x = "of_nat a / of_nat b :: rat" and ?c = "of_nat p / 100 :: rat"
  have pos: "0 < p" using lt by (cases p) simp_all
  have "of_nat (100 * a + 1) \<le> (of_nat (p * b) :: rat)" using lt by (simp only: of_nat_le_iff)
  then have gap: "?x + 1 / (100 * of_nat b) \<le> ?c" using b(1) by (simp add: field_simps)
  have "1 / 2 ^ 50 \<le> (1 :: rat) / (100 * of_nat b)"
  proof -
    have "of_nat (100 * b) \<le> (of_nat (2 ^ 50) :: rat)" using b(2) by (simp only: of_nat_le_iff) simp
    then show ?thesis using b(1) by (simp add: field_simps)
  qed
  with gap have gap': "?x + 1 / 2 ^ 50 \<le> ?c" by linarith
  have c: "rnd64 ?c \<ge> ?c - 1 / 2 ^ 54"
  proof (cases "p = 100")
    case True
    then show ?thesis using f64.one by simp
  next
    case False
    then have "\<bar>rnd64 ?c - ?c\<bar> \<le> 1 / 2 ^ 54" using pos p by (intro rnd64_unit_error) simp_all
    then show ?thesis unfolding abs_le_iff by linarith
  qed
  have x: "rnd64 ?x \<le> ?x + 1 / 2 ^ 54"
  proof (cases "a = 0")
    case True
    then show ?thesis using f64.zero by simp
  next
    case False
    have "?c \<le> 1" using p by simp
    moreover have "0 < 1 / (2 :: rat) ^ 50" by simp
    ultimately have "?x < 1" using gap' by linarith
    moreover have "0 < ?x" using False b(1) by simp
    ultimately have "\<bar>rnd64 ?x - ?x\<bar> \<le> 1 / 2 ^ 54" by (intro rnd64_unit_error)
    then show ?thesis unfolding abs_le_iff by linarith
  qed
  show ?thesis using c x gap' by simp
qed

lemma tldr_table_cong:
  assumes "\<And>p. p \<le> 100 \<Longrightarrow> h p = h' p" shows "tldr_table h m = tldr_table h' m"
proof -
  have "h 90 = h' 90" "h 85 = h' 85" "h 65 = h' 65" "h 50 = h' 50" "h 10 = h' 10" by (rule assms, simp)+
  then show ?thesis unfolding tldr_table_def by (simp only:)
qed

lemma load_percent:
  assumes "unat (nr_running m) < 2 ^ 53" and "unat (nr_cpus m) < 2 ^ 40" and p: "p \<le> 100"
  shows "rnd64 (of_nat p / 100) \<le> load m \<longleftrightarrow> p * max (unat (nr_cpus m)) 1 \<le> 100 * unat (nr_running m)"
proof -
  let ?a = "unat (nr_running m)" and ?b = "max (unat (nr_cpus m)) 1"
  have load: "load m = rnd64 (of_nat ?a / of_nat ?b)"
    using assms(1,2) rnd64_nat [of ?a] rnd64_nat [of ?b]
    by (simp add: load_def div64_def u64_to_f64_def unat_max_word)
  have b: "0 < ?b" "?b < 2 ^ 40" using assms(2) by simp_all
  show ?thesis
  proof (cases "p * ?b \<le> 100 * ?a")
    case True
    then have "of_nat (p * ?b) \<le> (of_nat (100 * ?a) :: rat)" by (simp only: of_nat_le_iff)
    then have "of_nat p / 100 \<le> (of_nat ?a / of_nat ?b :: rat)" using b(1) by (simp add: field_simps)
    then show ?thesis using True f64.mono unfolding load by blast
  next
    case False
    then show ?thesis using percent_below [OF b p, of ?a] unfolding load by simp
  qed
qed

section \<open>Properties\<close>

text \<open>
  C29. A stats connection loses no event: the differences it sends for a counter that never decreases add
  up to the counter's whole increase since the connection opened, and every gauge is passed on unchanged.
\<close>

theorem stats_session_telescopes:
  assumes "f \<in> set counter_fields" and "rising f first ms" and "g \<in> set gauge_fields"
  shows "sum_list (map (\<lambda>d. unat (f d)) (stats_session first ms)) = unat (f (last (first # ms))) - unat (f first) \<and>
    map g (stats_session first ms) = map g ms"
  using assms(2)
proof (induction ms arbitrary: first)
  case (Cons m ms)
  have "f m \<le> f (last (m # ms))" using Cons.prems rising_last [of f m ms] by simp
  then have "unat (f first) \<le> unat (f m)" "unat (f m) \<le> unat (f (last (m # ms)))"
    using Cons.prems by (simp_all add: word_le_nat_alt)
  then show ?case
    using Cons delta_counter [OF assms(1), of m first] delta_gauge [OF assms(3), of m first]
    by (simp add: stats_read_def unat_sat_sub)
qed simp

theorem stats_session_telescopes_witness:
  "map (\<lambda>d. unat (nr_user_dispatches d)) (stats_session metrics_default
      [metrics_default\<lparr>nr_user_dispatches := 4\<rparr>, metrics_default\<lparr>nr_user_dispatches := 9\<rparr>]) = [4, 5] \<and>
   sum_list (map (\<lambda>d. unat (nr_user_dispatches d)) (stats_session metrics_default
      [metrics_default\<lparr>nr_user_dispatches := 4\<rparr>, metrics_default\<lparr>nr_user_dispatches := 9\<rparr>])) = 9"
proof -
  let ?ms = "[metrics_default\<lparr>nr_user_dispatches := 4\<rparr>, metrics_default\<lparr>nr_user_dispatches := 9\<rparr>]"
  have "rising nr_user_dispatches metrics_default ?ms" by (simp add: metrics_default_def word_le_nat_alt)
  then have "sum_list (map (\<lambda>d. unat (nr_user_dispatches d)) (stats_session metrics_default ?ms)) = 9"
    using stats_session_telescopes [of nr_user_dispatches metrics_default ?ms nr_cpus]
    by (simp add: counter_fields_def gauge_fields_def metrics_default_def)
  moreover have "map (\<lambda>d. unat (nr_user_dispatches d)) (stats_session metrics_default ?ms) = [4, 5]"
    by (simp add: stats_read_def delta_def metrics_default_def unat_sat_sub)
  ultimately show ?thesis by blast
qed

text \<open>
  C30. The health summary needs no floating point: for all realistic counts its load thresholds agree with
  exact integer comparisons of \<open>100 * running\<close> with \<open>p * cpus\<close>, so the message shown is that of the integer
  decision table; rounding never moves a system across a threshold.
\<close>

theorem tldr_is_integer_table:
  assumes "unat (nr_running m) < 2 ^ 53" and "unat (nr_cpus m) < 2 ^ 40"
  shows "tldr m = tldr_table (\<lambda>p. p * max (unat (nr_cpus m)) 1 \<le> 100 * unat (nr_running m)) m"
  unfolding tldr_def using load_percent [OF assms] by (intro tldr_table_cong) simp

theorem tldr_is_integer_table_witness:
  "tldr (metrics_default\<lparr>nr_running := 17, nr_cpus := 20\<rparr>) =
     ''Heavy mixed load; BPF fast path is still the primary scheduler.''"
  using tldr_is_integer_table [of "metrics_default\<lparr>nr_running := 17, nr_cpus := 20\<rparr>"]
  by (simp add: tldr_table_def metrics_default_def compute_heavy_def interactive_heavy_def classified_def)

lemma part: "0 < b \<Longrightarrow> (n mod (b * c)) div b = (n div b) mod c" for n b c :: nat
  by (simp add: mod_mult2_eq)

text \<open>
  The uptime shown is exact: the six numbers recompose to the elapsed seconds with years of 365 and months
  of 30 days, each below its bound; the month can be 12, since a year of 365 days has 12 months of 30 and
  5 days.
\<close>

theorem uptime_exact:
  "case uptime secs of (y, mo, d, h, mi, s) \<Rightarrow>
     unat secs = (((unat y * 365 + unat mo * 30 + unat d) * 24 + unat h) * 60 + unat mi) * 60 + unat s \<and>
     unat mo \<le> 12 \<and> unat d < 30 \<and> unat h < 24 \<and> unat mi < 60 \<and> unat s < 60"
proof -
  let ?n = "unat secs"
  let ?m = "?n div 60" let ?h = "?m div 60" let ?d = "?h div 24"
  have divs: "?n div 3600 = ?h" "?n div 86400 = ?d" by (simp_all add: div_mult2_eq [symmetric])
  have mods: "(?n mod 86400) div 3600 = ?h mod 24" "(?n mod 3600) div 60 = ?m mod 60"
    using part [of 3600 ?n 24] part [of 60 ?n 60] divs(1) by simp_all
  have "?n = ?m * 60 + ?n mod 60" "?m = ?h * 60 + ?m mod 60" "?h = ?d * 24 + ?h mod 24"
    "?d = ?d div 365 * 365 + ?d mod 365" "?d mod 365 = ?d mod 365 div 30 * 30 + ?d mod 365 mod 30"
    by (simp_all only: div_mult_mod_eq)
  then have whole: "?n = (((?d div 365 * 365 + ?d mod 365 div 30 * 30 + ?d mod 365 mod 30) * 24 + ?h mod 24) * 60 + ?m mod 60) * 60 + ?n mod 60"
    by (simp only: add.assoc)
  have "?d mod 365 < 13 * 30" using mod_less_divisor [of 365 ?d] by simp
  then have month: "?d mod 365 div 30 \<le> 12" using less_mult_imp_div_less [of "?d mod 365" 13 30] by linarith
  have parts: "unat (secs div 86400 div 365) = ?d div 365" "unat (secs div 86400 mod 365 div 30) = ?d mod 365 div 30"
    "unat (secs div 86400 mod 365 mod 30) = ?d mod 365 mod 30" "unat (secs mod 86400 div 3600) = ?h mod 24"
    "unat (secs mod 3600 div 60) = ?m mod 60" "unat (secs mod 60) = ?n mod 60"
    by (simp_all add: unat_div unat_mod mods divs)
  show ?thesis
    unfolding uptime_def Let_def prod.case parts
    by (rule conjI [OF whole conjI [OF month]]) simp
qed

end
