(* ===== verification/Dashboard.thy ===== *)
theory Dashboard
  imports Stats Trust_Table Bpf_Messages "HOL-Library.Sublist"
begin

text \<open>
  The state and the computed content of the terminal dashboard (\<open>src/tui/dashboard.rs\<close>): the history ring,
  the watchlist, the gauges, the chart and the quit key. What ratatui makes of it is not modelled. The
  ring refines a sliding window of the pushed values; the chart encloses its points.
\<close>

section \<open>The history ring\<close>

definition HISTORY_LEN :: nat where "HISTORY_LEN = 120"

record history_ring =
  hist_buf :: "rat list"
  hist_head :: nat
  hist_len :: nat

definition history_new :: history_ring where
  "history_new = \<lparr>hist_buf = replicate HISTORY_LEN 0, hist_head = 0, hist_len = 0\<rparr>"

definition history_push :: "rat \<Rightarrow> history_ring \<Rightarrow> history_ring" where
  "history_push v r = r\<lparr>hist_buf := (hist_buf r)[hist_head r := v],
     hist_head := (hist_head r + 1) mod HISTORY_LEN,
     hist_len := (if hist_len r < HISTORY_LEN then hist_len r + 1 else hist_len r)\<rparr>"

definition iter_ordered :: "history_ring \<Rightarrow> rat list" where
  "iter_ordered r =
     (let start = (if hist_len r < HISTORY_LEN then 0 else hist_head r)
      in map (\<lambda>i. hist_buf r ! ((start + i) mod HISTORY_LEN)) [0..<hist_len r])"

definition max_or :: "rat \<Rightarrow> history_ring \<Rightarrow> rat" where
  "max_or floor_val r = fold (\<lambda>v m. max m v) (iter_ordered r) floor_val"

section \<open>Names\<close>

text \<open>Well-formed UTF-8, as \<open>from_utf8\<close> checks it.\<close>

definition cont :: "u8 \<Rightarrow> bool" where "cont b \<longleftrightarrow> 0x80 \<le> b \<and> b \<le> 0xBF"

fun utf8_ok :: "u8 list \<Rightarrow> bool" where
  "utf8_ok [] = True"
| "utf8_ok (a # bs) =
     (if a < 0x80 then utf8_ok bs
      else case bs of
        [] \<Rightarrow> False
      | b # cs \<Rightarrow>
          if 0xC2 \<le> a \<and> a \<le> 0xDF then cont b \<and> utf8_ok cs
          else case cs of
            [] \<Rightarrow> False
          | c # ds \<Rightarrow>
              if 0xE0 \<le> a \<and> a \<le> 0xEF then
                cont b \<and> (a = 0xE0 \<longrightarrow> 0xA0 \<le> b) \<and> (a = 0xED \<longrightarrow> b \<le> 0x9F) \<and> cont c \<and> utf8_ok ds
              else case ds of
                [] \<Rightarrow> False
              | d # es \<Rightarrow>
                  0xF0 \<le> a \<and> a \<le> 0xF4 \<and> cont b \<and> (a = 0xF0 \<longrightarrow> 0x90 \<le> b) \<and> (a = 0xF4 \<longrightarrow> b \<le> 0x8F) \<and>
                  cont c \<and> cont d \<and> utf8_ok es)"

definition comm_str :: "u8 list \<Rightarrow> u8 list" where
  "comm_str comm =
     (let name = take (case position (\<lambda>b. b = 0) comm of Some i \<Rightarrow> i | None \<Rightarrow> length comm) comm
      in if utf8_ok name then name else [63])"

text \<open>The same reading of the name in an entry of the trust table's list and in a queued task.\<close>

definition shame_comm_str :: "shame_entry \<Rightarrow> u8 list" where "shame_comm_str e = comm_str (se_comm e)"
definition queued_comm_str :: "queued_task \<Rightarrow> u8 list" where "queued_comm_str t = comm_str (qt_comm t)"

section \<open>The dashboard's state\<close>

record wall_entry =
  we_pid :: i32
  we_comm :: "u8 list"
  we_trust :: rat
  we_is_flagged :: bool

definition wall_entry_ZERO :: wall_entry where
  "wall_entry_ZERO = \<lparr>we_pid = 0, we_comm = replicate 16 0, we_trust = 0, we_is_flagged = False\<rparr>"

record dashboard_state =
  ds_metrics :: metrics
  ds_inference_us :: rat
  inference_hist :: history_ring
  watchlist_entries :: "wall_entry list"
  wall_len :: nat

definition dashboard_default :: dashboard_state where
  "dashboard_default = \<lparr>ds_metrics = metrics_default, ds_inference_us = 0, inference_hist = history_new,
     watchlist_entries = replicate SHAME_MAX wall_entry_ZERO, wall_len = 0\<rparr>"

definition push_history :: "dashboard_state \<Rightarrow> dashboard_state" where
  "push_history d = d\<lparr>inference_hist := history_push (ds_inference_us d) (inference_hist d)\<rparr>"

definition set_watchlist :: "wall_entry list \<Rightarrow> nat \<Rightarrow> dashboard_state \<Rightarrow> dashboard_state" where
  "set_watchlist entries len d = d\<lparr>watchlist_entries := entries, wall_len := min len SHAME_MAX\<rparr>"

section \<open>Panels\<close>

definition load_pct :: "metrics \<Rightarrow> u64" where
  "load_pct m = (if 0 < nr_cpus m then min (nr_running m * 100 div nr_cpus m) 100 else 0)"

text \<open>A gauge: filled and empty cells, the count and the percentage. Repeating a negative count would panic.\<close>

definition gauge_line :: "u64 \<Rightarrow> u64 \<Rightarrow> fault + (nat \<times> nat \<times> u64 \<times> u64)" where
  "gauge_line n whole =
     (if whole = 0 then Inl Panic
      else let pct = n * 100 div whole in
        if 20 < unat pct div 5 then Inl Panic else Inr (unat pct div 5, 20 - unat pct div 5, n, pct))"

definition classification_gauges :: "metrics \<Rightarrow> fault + (nat \<times> nat \<times> u64 \<times> u64) list" where
  "classification_gauges m =
     (let whole = max (classified m) 1 in
      bindR (gauge_line (nr_interactive m) whole) (\<lambda>a.
      bindR (gauge_line (nr_compute m) whole) (\<lambda>b.
      bindR (gauge_line (nr_iowait m) whole) (\<lambda>c.
      bindR (gauge_line (nr_realtime m) whole) (\<lambda>d. Inr [a, b, c, d])))))"

definition latency_budget :: "dashboard_state \<Rightarrow> string" where
  "latency_budget d = (if ds_inference_us d < 10 then ''under 10us'' else ''over 10us'')"

text \<open>The chart's points, with the upper bounds of both axes.\<close>

definition chart_points :: "dashboard_state \<Rightarrow> (rat \<times> rat) list" where
  "chart_points d = map (\<lambda>(i, v). (of_nat i, v)) (List.enumerate 0 (iter_ordered (inference_hist d)))"

definition chart_bounds :: "dashboard_state \<Rightarrow> rat \<times> rat" where
  "chart_bounds d = (of_nat (max (length (chart_points d)) 1), max (max_or 10 (inference_hist d)) 15)"

text \<open>The colours of the code, among those of ratatui.\<close>

datatype colour = Red | Yellow | Green | Blue | Magenta | Cyan | White | DarkGray | Black

text \<open>The rows of the watchlist panel; the height of the panel is a \<open>u16\<close>, the subtraction is on \<open>usize\<close>.\<close>

definition watch_row :: "wall_entry \<Rightarrow> i32 \<times> u8 list \<times> rat \<times> bool \<times> colour" where
  "watch_row e = (we_pid e, comm_str (we_comm e), we_trust e, we_is_flagged e,
     if we_trust e < rnd64 (2/10) then Red else Yellow)"

definition watch_rows :: "u16 \<Rightarrow> wall_entry list \<Rightarrow> (i32 \<times> u8 list \<times> rat \<times> bool \<times> colour) list" where
  "watch_rows height entries = map watch_row (take (unat (ucast height - 4 :: u64)) entries)"

text \<open>The slice of the valid entries is checked: a length above that of the array panics.\<close>

definition watchlist_panel :: "u16 \<Rightarrow> dashboard_state \<Rightarrow> fault + (i32 \<times> u8 list \<times> rat \<times> bool \<times> colour) list" where
  "watchlist_panel height d =
     (if length (watchlist_entries d) < wall_len d then Inl Panic
      else Inr (watch_rows height (take (wall_len d) (watchlist_entries d))))"

section \<open>The quit key\<close>

datatype tui_event = Key_Char char | Key_Esc | Other_Event | Read_Failed

text \<open>The loop over the pending events; it stops at a quit key and leaves the rest.\<close>

fun poll_events :: "tui_event list \<Rightarrow> bool" where
  "poll_events [] = False"
| "poll_events (e # es) = (if e = Key_Char CHR ''q'' \<or> e = Key_Esc then True else poll_events es)"

section \<open>The ring is a sliding window\<close>

definition window :: "'a list \<Rightarrow> 'a list" where
  "window vs = drop (length vs - HISTORY_LEN) vs"

text \<open>What the ring holds after \<open>vs\<close> was pushed.\<close>

definition holds :: "rat list \<Rightarrow> history_ring \<Rightarrow> bool" where
  "holds vs r \<longleftrightarrow> length (hist_buf r) = HISTORY_LEN \<and> hist_head r = length vs mod HISTORY_LEN \<and>
     hist_len r = min (length vs) HISTORY_LEN \<and>
     (\<forall>i < length vs. length vs \<le> i + HISTORY_LEN \<longrightarrow> hist_buf r ! (i mod HISTORY_LEN) = vs ! i)"

lemma holds_new: "holds [] history_new"
  by (simp add: holds_def history_new_def HISTORY_LEN_def)

lemma near_mod_neq:
  fixes i n k :: nat
  assumes "i < n" and "n < i + k" shows "i mod k \<noteq> n mod k"
proof
  assume "i mod k = n mod k"
  then obtain q where "n - i = k * q" using assms(1) mod_eq_dvd_iff_nat [of i n k] by auto
  then show False using assms by (cases q) auto
qed

lemma holds_push:
  assumes "holds vs r" shows "holds (vs @ [v]) (history_push v r)"
proof -
  let ?n = "length vs"
  have len: "length (hist_buf r) = HISTORY_LEN" and pos: "0 < HISTORY_LEN"
    using assms by (simp_all add: holds_def HISTORY_LEN_def)
  have "(hist_buf r)[?n mod HISTORY_LEN := v] ! (i mod HISTORY_LEN) = (vs @ [v]) ! i"
    if i: "i < Suc ?n" "Suc ?n \<le> i + HISTORY_LEN" for i
  proof (cases "i = ?n")
    case True
    then show ?thesis using len pos by simp
  next
    case False
    then have "i mod HISTORY_LEN \<noteq> ?n mod HISTORY_LEN" using i near_mod_neq [of i ?n HISTORY_LEN] by simp
    then show ?thesis using assms i False by (simp add: holds_def nth_append)
  qed
  then show ?thesis
    using assms by (simp add: holds_def history_push_def mod_Suc_eq)
qed

lemma holds_all: "holds vs (fold history_push vs history_new)"
  by (induction vs rule: rev_induct) (simp_all add: holds_new holds_push)

lemma iter_ordered_window:
  assumes h: "holds vs r" shows "iter_ordered r = window vs"
proof (rule nth_equalityI)
  have pos: "0 < HISTORY_LEN" by (simp add: HISTORY_LEN_def)
  have len: "hist_len r = min (length vs) HISTORY_LEN" using h by (simp add: holds_def)
  then show "length (iter_ordered r) = length (window vs)" by (simp add: iter_ordered_def window_def Let_def)
  fix i assume "i < length (iter_ordered r)"
  then have i: "i < min (length vs) HISTORY_LEN" using len by (simp add: iter_ordered_def Let_def)
  let ?start = "if hist_len r < HISTORY_LEN then 0 else hist_head r"
  let ?k = "length vs - HISTORY_LEN + i"
  have "(?start + i) mod HISTORY_LEN = ?k mod HISTORY_LEN"
  proof (cases "length vs < HISTORY_LEN")
    case True
    then show ?thesis using len by simp
  next
    case False
    then have "?k + HISTORY_LEN = length vs + i" by simp
    then have "(length vs mod HISTORY_LEN + i) mod HISTORY_LEN = ?k mod HISTORY_LEN"
      by (metis mod_add_left_eq mod_add_self2)
    then show ?thesis using False len h by (simp add: holds_def)
  qed
  moreover have "hist_buf r ! (?k mod HISTORY_LEN) = vs ! ?k"
  proof -
    have "?k < length vs" "length vs \<le> ?k + HISTORY_LEN" using i by linarith+
    then show ?thesis using h unfolding holds_def by blast
  qed
  ultimately show "iter_ordered r ! i = window vs ! i"
    using i len by (simp add: iter_ordered_def Let_def window_def)
qed

lemma max_or_upper:
  "a \<le> fold (\<lambda>v m. max m v) xs a \<and> (\<forall>x \<in> set xs. x \<le> fold (\<lambda>v m. max m v) xs a)" for a :: rat
proof (induction xs arbitrary: a)
  case (Cons y xs)
  have "max a y \<le> fold (\<lambda>v m. max m v) xs (max a y)" using Cons.IH [of "max a y"] by blast
  then have "a \<le> fold (\<lambda>v m. max m v) xs (max a y)" "y \<le> fold (\<lambda>v m. max m v) xs (max a y)"
    by (meson max.boundedE)+
  then show ?case using Cons.IH [of "max a y"] by simp
qed simp

section \<open>Gauges\<close>

lemma gauge_line_ok:
  assumes "unat n \<le> unat whole" and "whole \<noteq> 0"
  shows "\<exists>a b pct. gauge_line n whole = Inr (a, b, n, pct) \<and> a + b = 20 \<and> unat pct \<le> 100 \<and>
    (unat n * 100 < 2 ^ 64 \<longrightarrow> unat pct = unat n * 100 div unat whole)"
proof -
  have pos: "0 < unat whole" using assms(2) by (simp add: unat_gt_0)
  have exact: "unat (n * 100 div whole) = (unat n * 100 mod 2 ^ 64) div unat whole"
    by (simp add: unat_div unat_word_ariths)
  have "(unat n * 100 mod 2 ^ 64) div unat whole \<le> (unat whole * 100) div unat whole"
    using assms(1) mod_less_eq_dividend le_trans by (intro div_le_mono) (meson mult_le_mono1)
  then have le: "unat (n * 100 div whole) \<le> 100" using exact pos by simp
  then have "unat (n * 100 div whole) div 5 \<le> 20" by simp
  then show ?thesis using assms(2) le exact by (simp add: gauge_line_def Let_def)
qed

section \<open>Properties\<close>

text \<open>
  C31. The history ring is a sliding window: after any sequence of pushes, reading it oldest first gives the
  last 120 values pushed, in order.
\<close>

theorem history_ring_is_window:
  "iter_ordered (fold history_push vs history_new) = drop (length vs - 120) vs"
  using iter_ordered_window [OF holds_all, of vs] by (simp add: window_def HISTORY_LEN_def)

text \<open>
  The latency chart encloses its points: there are as many points as the ring has values (so never more
  than 120), at abscissas 0, 1, 2, ..., all below the right bound, and every value is at or below the upper
  bound, which is at least 15.
\<close>

theorem chart_encloses_points:
  "length (chart_points d) = hist_len (inference_hist d) \<and>
   (\<forall>(x, v) \<in> set (chart_points d). 0 \<le> x \<and> x < fst (chart_bounds d) \<and> v \<le> snd (chart_bounds d)) \<and>
   15 \<le> snd (chart_bounds d)"
proof -
  let ?vs = "iter_ordered (inference_hist d)"
  have len: "length (chart_points d) = length ?vs" by (simp add: chart_points_def)
  have "x < of_nat (max (length ?vs) 1) \<and> 0 \<le> x \<and> v \<le> max_or 10 (inference_hist d)"
    if "(x, v) \<in> set (chart_points d)" for x v
  proof -
    from that obtain i where i: "x = of_nat i" "i < length ?vs" "v = ?vs ! i"
      by (auto simp: chart_points_def in_set_enumerate_eq)
    then show ?thesis using max_or_upper [of 10 ?vs] by (auto simp: max_or_def)
  qed
  then show ?thesis
    unfolding chart_bounds_def fst_conv snd_conv len
    by (auto simp: iter_ordered_def Let_def le_max_iff_disj)
qed

theorem chart_encloses_points_witness:
  "15 \<le> snd (chart_bounds (push_history (dashboard_default\<lparr>ds_inference_us := 40\<rparr>)))"
  using chart_encloses_points [of "push_history (dashboard_default\<lparr>ds_inference_us := 40\<rparr>)"] by blast

text \<open>
  Drawing the event mix cannot panic as long as the label counts do not wrap: each of the four gauges
  has exactly 20 cells and shows its own count with its share of the whole, rounded down, at most 100
  percent.
\<close>

theorem gauges_are_well_formed:
  assumes "unat (nr_interactive m) + unat (nr_compute m) + unat (nr_iowait m) + unat (nr_realtime m) < 2 ^ 57"
  shows "\<exists>gs. classification_gauges m = Inr gs \<and>
    map (\<lambda>(a, b, n, pct). n) gs = [nr_interactive m, nr_compute m, nr_iowait m, nr_realtime m] \<and>
    (\<forall>(a, b, n, pct) \<in> set gs. a + b = 20 \<and> unat pct \<le> 100 \<and>
       unat pct = unat n * 100 div max (unat (classified m)) 1)"
proof -
  let ?w = "max (classified m) 1"
  have c: "unat (classified m) = unat (nr_interactive m) + unat (nr_compute m) + unat (nr_iowait m) + unat (nr_realtime m)"
    using assms by (simp add: classified_def unat_word_ariths)
  have wn: "unat ?w = max (unat (classified m)) 1" by (simp add: unat_max_word)
  then have "unat ?w \<noteq> 0" by simp
  then have w: "?w \<noteq> 0" "unat ?w = max (unat (classified m)) 1" using wn by auto
  have g: "\<exists>a b pct. gauge_line n ?w = Inr (a, b, n, pct) \<and> a + b = 20 \<and> unat pct \<le> 100 \<and>
      unat pct = unat n * 100 div max (unat (classified m)) 1"
    if "unat n \<le> unat (classified m)" for n
    using gauge_line_ok [of n ?w] that w c assms by auto
  obtain a1 b1 p1 a2 b2 p2 a3 b3 p3 a4 b4 p4 where
    "gauge_line (nr_interactive m) ?w = Inr (a1, b1, nr_interactive m, p1)" "a1 + b1 = 20" "unat p1 \<le> 100"
    "unat p1 = unat (nr_interactive m) * 100 div max (unat (classified m)) 1"
    "gauge_line (nr_compute m) ?w = Inr (a2, b2, nr_compute m, p2)" "a2 + b2 = 20" "unat p2 \<le> 100"
    "unat p2 = unat (nr_compute m) * 100 div max (unat (classified m)) 1"
    "gauge_line (nr_iowait m) ?w = Inr (a3, b3, nr_iowait m, p3)" "a3 + b3 = 20" "unat p3 \<le> 100"
    "unat p3 = unat (nr_iowait m) * 100 div max (unat (classified m)) 1"
    "gauge_line (nr_realtime m) ?w = Inr (a4, b4, nr_realtime m, p4)" "a4 + b4 = 20" "unat p4 \<le> 100"
    "unat p4 = unat (nr_realtime m) * 100 div max (unat (classified m)) 1"
    using g [of "nr_interactive m"] g [of "nr_compute m"] g [of "nr_iowait m"] g [of "nr_realtime m"] c by force
  then show ?thesis by (simp add: classification_gauges_def Let_def)
qed

theorem gauges_are_well_formed_witness:
  "\<exists>gs. classification_gauges (metrics_default\<lparr>nr_interactive := 3, nr_compute := 1\<rparr>) = Inr gs \<and> length gs = 4"
proof -
  let ?m = "metrics_default\<lparr>nr_interactive := 3, nr_compute := 1\<rparr>"
  have "unat (nr_interactive ?m) + unat (nr_compute ?m) + unat (nr_iowait ?m) + unat (nr_realtime ?m) < 2 ^ 57"
    by (simp add: metrics_default_def)
  from gauges_are_well_formed [OF this] show ?thesis
  proof (elim exE conjE)
    fix gs assume gs: "classification_gauges ?m = Inr gs"
      "map (\<lambda>(a, b, n, pct). n) gs = [nr_interactive ?m, nr_compute ?m, nr_iowait ?m, nr_realtime ?m]"
    from arg_cong [OF gs(2), of length] have "length gs = 4" by simp
    with gs(1) show ?thesis by (intro exI [of _ gs] conjI)
  qed
qed

lemma utf8_ok_ascii: "\<forall>b \<in> set bs. b < 0x80 \<Longrightarrow> utf8_ok bs"
  by (induction bs) simp_all

lemma position_first: "position P xs = Some i \<Longrightarrow> \<forall>x \<in> set (take i xs). \<not> P x"
  by (induction xs arbitrary: i) (auto split: if_splits)

lemma comm_str_ok: "utf8_ok (comm_str comm) \<and> (comm_str comm = [63] \<or> 0 \<notin> set (comm_str comm) \<and> prefix (comm_str comm) comm)"
proof (cases "position (\<lambda>b. b = 0) comm")
  case None
  then show ?thesis using None position_None [of "\<lambda>b. b = 0" comm] by (auto simp: comm_str_def Let_def)
next
  case (Some i)
  then have "0 \<notin> set (take i comm)"
    using position_first [OF Some] by blast
  then show ?thesis using Some take_is_prefix by (auto simp: comm_str_def Let_def)
qed

text \<open>
  C34. The watchlist panel is sound for any content of the trust table and any number of entries announced: taking the
  valid entries does not panic; it never lists more than the 20 entries, every name shown is valid UTF-8 without NUL
  bytes, and a panel at least 4 rows high shows at most its height less 4. On a lower panel the subtraction wraps, and
  no limit applies.
\<close>

theorem watchlist_panel_sound:
  assumes "length entries = SHAME_MAX"
  shows "\<exists>rows. watchlist_panel h (set_watchlist entries n d) = Inr rows \<and> length rows \<le> 20 \<and>
    (\<forall>(pid, name, trust, flag, colour) \<in> set rows. utf8_ok name \<and> 0 \<notin> set name) \<and>
    (4 \<le> h \<longrightarrow> length rows \<le> unat h - 4) \<and> (h < 4 \<longrightarrow> length rows = min n 20)"
proof -
  let ?rows = "take (wall_len (set_watchlist entries n d)) entries"
  have panel: "watchlist_panel h (set_watchlist entries n d) = Inr (map watch_row (take (unat (ucast h - 4 :: u64)) ?rows))"
    using assms by (simp add: watchlist_panel_def watch_rows_def set_watchlist_def)
  have rows: "length ?rows = min n 20" using assms by (simp add: set_watchlist_def SHAME_MAX_def)
  have u: "unat (ucast h :: u64) = unat h" by transfer (simp add: take_bit_eq_mod mod_pos_pos_trivial)
  have high: "unat (ucast h - 4 :: u64) = unat h - 4" if "4 \<le> h"
    using that u by (simp add: unat_sub word_le_nat_alt)
  have low: "20 \<le> unat (ucast h - 4 :: u64)" if "h < 4"
  proof -
    have "unat h < 4" using that by (simp add: word_less_nat_alt)
    then have "unat (ucast h - 4 :: u64) = 2 ^ 64 - 4 + unat h"
      using u by (simp add: unat_sub_if' word_le_nat_alt)
    then show ?thesis by simp
  qed
  have "utf8_ok (comm_str c) \<and> 0 \<notin> set (comm_str c)" for c using comm_str_ok [of c] by auto
  then show ?thesis
    unfolding panel using rows high low
    by (intro exI [of _ "map watch_row (take (unat (ucast h - 4 :: u64)) ?rows)"]) (auto simp: watch_row_def)
qed

theorem watchlist_panel_sound_witness:
  "\<exists>rows. watchlist_panel 10 (set_watchlist (replicate SHAME_MAX wall_entry_ZERO) 9 dashboard_default) = Inr rows \<and> length rows \<le> 6"
  using watchlist_panel_sound [of "replicate SHAME_MAX wall_entry_ZERO" 10 9 dashboard_default] by auto

text \<open>
  The states the dashboard goes through: 20 entries of which at most 20 are valid. Such a state can be sliced.
\<close>

definition drawable :: "dashboard_state \<Rightarrow> bool" where
  "drawable d \<longleftrightarrow> length (watchlist_entries d) = SHAME_MAX \<and> wall_len d \<le> SHAME_MAX"

lemma drawable_states:
  "drawable dashboard_default" "drawable (push_history d) = drawable d"
  "length entries = SHAME_MAX \<Longrightarrow> drawable (set_watchlist entries n d)"
  by (simp_all add: drawable_def dashboard_default_def push_history_def set_watchlist_def)

lemma drawable_panel: "drawable d \<Longrightarrow> watchlist_panel h d = Inr (watch_rows h (take (wall_len d) (watchlist_entries d)))"
  by (simp add: drawable_def watchlist_panel_def)

text \<open>
  Every watchlist row of a quarantined PID is red: a listed score lies below -0.35, so the test against
  0.2 always succeeds and the yellow colour is never used.
\<close>

theorem watchlist_always_red:
  assumes "we_trust e < TRUST_THRESHOLD"
  shows "watch_row e = (we_pid e, comm_str (we_comm e), we_trust e, we_is_flagged e, Red)"
proof -
  have "TRUST_THRESHOLD \<le> 0" unfolding TRUST_THRESHOLD_def lit_35_100 by simp
  moreover have "0 \<le> rnd64 (2/10)" by (rule f64.nonneg) simp
  ultimately show ?thesis using assms by (simp add: watch_row_def)
qed

theorem watchlist_always_red_witness:
  "watch_row (wall_entry_ZERO\<lparr>we_trust := - 1\<rparr>) = (0, [], - 1, False, Red)"
proof -
  have "we_trust (wall_entry_ZERO\<lparr>we_trust := - 1\<rparr>) < TRUST_THRESHOLD"
    unfolding TRUST_THRESHOLD_def lit_35_100 by (simp add: wall_entry_ZERO_def)
  moreover have "position (\<lambda>b. b = 0) (replicate 16 (0 :: u8)) = Some 0" by (simp add: numeral_eq_Suc)
  ultimately show ?thesis
    using watchlist_always_red [of "wall_entry_ZERO\<lparr>we_trust := - 1\<rparr>"]
    by (simp add: comm_str_def wall_entry_ZERO_def)
qed

end
