(* ===== verification/Lanes.thy ===== *)
theory Lanes
  imports Task_Queue Trust_Table Slice_Policy Classifier Profile Bpf_Scheduler Lifetime_Table Dashboard
begin

text \<open>
  The scheduler's state (\<open>struct Scheduler\<close> of \<open>src/main.rs\<close>, less the dashboard and the stats server) and
  its three lanes: \<open>push_task\<close>, \<open>pop_highest_priority_task\<close> and their helpers. \<open>backlog\<close> is the abstract
  view: the queued tasks in the order they will be dispatched. The lemmas show that popping takes the head
  of the backlog, and that pushing loses no task as long as the lane has room.
\<close>

section \<open>Tasks and lanes\<close>

record task =
  qtask :: queued_task
  deadline :: u64
  timestamp :: u64
  task_label :: task_label
  wake_boosted :: bool
  wake_credit_ns :: u64
  latency_sensitive :: bool
  is_kworker :: bool
  task_slice_ns :: u64

datatype lane = Rt_Lane | Boosted_Lane | General_Lane

text \<open>The lanes in the order they are served.\<close>

fun lane_rank :: "lane \<Rightarrow> nat" where
  "lane_rank Rt_Lane = 0"
| "lane_rank Boosted_Lane = 1"
| "lane_rank General_Lane = 2"

instantiation lane :: linorder
begin

definition less_eq_lane :: "lane \<Rightarrow> lane \<Rightarrow> bool" where
  "less_eq_lane a b \<longleftrightarrow> lane_rank a \<le> lane_rank b"

definition less_lane :: "lane \<Rightarrow> lane \<Rightarrow> bool" where
  "less_lane a b \<longleftrightarrow> lane_rank a < lane_rank b"

instance
proof
  fix a b :: lane
  show "a \<le> b \<Longrightarrow> b \<le> a \<Longrightarrow> a = b" by (cases a; cases b) (simp_all add: less_eq_lane_def)
qed (auto simp: less_eq_lane_def less_lane_def)

end

section \<open>The scheduler's state\<close>

definition QUEUE_DEPTH :: nat where "QUEUE_DEPTH = 16384"

record scheduler =
  sch_bpf :: bpf_scheduler
  sch_opts :: opts
  profile :: bpf_profile
  stats_server :: bool
  boosted_interactive_queue :: "task task_queue"
  rt_queue :: "task task_queue"
  interactive_queue :: "task task_queue"
  vruntime_now :: u64
  init_page_faults :: u64
  start_time :: nat
  sch_base_slice_ns :: u64
  slice_ns_min :: u64
  trust :: trust_table
  sch_controller :: slice_controller
  sch_lifetimes :: lifetimes
  tui_state :: "dashboard_state option"
  tui_term :: bool
  tui_quit :: bool
  last_tui_render :: nat
  last_tui_hist :: nat
  last_trust_tick :: nat
  last_slice_tick :: nat
  last_trust_flush :: nat
  stats_channel_failed :: bool
  label_counts :: "task_label \<Rightarrow> u64"
  total_inference_ns :: u64
  inference_samples :: u64
  assigned_slice_ema_ns :: u64

fun lane_queue :: "lane \<Rightarrow> scheduler \<Rightarrow> task task_queue" where
  "lane_queue Rt_Lane s = rt_queue s"
| "lane_queue Boosted_Lane s = boosted_interactive_queue s"
| "lane_queue General_Lane s = interactive_queue s"

fun set_lane :: "lane \<Rightarrow> task task_queue \<Rightarrow> scheduler \<Rightarrow> scheduler" where
  "set_lane Rt_Lane q s = s\<lparr>rt_queue := q\<rparr>"
| "set_lane Boosted_Lane q s = s\<lparr>boosted_interactive_queue := q\<rparr>"
| "set_lane General_Lane q s = s\<lparr>interactive_queue := q\<rparr>"

section \<open>Operations\<close>

definition on_bpf :: "(bpf_scheduler \<times> 'w, 'a) action \<Rightarrow> (scheduler \<times> 'w, 'a) action" where
  "on_bpf = on_part sch_bpf (\<lambda>b. sch_bpf_update (\<lambda>_. b))"

definition in_lane :: "lane \<Rightarrow> (task task_queue \<Rightarrow> fault + ('r \<times> task task_queue)) \<Rightarrow> (scheduler \<times> 'w, 'r) action" where
  "in_lane l op = (\<lambda>(s, w). bindR (op (lane_queue l s)) (\<lambda>(r, q). Inr (r, (set_lane l q s, w))))"

definition peek_lane :: "lane \<Rightarrow> (scheduler \<times> 'w, task option) action" where
  "peek_lane l = bindS (gets_own (lane_queue l)) (\<lambda>q. lift_fault (queue_front q))"

definition lane_of :: "task \<Rightarrow> lane" where
  "lane_of t = (if task_label t = RealTime then Rt_Lane else if wake_boosted t then Boosted_Lane else General_Lane)"

text \<open>A rejected task is only reported: the assertion of that branch is compiled out of a release build.\<close>

definition push_task :: "'w os \<Rightarrow> task \<Rightarrow> (scheduler \<times> 'w, unit) action" where
  "push_task os task =
     bindS (in_lane (lane_of task) (\<lambda>q. queue_push_back q task)) (\<lambda>result. case result of
       Inr Primary \<Rightarrow> return ()
     | Inr Deferred \<Rightarrow>
         bindS (on_bpf (read_counter os Nr_sched_congested)) (\<lambda>congested.
         on_bpf (write_counter os Nr_sched_congested (sat_add congested 1)))
     | Inl task \<Rightarrow> return ())"

definition queue_is_starved :: "task option \<Rightarrow> u64 \<Rightarrow> u64 \<Rightarrow> bool" where
  "queue_is_starved front now threshold_ns =
     (case front of Some t \<Rightarrow> threshold_ns \<le> sat_sub now (timestamp t) | None \<Rightarrow> False)"

definition BOOSTED_INTERACTIVE_STARVATION_NS :: u64 where "BOOSTED_INTERACTIVE_STARVATION_NS = 12000000"

definition front_preempts :: "u64 \<Rightarrow> task option \<Rightarrow> bool" where
  "front_preempts now front = (case front of
     Some t \<Rightarrow> should_wake_preempt (wake_boosted t) (latency_sensitive t) (wake_credit_ns t)
                 (sat_sub now (timestamp t))
   | None \<Rightarrow> False)"

definition pop_highest_priority_task :: "'w os \<Rightarrow> (scheduler \<times> 'w, task option) action" where
  "pop_highest_priority_task os =
     bindS (in_lane Rt_Lane queue_pop_front) (\<lambda>rt. case rt of
       Some t \<Rightarrow> return (Some t)
     | None \<Rightarrow>
         bindS (ask (os_now os)) (\<lambda>now.
         bindS (peek_lane Boosted_Lane) (\<lambda>front.
         if front_preempts now front then in_lane Boosted_Lane queue_pop_front
         else bindS (peek_lane Boosted_Lane) (\<lambda>front.
           if queue_is_starved front now BOOSTED_INTERACTIVE_STARVATION_NS
           then in_lane Boosted_Lane queue_pop_front
           else bindS (in_lane Boosted_Lane queue_pop_front) (\<lambda>b. case b of
             Some t \<Rightarrow> return (Some t)
           | None \<Rightarrow> in_lane General_Lane queue_pop_front)))))"

definition has_deferred_tasks :: "scheduler \<Rightarrow> bool" where
  "has_deferred_tasks s \<longleftrightarrow> has_deferred (boosted_interactive_queue s) \<or> has_deferred (rt_queue s) \<or>
     has_deferred (interactive_queue s)"

definition tasks_empty :: "scheduler \<Rightarrow> bool" where
  "tasks_empty s \<longleftrightarrow> queue_is_empty (boosted_interactive_queue s) \<and> queue_is_empty (rt_queue s) \<and>
     queue_is_empty (interactive_queue s)"

definition tasks_len :: "scheduler \<Rightarrow> nat" where
  "tasks_len s = queue_len (boosted_interactive_queue s) + queue_len (rt_queue s) + queue_len (interactive_queue s)"

section \<open>The backlog\<close>

definition lane_tasks :: "lane \<Rightarrow> scheduler \<Rightarrow> task list" where
  "lane_tasks l s = queue_contents (lane_queue l s)"

definition backlog :: "scheduler \<Rightarrow> task list" where
  "backlog s = lane_tasks Rt_Lane s @ lane_tasks Boosted_Lane s @ lane_tasks General_Lane s"

text \<open>Each lane is a well-formed queue that holds only its own tasks.\<close>

definition lanes_ok :: "scheduler \<Rightarrow> bool" where
  "lanes_ok s \<longleftrightarrow> (\<forall>l. queue_valid (lane_queue l s) \<and> (\<forall>t \<in> set (lane_tasks l s). lane_of t = l))"

text \<open>Two states that differ in their lanes only.\<close>

definition same_but_lanes :: "scheduler \<Rightarrow> scheduler \<Rightarrow> bool" where
  "same_but_lanes s s' \<longleftrightarrow> (\<exists>b r i. s' = s\<lparr>boosted_interactive_queue := b, rt_queue := r, interactive_queue := i\<rparr>)"

lemma lane_queue_set_lane [simp]: "lane_queue l (set_lane l' q s) = (if l = l' then q else lane_queue l s)"
  by (cases l; cases l') simp_all

lemma same_but_lanes_refl [simp]: "same_but_lanes s s"
  unfolding same_but_lanes_def
  by (rule exI [of _ "boosted_interactive_queue s"], rule exI [of _ "rt_queue s"],
      rule exI [of _ "interactive_queue s"]) simp

lemma same_but_lanes_set [simp]: "same_but_lanes s (set_lane l q s)"
  unfolding same_but_lanes_def
  by (cases l; rule exI [of _ "boosted_interactive_queue (set_lane l q s)"],
      rule exI [of _ "rt_queue (set_lane l q s)"], rule exI [of _ "interactive_queue (set_lane l q s)"]) simp_all

lemma same_but_lanes_trans: "same_but_lanes a b \<Longrightarrow> same_but_lanes b c \<Longrightarrow> same_but_lanes a c"
  unfolding same_but_lanes_def by (elim exE) (simp, blast)

lemma all_lanes: "(\<forall>l. P l) \<longleftrightarrow> P Rt_Lane \<and> P Boosted_Lane \<and> P General_Lane"
  by (metis lane.exhaust)

lemma tasks_empty_backlog: "lanes_ok s \<Longrightarrow> tasks_empty s \<longleftrightarrow> backlog s = []"
  by (auto simp: tasks_empty_def backlog_def lanes_ok_def all_lanes lane_tasks_def queue_is_empty_contents)

lemma tasks_len_backlog: "lanes_ok s \<Longrightarrow> tasks_len s = length (backlog s)"
  by (simp add: tasks_len_def backlog_def lanes_ok_def all_lanes lane_tasks_def length_queue_contents(1))

lemma lanes_room: "lanes_ok s \<Longrightarrow> \<not> has_deferred_tasks s \<Longrightarrow> \<not> has_deferred (lane_queue l s)"
  by (cases l) (auto simp: has_deferred_tasks_def)

lemma wp_in_lane [wp_simps]:
  "wp (in_lane l op) Q (s, w) \<longleftrightarrow> (\<exists>r q. op (lane_queue l s) = Inr (r, q) \<and> Q r (set_lane l q s, w))"
  by (cases "op (lane_queue l s)") (auto simp: wp_def in_lane_def)

lemma wp_peek_lane [wp_simps]:
  "wp (peek_lane l) Q (s, w) \<longleftrightarrow> (\<exists>f. queue_front (lane_queue l s) = Inr f \<and> Q f (s, w))"
  by (simp add: peek_lane_def wp_simps)

lemma wp_on_bpf [wp_simps]:
  "wp (on_bpf m) Q (s, w) \<longleftrightarrow> wp m (\<lambda>x (b, w'). Q x (s\<lparr>sch_bpf := b\<rparr>, w')) (sch_bpf s, w)"
  by (simp add: on_bpf_def wp_on_part)

text \<open>What popping a lane does to it.\<close>

lemma pop_lane:
  assumes "lanes_ok s"
  shows "\<exists>r q. queue_pop_front (lane_queue l s) = Inr (r, q) \<and> lanes_ok (set_lane l q s) \<and>
    (case r of None \<Rightarrow> lane_tasks l s = [] \<and> q = lane_queue l s
     | Some t \<Rightarrow> lane_tasks l s = t # lane_tasks l (set_lane l q s) \<and> \<not> has_deferred q)"
proof -
  have v: "queue_valid (lane_queue l s)" using assms by (simp add: lanes_ok_def)
  show ?thesis
  proof (cases "lane_tasks l s")
    case Nil
    then show ?thesis
      using assms queue_pop_nil(1) [OF v] by (auto simp: lane_tasks_def lanes_ok_def)
  next
    case (Cons t ts)
    with queue_pop_cons [OF v] show ?thesis
      using assms by (fastforce simp: lane_tasks_def lanes_ok_def has_deferred_def)
  qed
qed

lemma front_lane:
  "lanes_ok s \<Longrightarrow> queue_front (lane_queue l s) = Inr (case lane_tasks l s of [] \<Rightarrow> None | t # _ \<Rightarrow> Some t)"
  using queue_pop_nil(2) queue_front_cons by (fastforce simp: lanes_ok_def lane_tasks_def split: list.split)

lemma set_same_lane: "set_lane l (lane_queue l s) s = s"
  by (cases l) simp_all

text \<open>Popping the head of one lane, as a weakest precondition.\<close>

definition popped :: "lane \<Rightarrow> scheduler \<Rightarrow> task option \<Rightarrow> scheduler \<Rightarrow> bool" where
  "popped l s r s' \<longleftrightarrow> lanes_ok s' \<and> same_but_lanes s s' \<and> (\<forall>l'. l' \<noteq> l \<longrightarrow> lane_queue l' s' = lane_queue l' s) \<and>
     (case r of None \<Rightarrow> lane_tasks l s = [] \<and> s' = s
      | Some t \<Rightarrow> lane_tasks l s = t # lane_tasks l s' \<and> \<not> has_deferred (lane_queue l s'))"

lemma wp_pop_lane:
  assumes "lanes_ok s" and "\<And>r s'. popped l s r s' \<Longrightarrow> Q r (s', w)"
  shows "wp (in_lane l queue_pop_front) Q (s, w)"
proof -
  from pop_lane [OF assms(1), of l] obtain r q where q: "queue_pop_front (lane_queue l s) = Inr (r, q)"
    "lanes_ok (set_lane l q s)"
    "case r of None \<Rightarrow> lane_tasks l s = [] \<and> q = lane_queue l s
     | Some t \<Rightarrow> lane_tasks l s = t # lane_tasks l (set_lane l q s) \<and> \<not> has_deferred q" by blast
  have "popped l s r (set_lane l q s)"
    using q(2,3) by (auto simp: popped_def set_same_lane split: option.splits)
  with assms(2) q(1) show ?thesis by (auto simp: wp_in_lane)
qed

lemma popped_backlog:
  assumes p: "popped l s (Some t) s'" and above: "\<And>l'. l' < l \<Longrightarrow> lane_tasks l' s = []" and ok: "lanes_ok s"
  shows "backlog s = t # backlog s' \<and> lane_of t = l"
proof -
  have l: "lane_tasks l s = t # lane_tasks l s'" "\<And>l'. l' \<noteq> l \<Longrightarrow> lane_tasks l' s' = lane_tasks l' s"
    using p by (auto simp: popped_def lane_tasks_def)
  have "lane_of t = l" using ok l(1) by (auto simp: lanes_ok_def)
  moreover have "backlog s = t # backlog s'"
    using l(1) l(2) [of Rt_Lane] l(2) [of Boosted_Lane] l(2) [of General_Lane] above [of Rt_Lane]
      above [of Boosted_Lane]
    by (cases l) (simp_all add: backlog_def less_lane_def)
  ultimately show ?thesis by simp
qed

lemma popped_none: "popped l s None s' \<Longrightarrow> lane_tasks l s = [] \<and> s' = s"
  by (simp add: popped_def)

lemma wp_pop_highest_priority_task:
  assumes os: "libbpf_ok os rx tx" and ok: "lanes_ok s"
  shows "wp (pop_highest_priority_task os) (\<lambda>r (s', w'). lanes_ok s' \<and> same_but_lanes s s' \<and>
     rx w' = rx w \<and> tx w' = tx w \<and>
     (case r of None \<Rightarrow> backlog s = [] \<and> s' = s
      | Some t \<Rightarrow> backlog s = t # backlog s' \<and> \<not> has_deferred (lane_queue (lane_of t) s'))) (s, w)"
    (is "wp _ ?post _")
proof -
  note sil = libbpf_silent [OF os]
  let ?w = "snd (os_now os w)"
  have hit: "?post (Some t) (s', w')"
    if "popped l s (Some t) s'" "\<And>l'. l' < l \<Longrightarrow> lane_tasks l' s = []" "rx w' = rx w" "tx w' = tx w" for l t s' w'
    using popped_backlog [OF that(1,2) ok] that by (auto simp: popped_def)
  have lt: "l' < Boosted_Lane \<Longrightarrow> l' = Rt_Lane" "l' < General_Lane \<Longrightarrow> l' = Rt_Lane \<or> l' = Boosted_Lane"
    "\<not> l' < Rt_Lane" for l'
    by (cases l'; simp add: less_lane_def)+
  have boosted: "wp (in_lane Boosted_Lane queue_pop_front) ?post (s, ?w)"
    if rt: "lane_tasks Rt_Lane s = []" and ne: "lane_tasks Boosted_Lane s \<noteq> []"
  proof (rule wp_pop_lane [OF ok])
    fix r s' assume p: "popped Boosted_Lane s r s'"
    then obtain t where "r = Some t" using ne by (cases r) (auto simp: popped_def)
    then show "?post r (s', ?w)" using hit [of Boosted_Lane t s' ?w] p rt lt(1) sil by auto
  qed
  have general: "wp (in_lane General_Lane queue_pop_front) ?post (s, ?w)"
    if rt: "lane_tasks Rt_Lane s = []" and bo: "lane_tasks Boosted_Lane s = []"
  proof (rule wp_pop_lane [OF ok])
    fix r s' assume p: "popped General_Lane s r s'"
    show "?post r (s', ?w)"
    proof (cases r)
      case None
      then show ?thesis using popped_none p rt bo ok sil by (fastforce simp: backlog_def)
    next
      case (Some t)
      then show ?thesis using hit [of General_Lane t s' ?w] p rt bo lt(2) sil by auto
    qed
  qed
  have front: "queue_front (lane_queue Boosted_Lane s) =
      Inr (case lane_tasks Boosted_Lane s of [] \<Rightarrow> None | t # _ \<Rightarrow> Some t)"
    by (rule front_lane [OF ok])
  have rest: "wp (bindS (in_lane Boosted_Lane queue_pop_front) (\<lambda>b. case b of
      Some t \<Rightarrow> return (Some t) | None \<Rightarrow> in_lane General_Lane queue_pop_front)) ?post (s, ?w)"
    if rt: "lane_tasks Rt_Lane s = []"
    unfolding wp_bindS
  proof (rule wp_pop_lane [OF ok])
    fix r s' assume p: "popped Boosted_Lane s r s'"
    show "wp (case r of Some t \<Rightarrow> return (Some t) | None \<Rightarrow> in_lane General_Lane queue_pop_front) ?post (s', ?w)"
    proof (cases r)
      case None
      with popped_none p general [OF rt] show ?thesis by fastforce
    next
      case (Some t)
      then show ?thesis using hit [of Boosted_Lane t s' ?w] p rt lt(1) sil by (auto simp: wp_return)
    qed
  qed
  show ?thesis
    unfolding pop_highest_priority_task_def wp_bindS
  proof (rule wp_pop_lane [OF ok])
    fix r s' assume p: "popped Rt_Lane s r s'"
    show "wp (case r of Some t \<Rightarrow> return (Some t) | None \<Rightarrow> bindS (ask (os_now os)) (\<lambda>now.
        bindS (peek_lane Boosted_Lane) (\<lambda>front.
        if front_preempts now front then in_lane Boosted_Lane queue_pop_front
        else bindS (peek_lane Boosted_Lane) (\<lambda>front.
          if queue_is_starved front now BOOSTED_INTERACTIVE_STARVATION_NS
          then in_lane Boosted_Lane queue_pop_front
          else bindS (in_lane Boosted_Lane queue_pop_front) (\<lambda>b. case b of
            Some t \<Rightarrow> return (Some t) | None \<Rightarrow> in_lane General_Lane queue_pop_front))))) ?post (s', w)"
    proof (cases r)
      case (Some t)
      then show ?thesis using hit [of Rt_Lane t s' w] p lt(3) by (simp add: wp_return)
    next
      case None
      then have rt: "lane_tasks Rt_Lane s = []" and s': "s' = s" using popped_none p by auto
      show ?thesis
      proof (cases "lane_tasks Boosted_Lane s")
        case Nil
        then show ?thesis
          using None s' front rest [OF rt]
          by (simp add: wp_bindS wp_ask wp_peek_lane front_preempts_def queue_is_starved_def wp_if)
      next
        case (Cons t ts)
        then show ?thesis
          using None s' front rest [OF rt] boosted [OF rt]
          by (simp add: wp_bindS wp_ask wp_peek_lane wp_if)
      qed
    qed
  qed
qed

text \<open>The lanes can be read off the backlog, which is sorted by lane.\<close>

lemma lane_tasks_filter:
  assumes "lanes_ok s" shows "lane_tasks l s = filter (\<lambda>t. lane_of t = l) (backlog s)"
proof -
  have "filter (\<lambda>t. lane_of t = l) (lane_tasks l' s) = (if l' = l then lane_tasks l s else [])" for l'
    using assms by (auto simp: lanes_ok_def filter_id_conv filter_empty_conv)
  then show ?thesis by (cases l) (simp_all add: backlog_def)
qed

lemma backlog_sorted:
  assumes "lanes_ok s" shows "sorted (map lane_of (backlog s))"
proof -
  have "sorted (map lane_of (lane_tasks l s))" for l
  proof -
    have "map lane_of (lane_tasks l s) = replicate (length (lane_tasks l s)) l"
      using assms by (auto simp: lanes_ok_def intro!: replicate_eqI)
    then show ?thesis by simp
  qed
  then show ?thesis
    using assms by (auto simp: backlog_def sorted_append lanes_ok_def less_eq_lane_def)
qed

section \<open>Pushing\<close>

lemma wp_read_counter [wp_simps]:
  "wp (read_counter os c) Q (b, w) \<longleftrightarrow>
     bss_present b \<and> Q (fst (os_counter os c w)) (b, snd (os_counter os c w))"
  by (simp add: read_counter_def wp_simps)

lemma wp_write_counter [wp_simps]:
  "wp (write_counter os c v) Q (b, w) \<longleftrightarrow> bss_present b \<and> Q () (b, os_set_counter os c v w)"
  by (simp add: write_counter_def wp_simps)

lemma sch_bpf_same: "s\<lparr>sch_bpf := sch_bpf s\<rparr> = s"
  by simp

lemma sch_bpf_lane: "sch_bpf (set_lane l q s) = sch_bpf s"
  by (cases l) simp_all

lemma set_lane_bpf_same: "(set_lane l q s)\<lparr>sch_bpf := sch_bpf s\<rparr> = set_lane l q s"
  by (cases l) simp_all

lemma wp_push_task:
  assumes os: "libbpf_ok os rx tx" and ok: "lanes_ok s" and room: "\<not> has_deferred (lane_queue (lane_of t) s)"
    and present: "bss_present (sch_bpf s)"
  shows "wp (push_task os t) (\<lambda>_ (s', w'). lanes_ok s' \<and> same_but_lanes s s' \<and> rx w' = rx w \<and> tx w' = tx w \<and>
     (\<forall>l. lane_tasks l s' = lane_tasks l s @ (if l = lane_of t then [t] else []))) (s, w)"
proof -
  let ?l = "lane_of t" let ?q = "lane_queue (lane_of t) s"
  have v: "queue_valid ?q" using ok by (simp add: lanes_ok_def)
  then have "length (queue_contents ?q) < queue_capacity ?q"
    using room length_queue_contents [OF v] by (auto simp: has_deferred_def)
  from queue_push_room [OF v this] obtain k q' where q': "queue_push_back ?q t = Inr (Inr k, q')"
    "queue_valid q'" "queue_contents q' = queue_contents ?q @ [t]" by blast
  let ?s = "set_lane ?l q' s"
  have "lanes_ok ?s" "same_but_lanes s ?s"
    "\<forall>l. lane_tasks l ?s = lane_tasks l s @ (if l = ?l then [t] else [])"
    using ok q' by (auto simp: lanes_ok_def lane_tasks_def)
  then show ?thesis
    using q'(1) present libbpf_silent [OF os]
    by (cases k) (simp_all add: push_task_def wp_simps sch_bpf_lane set_lane_bpf_same)
qed

lemma mset_backlog_push:
  "(\<And>l. lane_tasks l s' = lane_tasks l s @ (if l = lane_of t then [t] else [])) \<Longrightarrow>
     mset (backlog s') = mset (backlog s) + {#t#}"
  by (cases "lane_of t") (simp_all add: backlog_def)

lemma length_backlog_mset: "mset (backlog s') = mset (backlog s) + M \<Longrightarrow> length (backlog s') = length (backlog s) + size M"
  by (metis size_mset size_union)

section \<open>The initial state\<close>

text \<open>\<open>Scheduler::init\<close> after the BPF side is attached and the terminal, if
  asked for, is set up; \<open>now\<close> is the instant its timers start from.\<close>

definition scheduler_new :: "opts \<Rightarrow> bpf_scheduler \<Rightarrow> nat \<Rightarrow> fault + scheduler" where
  "scheduler_new cli bpf now =
     (let prof = from_opts cli; controller = controller_new (prof_slice_ns prof) in
      bindR (queue_with_capacity QUEUE_DEPTH) (\<lambda>boosted.
      bindR (queue_with_capacity QUEUE_DEPTH) (\<lambda>rt.
      bindR (queue_with_capacity QUEUE_DEPTH) (\<lambda>interactive.
      Inr \<lparr>sch_bpf = bpf, sch_opts = cli, profile = prof, stats_server = should_launch_stats_server cli,
        boosted_interactive_queue = boosted, rt_queue = rt, interactive_queue = interactive, vruntime_now = 0,
        init_page_faults = 0, start_time = now, sch_base_slice_ns = prof_slice_ns prof, slice_ns_min = prof_slice_min_ns prof, trust = trust_new,
        sch_controller = controller, sch_lifetimes = lifetimes_zeroed,
        tui_state = (if tui cli then Some dashboard_default else None), tui_term = tui cli, tui_quit = False,
        last_tui_render = now, last_tui_hist = now, last_trust_tick = now, last_slice_tick = now,
        last_trust_flush = now, stats_channel_failed = False, label_counts = (\<lambda>_. 0), total_inference_ns = 0,
        inference_samples = 0, assigned_slice_ema_ns = read_slice_ns controller\<rparr>))))"

lemma scheduler_new_ok:
  "\<exists>s. scheduler_new cli bpf now = Inr s \<and> lanes_ok s \<and> backlog s = [] \<and> \<not> has_deferred_tasks s \<and>
     (\<exists>b r i. s = \<lparr>sch_bpf = bpf, sch_opts = cli, profile = from_opts cli,
        stats_server = should_launch_stats_server cli, boosted_interactive_queue = b,
        rt_queue = r, interactive_queue = i, vruntime_now = 0, init_page_faults = 0, start_time = now,
        sch_base_slice_ns = prof_slice_ns (from_opts cli), slice_ns_min = prof_slice_min_ns (from_opts cli),
        trust = trust_new, sch_controller = controller_new (prof_slice_ns (from_opts cli)),
        sch_lifetimes = lifetimes_zeroed, tui_state = (if tui cli then Some dashboard_default else None),
        tui_term = tui cli, tui_quit = False, last_tui_render = now, last_tui_hist = now, last_trust_tick = now,
        last_slice_tick = now, last_trust_flush = now, stats_channel_failed = False, label_counts = (\<lambda>_. 0),
        total_inference_ns = 0, inference_samples = 0, assigned_slice_ema_ns = read_slice_ns (controller_new (prof_slice_ns (from_opts cli)))\<rparr>)"
proof -
  obtain q :: "task task_queue" where q: "queue_with_capacity QUEUE_DEPTH = Inr q" "queue_valid q"
    "queue_contents q = []" "queue_capacity q = QUEUE_DEPTH + 1"
    using queue_with_capacity_valid [of QUEUE_DEPTH] by (auto simp: QUEUE_DEPTH_def)
  then have "\<not> has_deferred q" by (auto simp: queue_contents_def has_deferred_def split: option.splits)
  with q show ?thesis
    by (auto simp: scheduler_new_def Let_def lanes_ok_def all_lanes lane_tasks_def backlog_def has_deferred_tasks_def)
qed

definition sample_queued :: "task_label \<Rightarrow> task" where
  "sample_queued lab = \<lparr>qtask = sample_task, deadline = 7, timestamp = 1000, task_label = lab, wake_boosted = False,
     wake_credit_ns = 0, latency_sensitive = False, is_kworker = False, task_slice_ns = 1000000\<rparr>"

section \<open>Properties\<close>

text \<open>
  C17. The lanes are a priority queue with FIFO lanes: \<open>pop_highest_priority_task\<close> never panics and
  returns the first task of the most urgent non-empty lane, so no task of a more urgent lane is left
  waiting, and the rest of the backlog keeps its order. The clock reading plays no part: the preemption
  and starvation tests in the source choose between two ways of popping the same task.
\<close>

theorem pop_takes_most_urgent:
  assumes "libbpf_ok os rx tx" and "lanes_ok s"
  shows "\<exists>r s' w'. pop_highest_priority_task os (s, w) = Inr (r, (s', w')) \<and> lanes_ok s' \<and>
    (case r of
       None \<Rightarrow> tasks_empty s \<and> s' = s
     | Some t \<Rightarrow> backlog s = t # backlog s' \<and> tasks_len s = tasks_len s' + 1 \<and>
         (\<forall>u \<in> set (backlog s'). lane_of t \<le> lane_of u) \<and>
         lane_tasks (lane_of t) s = t # lane_tasks (lane_of t) s')"
proof -
  from wp_pop_highest_priority_task [OF assms, of w] obtain r s' w' where
    run: "pop_highest_priority_task os (s, w) = Inr (r, (s', w'))" "lanes_ok s'"
    "case r of None \<Rightarrow> backlog s = [] \<and> s' = s
     | Some t \<Rightarrow> backlog s = t # backlog s' \<and> \<not> has_deferred (lane_queue (lane_of t) s')"
    by (auto simp: wp_iff)
  have urgent: "(\<forall>u \<in> set (backlog s'). lane_of t \<le> lane_of u) \<and> lane_tasks (lane_of t) s = t # lane_tasks (lane_of t) s'"
    if eq: "backlog s = t # backlog s'" for t
    using backlog_sorted [OF assms(2)] lane_tasks_filter [OF assms(2)] lane_tasks_filter [OF run(2)] eq by simp
  show ?thesis
    using run urgent tasks_empty_backlog [OF assms(2)] tasks_len_backlog [OF assms(2)] tasks_len_backlog [OF run(2)]
    by (auto split: option.splits)
qed

theorem pop_takes_most_urgent_witness:
  "\<exists>s r s' w'. scheduler_new opts_default bpf_started 0 = Inr s \<and>
     pop_highest_priority_task script_os (s, ([], [], [])) = Inr (r, (s', w')) \<and> lanes_ok s'"
proof -
  obtain s where s: "scheduler_new opts_default bpf_started 0 = Inr s" "lanes_ok s"
    using scheduler_new_ok [of opts_default bpf_started 0] by blast
  with pop_takes_most_urgent [OF script_ok s(2), of "([], [], [])"] show ?thesis by blast
qed

text \<open>
  Pushing into a lane without a deferred task always succeeds: the task goes to the end of its own
  lane, every other lane is unchanged, and the branch of the source that reports a violated invariant
  is not reached. \<open>drain_queued_tasks\<close> and the retry in \<open>dispatch_task\<close> push only in such states.
\<close>

theorem push_task_keeps_all:
  assumes "libbpf_ok os rx tx" and "lanes_ok s" and "bss_present (sch_bpf s)" and "\<not> has_deferred_tasks s"
  shows "\<exists>s' w'. push_task os t (s, w) = Inr ((), (s', w')) \<and> lanes_ok s' \<and> same_but_lanes s s' \<and>
    tasks_len s' = tasks_len s + 1 \<and>
    (\<forall>l. lane_tasks l s' = lane_tasks l s @ (if l = lane_of t then [t] else []))"
proof -
  from wp_push_task [OF assms(1,2) lanes_room [OF assms(2,4)] assms(3), of t w] obtain s' w' where
    run: "push_task os t (s, w) = Inr ((), (s', w'))" "lanes_ok s'" "same_but_lanes s s'"
    "\<forall>l. lane_tasks l s' = lane_tasks l s @ (if l = lane_of t then [t] else [])"
    by (auto simp: wp_iff)
  have "mset (backlog s') = mset (backlog s) + {#t#}" using mset_backlog_push run(4) by blast
  from length_backlog_mset [OF this] run show ?thesis
    using tasks_len_backlog [OF assms(2)] tasks_len_backlog [OF run(2)] by auto
qed

theorem push_task_keeps_all_witness:
  "\<exists>s s' w'. scheduler_new opts_default bpf_started 0 = Inr s \<and>
     push_task script_os (sample_queued Compute) (s, ([], [], [])) = Inr ((), (s', w')) \<and>
     lane_tasks General_Lane s' = [sample_queued Compute]"
proof -
  obtain s where s: "scheduler_new opts_default bpf_started 0 = Inr s" "lanes_ok s" "backlog s = []"
    "\<not> has_deferred_tasks s" "sch_bpf s = bpf_started"
    using scheduler_new_ok [of opts_default bpf_started 0] by auto
  moreover have "bss_present (sch_bpf s)" using s(5) by (simp add: bpf_started_def)
  moreover have "lane_of (sample_queued Compute) = General_Lane" by (simp add: sample_queued_def lane_of_def)
  ultimately show ?thesis
    using push_task_keeps_all [OF script_ok s(2) _ s(4), of "sample_queued Compute" "([], [], [])"]
    by (fastforce simp: backlog_def)
qed

end
