(* ===== verification/Task_Policy.thy ===== *)
theory Task_Policy
  imports Lanes "HOL-Library.Sublist"
begin

text \<open>
  The per-event policy of \<open>src/main.rs\<close>: \<open>derive_task_policy\<close> and its helpers. One queued task is
  labelled, given a slice, a virtual time and a deadline, and the scheduler's virtual clock, label counters
  and slice average are advanced. The steps of the source are definitions of their own (\<open>base_slice_for\<close>,
  \<open>assigned_slice\<close>, \<open>wake_credit\<close>, \<open>entry_vtime\<close>), composed in its order.
\<close>

section \<open>Helpers\<close>

definition sample_assigned_slice :: "u64 \<Rightarrow> scheduler \<Rightarrow> scheduler" where
  "sample_assigned_slice slice_ns s =
     s\<lparr>assigned_slice_ema_ns := (if assigned_slice_ema_ns s = 0 then slice_ns
        else (sat_mul (assigned_slice_ema_ns s) 7 + slice_ns) div 8)\<rparr>"

definition effective_slice_pressure :: "u64 \<Rightarrow> u64 \<Rightarrow> u64 \<Rightarrow> u64" where
  "effective_slice_pressure running queued scheduled = sat_add (sat_add running queued) scheduled"

definition recent_sleep_gap_ns :: "u64 \<Rightarrow> u64 \<Rightarrow> u64" where
  "recent_sleep_gap_ns prev_stop_ts current_start_ts =
     (if prev_stop_ts = 0 then 0 else sat_sub current_start_ts prev_stop_ts)"

definition scale_by_weight_inverse :: "queued_task \<Rightarrow> u64 \<Rightarrow> u64" where
  "scale_by_weight_inverse t value = sat_mul value 100 div max (qt_weight t) 1"

definition ascii :: "string \<Rightarrow> u8 list" where
  "ascii cs = map (\<lambda>c. of_nat (of_char c)) cs"

definition KPREFIXES :: "u8 list list" where
  "KPREFIXES = map ascii [''kswapd'', ''khugepaged'', ''kcompactd'', ''kthreadd'', ''kdevtmpfs'', ''kauditd'',
     ''kcryptd'', ''kblockd'']"

definition is_kernel_worker :: "queued_task \<Rightarrow> bool" where
  "is_kernel_worker t =
     (let bytes = qt_comm t;
          n = (case position (\<lambda>b. b = 0) bytes of Some i \<Rightarrow> i | None \<Rightarrow> length bytes);
          s = take n bytes
      in 47 \<in> set s \<or> (\<exists>p \<in> set KPREFIXES. prefix p s))"

definition interactive_sleep_bonus_ns :: "scheduler \<Rightarrow> u64 \<Rightarrow> u64 \<Rightarrow> fault + u64" where
  "interactive_sleep_bonus_ns s sleep_ns ref_base =
     (if \<not> (WAKE_BOOST_MIN_SLEEP_NS \<le> sleep_ns \<and> sleep_ns \<le> WAKE_BOOST_MAX_SLEEP_NS) then Inr 0
      else clampR (sleep_ns div 4) (slice_ns_min s div 2) (max ref_base (slice_ns_min s)))"

section \<open>derive_task_policy\<close>

definition prev_slice_for :: "scheduler \<Rightarrow> i32 \<Rightarrow> u64" where
  "prev_slice_for s pid =
     (case lifetime_get (sch_lifetimes s) pid of
        Some lt \<Rightarrow> if 0 < last_slice_ns lt then last_slice_ns lt
                   else max (sch_base_slice_ns s) (NSEC_PER_USEC * 1000)
      | None \<Rightarrow> max (sch_base_slice_ns s) (NSEC_PER_USEC * 1000))"

definition recent_sleep_for :: "scheduler \<Rightarrow> queued_task \<Rightarrow> u64" where
  "recent_sleep_for s t =
     (case lifetime_get (sch_lifetimes s) (qt_pid t) of
        Some lt \<Rightarrow> recent_sleep_gap_ns (last_stop_ts lt) (start_ts t) | None \<Rightarrow> 0)"

definition clamp_max_for :: "scheduler \<Rightarrow> u64" where
  "clamp_max_for s = max (sch_base_slice_ns s * 4) (slice_ns_min s)"

text \<open>Lines from the weight-scaled slice to the real-time floor.\<close>

definition assigned_slice :: "scheduler \<Rightarrow> queued_task \<Rightarrow> task_label \<Rightarrow> bool \<Rightarrow> u64 \<Rightarrow> fault + u64" where
  "assigned_slice s t label boosted sleep_ns =
     (let slice = sat_mul (read_slice_ns (sch_controller s)) (max (qt_weight t) 1) div 100 in
      bindR (if boosted then bindR (interactive_sleep_bonus_ns s sleep_ns (sch_base_slice_ns s))
                              (\<lambda>bonus. Inr (sat_add slice (bonus div 2)))
             else Inr slice) (\<lambda>slice.
      bindR (clampR slice (slice_ns_min s) (clamp_max_for s)) (\<lambda>slice.
      Inr (if label = RealTime then min (max slice (sch_base_slice_ns s)) (clamp_max_for s) else slice))))"

definition wake_credit :: "scheduler \<Rightarrow> bool \<Rightarrow> u64 \<Rightarrow> u64 \<Rightarrow> fault + u64" where
  "wake_credit s boosted sleep_ns slice_ns =
     (if boosted then bindR (interactive_sleep_bonus_ns s sleep_ns (sch_base_slice_ns s))
        (\<lambda>bonus. Inr (min (min (max bonus (slice_ns_min s div 2)) slice_ns) 4000000))
      else Inr 0)"

text \<open>The task's virtual time when the event enters, before it is charged for its burst.\<close>

definition entry_vtime :: "scheduler \<Rightarrow> queued_task \<Rightarrow> u64" where
  "entry_vtime s t =
     (if qt_vtime t = 0 then vruntime_now s
      else max (qt_vtime t) (sat_sub (vruntime_now s) (sch_base_slice_ns s)))"

definition charged_vtime :: "scheduler \<Rightarrow> queued_task \<Rightarrow> u64" where
  "charged_vtime s t = sat_add (entry_vtime s t) (scale_by_weight_inverse t (burst_of t))"

definition deadline_for :: "task_label \<Rightarrow> queued_task \<Rightarrow> u64 \<Rightarrow> u64" where
  "deadline_for label task slice_ns =
     (if label = RealTime then 0 else sat_add (qt_vtime task) (scale_by_weight_inverse task slice_ns))"

text \<open>
  The classification of the event: its label, whether it is a kernel worker, latency-sensitive and
  wake-boosted, and the sleep gap this rests on.
\<close>

definition event_class :: "scheduler \<Rightarrow> queued_task \<Rightarrow> i32 \<Rightarrow> task_label \<times> bool \<times> bool \<times> bool \<times> u64" where
  "event_class s t cpus =
     (let prev_slice_ns = prev_slice_for s (qt_pid t);
          recent_sleep_ns = recent_sleep_for s t;
          features = compute_features t (sch_base_slice_ns s) prev_slice_ns cpus;
          kworker = is_kernel_worker t;
          label = (if kworker then RealTime else classify features);
          sensitive = is_latency_sensitive label features recent_sleep_ns;
          boosted = should_wake_boost sensitive (exec_ratio features) (cpu_intensity features) recent_sleep_ns
      in (label, kworker, sensitive, boosted, recent_sleep_ns))"

definition derive_task_policy ::
    "'w os \<Rightarrow> queued_task \<Rightarrow>
     (scheduler \<times> 'w, queued_task \<times> u64 \<times> u64 \<times> task_label \<times> bool \<times> bool \<times> bool \<times> u64) action" where
  "derive_task_policy os t =
     bindS (ask (os_now os)) (\<lambda>t0.
     bindS (on_bpf (read_counter os Nr_online_cpus)) (\<lambda>cpus.
     bindS (gets_own (\<lambda>s. s)) (\<lambda>s.
     case event_class s t (ucast (max cpus 1)) of (label, kworker, sensitive, boosted, recent_sleep_ns) \<Rightarrow>
     bindS (modify_own (\<lambda>s. s\<lparr>label_counts := (label_counts s)(label := label_counts s label + 1)\<rparr>)) (\<lambda>_.
     bindS (lift_fault (assigned_slice s t label boosted recent_sleep_ns)) (\<lambda>slice.
     bindS (modify_own (sample_assigned_slice slice)) (\<lambda>_.
     bindS (lift_fault (wake_credit s boosted recent_sleep_ns slice)) (\<lambda>credit.
     let task = t\<lparr>qt_vtime := charged_vtime s t\<rparr>; deadline = deadline_for label task slice in
     bindS (modify_own (\<lambda>s. s\<lparr>vruntime_now := max (vruntime_now s) (qt_vtime task)\<rparr>)) (\<lambda>_.
     bindS (ask (os_now os)) (\<lambda>t1.
     bindS (modify_own (\<lambda>s. s\<lparr>total_inference_ns := total_inference_ns s + sat_sub t1 t0,
                              inference_samples := inference_samples s + 1\<rparr>)) (\<lambda>_.
     return (task, deadline, slice, label, kworker, sensitive, boosted, credit)))))))))))"

section \<open>Slices and credits\<close>

lemma half_le: "a div 2 \<le> (a :: u64)"
  by (simp add: word_le_nat_alt unat_div_word)

lemma sleep_bonus_total:
  "\<exists>b. interactive_sleep_bonus_ns s sleep base = Inr b"
proof -
  have "slice_ns_min s div 2 \<le> max base (slice_ns_min s)" using half_le [of "slice_ns_min s"] by (simp add: le_max_iff_disj)
  then show ?thesis by (simp add: interactive_sleep_bonus_ns_def clampR_ok)
qed

lemma clamp_max_ge: "slice_ns_min s \<le> clamp_max_for s"
  by (simp add: clamp_max_for_def)

lemma assigned_slice_total:
  "\<exists>x. assigned_slice s t label boosted sleep = Inr x \<and> slice_ns_min s \<le> x \<and> x \<le> clamp_max_for s \<and>
     (label = RealTime \<and> sch_base_slice_ns s \<le> clamp_max_for s \<longrightarrow> sch_base_slice_ns s \<le> x)"
proof -
  obtain b where b: "interactive_sleep_bonus_ns s sleep (sch_base_slice_ns s) = Inr b"
    using sleep_bonus_total by blast
  let ?y = "\<lambda>x. clamp x (slice_ns_min s) (clamp_max_for s)"
  have y: "slice_ns_min s \<le> ?y x" "?y x \<le> clamp_max_for s" for x
    using clamp_bounds [OF clamp_max_ge] by auto
  show ?thesis
    using b y clamp_max_ge [of s]
    by (auto simp: assigned_slice_def Let_def clampR_ok [OF clamp_max_ge] min_def max_def intro: order_trans)
qed

lemma wake_credit_total:
  "\<exists>x. wake_credit s boosted sleep sl = Inr x \<and> x \<le> sl \<and> x \<le> 4000000 \<and> (\<not> boosted \<longrightarrow> x = 0)"
proof -
  obtain b where b: "interactive_sleep_bonus_ns s sleep (sch_base_slice_ns s) = Inr b"
    using sleep_bonus_total by blast
  then show ?thesis by (cases boosted) (auto simp: wake_credit_def min_le_iff_disj)
qed

section \<open>The whole step\<close>

text \<open>The fields \<open>derive_task_policy\<close> may write.\<close>

definition policy_frame :: "scheduler \<Rightarrow> scheduler \<Rightarrow> bool" where
  "policy_frame s s' \<longleftrightarrow> (\<exists>lc ema v ti n. s' = s\<lparr>label_counts := lc, assigned_slice_ema_ns := ema,
     vruntime_now := v, total_inference_ns := ti, inference_samples := n\<rparr>)"

lemma policy_frameI:
  "policy_frame s (s\<lparr>label_counts := lc, assigned_slice_ema_ns := ema, vruntime_now := v, total_inference_ns := ti,
     inference_samples := n\<rparr>)"
  unfolding policy_frame_def by blast

lemma policy_frame_same:
  assumes "policy_frame s s'"
  shows "lane_queue l s' = lane_queue l s" "sch_bpf s' = sch_bpf s" "sch_lifetimes s' = sch_lifetimes s"
    "trust s' = trust s" "sch_controller s' = sch_controller s" "sch_opts s' = sch_opts s"
    "sch_base_slice_ns s' = sch_base_slice_ns s" "slice_ns_min s' = slice_ns_min s" "profile s' = profile s"
  using assms by (cases l; auto simp: policy_frame_def)+

definition policy_result ::
    "scheduler \<Rightarrow> queued_task \<Rightarrow> queued_task \<times> u64 \<times> u64 \<times> task_label \<times> bool \<times> bool \<times> bool \<times> u64 \<Rightarrow> bool" where
  "policy_result s t = (\<lambda>(task, dl, sl, label, kw, sens, boost, credit).
     task = t\<lparr>qt_vtime := charged_vtime s t\<rparr> \<and> slice_ns_min s \<le> sl \<and> sl \<le> clamp_max_for s \<and>
     (label = RealTime \<and> sch_base_slice_ns s \<le> clamp_max_for s \<longrightarrow> sch_base_slice_ns s \<le> sl) \<and>
     kw = is_kernel_worker t \<and> (label = RealTime \<longleftrightarrow> kw \<or> 9500 < unat (qt_weight t)) \<and>
     (boost \<longrightarrow> sens \<and> label = Interactive) \<and>
     dl = deadline_for label task sl \<and>
     credit \<le> sl \<and> credit \<le> 4000000 \<and> (\<not> boost \<longrightarrow> credit = 0))"

lemma boost_interactive:
  "should_wake_boost (is_latency_sensitive lab f n) er ci m \<Longrightarrow> lab = (if kw then RealTime else classify f) \<Longrightarrow>
     lab = Interactive"
  using lit_order(4)
  by (auto simp: should_wake_boost_def is_latency_sensitive_def classify_def split: if_splits)

lemma boost_sensitive: "should_wake_boost sens er ci m \<Longrightarrow> sens"
  by (simp add: should_wake_boost_def)

lemma event_class_facts:
  assumes "event_class s t n = (label, kw, sens, boost, sleep)"
  shows "kw = is_kernel_worker t \<and> (label = RealTime \<longleftrightarrow> kw \<or> 9500 < unat (qt_weight t)) \<and>
    (boost \<longrightarrow> sens \<and> label = Interactive)"
proof -
  define f where "f = compute_features t (sch_base_slice_ns s) (prev_slice_for s (qt_pid t)) n"
  have lab: "label = (if is_kernel_worker t then RealTime else classify f)" and kw: "kw = is_kernel_worker t"
    and boost: "boost = should_wake_boost sens (exec_ratio f) (cpu_intensity f) sleep"
    and sens: "sens = is_latency_sensitive label f sleep"
    using assms by (auto simp: event_class_def Let_def f_def)
  have "boost \<longrightarrow> sens \<and> label = Interactive"
    using boost_interactive [OF _ lab] boost_sensitive unfolding boost sens by blast
  then show ?thesis using lab kw by (simp add: f_def classify_weight)
qed

lemma wp_derive_task_policy:
  assumes os: "libbpf_ok os rx tx" and present: "bss_present (sch_bpf s)"
  shows "wp (derive_task_policy os t) (\<lambda>r (s', w'). policy_result s t r \<and> policy_frame s s' \<and>
     vruntime_now s' = max (vruntime_now s) (charged_vtime s t) \<and>
     (\<forall>l. label_counts s' l = label_counts s l + (if l = fst (snd (snd (snd r))) then 1 else 0)) \<and>
     rx w' = rx w \<and> tx w' = tx w) (s, w)"
proof -
  obtain cpus w1 where c: "os_counter os Nr_online_cpus (snd (os_now os w)) = (cpus, w1)" by fastforce
  obtain label kw sens boost sleep where
    cls: "event_class s t (ucast (max cpus 1)) = (label, kw, sens, boost, sleep)" by (metis prod.exhaust)
  note ec = event_class_facts [OF cls]
  obtain sl where sl: "assigned_slice s t label boost sleep = Inr sl" "slice_ns_min s \<le> sl" "sl \<le> clamp_max_for s"
    "label = RealTime \<and> sch_base_slice_ns s \<le> clamp_max_for s \<longrightarrow> sch_base_slice_ns s \<le> sl"
    using assigned_slice_total [of s t label boost sleep] by blast
  obtain cr where cr: "wake_credit s boost sleep sl = Inr cr" "cr \<le> sl" "cr \<le> 4000000" "\<not> boost \<longrightarrow> cr = 0"
    using wake_credit_total [of s boost sleep sl] by blast
  have w1: "rx w1 = rx w" "tx w1 = tx w"
    using libbpf_silent(5,6) [OF os, of Nr_online_cpus "snd (os_now os w)"] libbpf_silent(1,2) [OF os, of w] c
    by simp_all
  let ?s = "s\<lparr>label_counts := (label_counts s)(label := label_counts s label + 1),
      assigned_slice_ema_ns := (if assigned_slice_ema_ns s = 0 then sl else (sat_mul (assigned_slice_ema_ns s) 7 + sl) div 8),
      vruntime_now := max (vruntime_now s) (charged_vtime s t),
      total_inference_ns := total_inference_ns s + sat_sub (fst (os_now os w1)) (fst (os_now os w)),
      inference_samples := inference_samples s + 1\<rparr>"
  let ?r = "(t\<lparr>qt_vtime := charged_vtime s t\<rparr>, deadline_for label (t\<lparr>qt_vtime := charged_vtime s t\<rparr>) sl, sl, label,
      kw, sens, boost, cr)"
  have res: "policy_result s t ?r"
    unfolding policy_result_def prod.case using sl(2-4) cr(2-4) ec by blast
  have frame: "policy_frame s ?s" by (rule policy_frameI)
  have fields: "vruntime_now ?s = max (vruntime_now s) (charged_vtime s t)"
    "\<forall>l. label_counts ?s l = label_counts s l + (if l = fst (snd (snd (snd ?r))) then 1 else 0)" by simp_all
  have post: "policy_result s t ?r \<and> policy_frame s ?s \<and> vruntime_now ?s = max (vruntime_now s) (charged_vtime s t) \<and>
      (\<forall>l. label_counts ?s l = label_counts s l + (if l = fst (snd (snd (snd ?r))) then 1 else 0)) \<and>
      rx (snd (os_now os w1)) = rx w \<and> tx (snd (os_now os w1)) = tx w"
    using res frame fields w1 libbpf_silent(1,2) [OF os, of w1] by simp
  have run: "derive_task_policy os t (s, w) = Inr (?r, (?s, snd (os_now os w1)))"
    unfolding derive_task_policy_def
    by (simp add: bindS_def ask_def on_bpf_def on_part_def read_counter_def gets_own_def gets_def modify_own_def
        modify_def lift_fault_def return_def present c cls sl(1) cr(1) sample_assigned_slice_def Let_def
        split_beta del: One_nat_def)
  show ?thesis unfolding wp_def run sum.case prod.case by (rule post)
qed

lemma derive_run:
  assumes "libbpf_ok os rx tx" and "bss_present (sch_bpf s)"
  obtains task dl sl label kw sens boost credit s' w' where
    "derive_task_policy os t (s, w) = Inr ((task, dl, sl, label, kw, sens, boost, credit), (s', w'))"
    "task = t\<lparr>qt_vtime := charged_vtime s t\<rparr>" "slice_ns_min s \<le> sl" "sl \<le> clamp_max_for s"
    "label = RealTime \<and> sch_base_slice_ns s \<le> clamp_max_for s \<longrightarrow> sch_base_slice_ns s \<le> sl"
    "kw = is_kernel_worker t" "label = RealTime \<longleftrightarrow> kw \<or> 9500 < unat (qt_weight t)"
    "boost \<longrightarrow> sens \<and> label = Interactive" "dl = deadline_for label task sl"
    "credit \<le> sl" "credit \<le> 4000000" "\<not> boost \<longrightarrow> credit = 0" "policy_frame s s'"
    "vruntime_now s' = max (vruntime_now s) (charged_vtime s t)"
    "\<forall>l. label_counts s' l = label_counts s l + (if l = label then 1 else 0)" "rx w' = rx w" "tx w' = tx w"
proof -
  from wp_derive_task_policy [OF assms, of t w] obtain r s' w' where
    "derive_task_policy os t (s, w) = Inr (r, (s', w'))" "policy_result s t r" "policy_frame s s'"
    "vruntime_now s' = max (vruntime_now s) (charged_vtime s t)"
    "\<forall>l. label_counts s' l = label_counts s l + (if l = fst (snd (snd (snd r))) then 1 else 0)"
    "rx w' = rx w" "tx w' = tx w" by (auto simp: wp_iff)
  moreover obtain task dl sl label kw sens boost credit where "r = (task, dl, sl, label, kw, sens, boost, credit)"
    by (metis prod.exhaust)
  ultimately show ?thesis using that unfolding policy_result_def prod.case by (simp only: fst_conv snd_conv) blast
qed

section \<open>Virtual time\<close>

lemma sat_add_ge: "a \<le> sat_add a b" for a b :: "'a::len word"
proof -
  have "unat a < 2 ^ LENGTH('a)" by (rule unsigned_less)
  then have "unat a \<le> 2 ^ LENGTH('a) - 1" by linarith
  then show ?thesis by (simp add: word_le_nat_alt unat_sat_add)
qed

lemma sat_add_mono: "a \<le> a' \<Longrightarrow> b \<le> b' \<Longrightarrow> sat_add a b \<le> sat_add a' b'" for a b :: "'a::len word"
  by (simp add: word_le_nat_alt unat_sat_add min_le_iff_disj)

lemma entry_vtime_ge: "sat_sub (vruntime_now s) (sch_base_slice_ns s) \<le> entry_vtime s t"
  by (simp add: entry_vtime_def word_le_nat_alt unat_sat_sub le_max_iff_disj unat_max_word)

lemma charged_vtime_ge: "entry_vtime s t \<le> charged_vtime s t"
  by (simp add: charged_vtime_def sat_add_ge)

lemma clamp_max_no_wrap:
  assumes "unat (sch_base_slice_ns s) < 2 ^ 62"
  shows "unat (clamp_max_for s) = max (4 * unat (sch_base_slice_ns s)) (unat (slice_ns_min s))"
  using assms by (simp add: clamp_max_for_def unat_max_word unat_word_ariths)

section \<open>Properties\<close>

text \<open>
  C27. For every event the policy step returns, without panicking, a slice between the configured minimum
  and the larger of that minimum and four times the base slice; a real-time task gets at least the base
  slice; a wake-up credit is given only to boosted tasks and exceeds neither the slice nor 4 ms. (The
  hypothesis on the base slice keeps \<open>ref_base * 4\<close> from overflowing.)
\<close>

theorem policy_slice_bounds:
  assumes "libbpf_ok os rx tx" and "bss_present (sch_bpf s)" and "unat (sch_base_slice_ns s) < 2 ^ 62"
  shows "\<exists>task dl sl label kw sens boost credit s' w'.
    derive_task_policy os t (s, w) = Inr ((task, dl, sl, label, kw, sens, boost, credit), (s', w')) \<and>
    unat (slice_ns_min s) \<le> unat sl \<and>
    unat sl \<le> max (4 * unat (sch_base_slice_ns s)) (unat (slice_ns_min s)) \<and>
    (label = RealTime \<longrightarrow> sch_base_slice_ns s \<le> sl) \<and>
    credit \<le> sl \<and> unat credit \<le> 4000000 \<and> (\<not> boost \<longrightarrow> credit = 0)"
proof -
  have "sch_base_slice_ns s \<le> clamp_max_for s"
    using clamp_max_no_wrap [OF assms(3)] by (simp add: word_le_nat_alt)
  note bound = this clamp_max_no_wrap [OF assms(3)]
  show ?thesis
    by (rule derive_run [OF assms(1,2), of t w]) (use bound in \<open>simp add: word_le_nat_alt\<close>)
qed

lemma scheduler_new_state:
  obtains s where "scheduler_new opts_default bpf_started 0 = Inr s" "lanes_ok s" "backlog s = []"
    "\<not> has_deferred_tasks s" "bss_present (sch_bpf s)" "unat (sch_base_slice_ns s) < 2 ^ 62"
    "vruntime_now s = 0" "sch_lifetimes s = lifetimes_zeroed" "trust s = trust_new"
proof -
  have "unat (prof_slice_ns (from_opts opts_default)) < 2 ^ 62"
    by (simp add: from_opts_def opts_default_def mode_defaults_def Let_def DEFAULT_DESKTOP_SLICE_NS_def
        DEFAULT_DESKTOP_SLICE_MIN_NS_def)
  with scheduler_new_ok [of opts_default bpf_started 0] that show ?thesis
    by (auto simp: bpf_started_def)
qed

theorem policy_slice_bounds_witness:
  "\<exists>s r s' w'. scheduler_new opts_default bpf_started 0 = Inr s \<and>
     derive_task_policy script_os sample_task (s, ([], [], [])) = Inr (r, (s', w'))"
proof -
  obtain s where "scheduler_new opts_default bpf_started 0 = Inr s" "bss_present (sch_bpf s)"
    "unat (sch_base_slice_ns s) < 2 ^ 62" using scheduler_new_state by metis
  with policy_slice_bounds [OF script_ok, of s sample_task "([], [], [])"] show ?thesis by blast
qed

text \<open>The virtual-time length of \<open>value\<close> nanoseconds for a task, saturating as the code does.\<close>

definition weighted_ns :: "queued_task \<Rightarrow> nat \<Rightarrow> nat" where
  "weighted_ns t value = min (value * 100) (2 ^ 64 - 1) div max (unat (qt_weight t)) 1"

lemma weighted_ns_eq: "unat (scale_by_weight_inverse t x) = weighted_ns t (unat x)"
  by (simp add: scale_by_weight_inverse_def weighted_ns_def unat_div unat_sat_mul unat_max_word)

lemma weighted_ns_vtime [simp]: "weighted_ns (t\<lparr>qt_vtime := v\<rparr>) = weighted_ns t"
  by (simp add: weighted_ns_def fun_eq_iff)

text \<open>
  C25. The virtual clock is the front of the charged virtual times: an event charges its task for its burst, scaled
  inversely to its weight, from where the task stood, or from one base slice behind the clock if it had slept longer
  than that, or from the clock if the task is new; and the clock becomes the larger of what it was and that charged
  time. So it never goes back and no task is ahead of it. A deadline is the task's virtual time plus its slice, scaled
  in the same way, except that real-time tasks get deadline 0. (The sums saturate at the width.)
\<close>

theorem virtual_clock_sound:
  assumes "libbpf_ok os rx tx" and "bss_present (sch_bpf s)"
  shows "\<exists>task dl sl label rest s' w'. derive_task_policy os t (s, w) = Inr ((task, dl, sl, label, rest), (s', w')) \<and>
    unat (qt_vtime task) = min ((if qt_vtime t = 0 then unat (vruntime_now s)
        else max (unat (qt_vtime t)) (unat (vruntime_now s) - unat (sch_base_slice_ns s))) +
      weighted_ns t (unat (stop_ts t) - unat (start_ts t))) (2 ^ 64 - 1) \<and>
    vruntime_now s' = max (vruntime_now s) (qt_vtime task) \<and>
    vruntime_now s \<le> vruntime_now s' \<and> qt_vtime task \<le> vruntime_now s' \<and>
    unat (vruntime_now s) - unat (sch_base_slice_ns s) \<le> unat (qt_vtime task) \<and>
    (qt_vtime t = 0 \<longrightarrow> vruntime_now s \<le> qt_vtime task) \<and>
    unat dl = (if label = RealTime then 0 else min (unat (qt_vtime task) + weighted_ns t (unat sl)) (2 ^ 64 - 1))"
proof -
  have "vruntime_now s \<le> entry_vtime s t" if "qt_vtime t = 0" using that by (simp add: entry_vtime_def)
  moreover have "unat (vruntime_now s) - unat (sch_base_slice_ns s) \<le> unat (charged_vtime s t)"
    using entry_vtime_ge [of s t] charged_vtime_ge [of s t] by (simp add: word_le_nat_alt unat_sat_sub)
  ultimately have bound: "qt_vtime t = 0 \<longrightarrow> vruntime_now s \<le> charged_vtime s t"
    "unat (vruntime_now s) - unat (sch_base_slice_ns s) \<le> unat (charged_vtime s t)"
    using charged_vtime_ge [of s t] by auto
  have entry: "unat (entry_vtime s t) = (if qt_vtime t = 0 then unat (vruntime_now s)
      else max (unat (qt_vtime t)) (unat (vruntime_now s) - unat (sch_base_slice_ns s)))"
    by (simp add: entry_vtime_def unat_max_word unat_sat_sub)
  have charged: "unat (charged_vtime s t) = min (unat (entry_vtime s t) + weighted_ns t (unat (stop_ts t) - unat (start_ts t))) (2 ^ 64 - 1)"
    by (simp add: charged_vtime_def unat_sat_add weighted_ns_eq burst_of_def unat_sat_sub)
  have dl: "unat (deadline_for label task sl) =
      (if label = RealTime then 0 else min (unat (qt_vtime task) + weighted_ns task (unat sl)) (2 ^ 64 - 1))" for label task sl
    by (simp add: deadline_for_def unat_sat_add weighted_ns_eq)
  show ?thesis
    by (rule derive_run [OF assms, of t w]) (use bound charged entry dl in simp)
qed

theorem virtual_clock_sound_witness:
  "\<exists>s r s' w'. scheduler_new opts_default bpf_started 0 = Inr s \<and>
     derive_task_policy script_os sample_task (s, ([], [], [])) = Inr (r, (s', w')) \<and> vruntime_now s \<le> vruntime_now s'"
proof -
  obtain s where "scheduler_new opts_default bpf_started 0 = Inr s" "bss_present (sch_bpf s)"
    using scheduler_new_state by metis
  with virtual_clock_sound [OF script_ok, of s sample_task "([], [], [])"] show ?thesis by blast
qed

text \<open>
  Service is weighted: for the same burst, the heavier of two tasks is charged no more virtual time,
  and a task of the default weight 100 is charged its burst exactly (when that does not saturate).
\<close>

theorem heavier_tasks_charged_less:
  assumes "qt_weight a \<le> qt_weight b" and "qt_vtime a = qt_vtime b" and "burst_of a = burst_of b"
  shows "charged_vtime s b \<le> charged_vtime s a \<and>
    (unat (qt_weight a) = 100 \<and> unat (burst_of a) * 100 < 2 ^ 64 \<longrightarrow>
       charged_vtime s a = sat_add (entry_vtime s a) (burst_of a))"
proof -
  have pos: "0 < unat (max (qt_weight a) 1)" by (simp add: unat_max_word)
  have "unat (max (qt_weight a) 1) \<le> unat (max (qt_weight b) 1)"
    using assms(1) by (simp add: word_le_nat_alt unat_max_word)
  then have "scale_by_weight_inverse b (burst_of b) \<le> scale_by_weight_inverse a (burst_of a)"
    unfolding scale_by_weight_inverse_def assms(3)
    using pos by (simp add: word_le_nat_alt unat_div_word div_le_mono2)
  then have "charged_vtime s b \<le> charged_vtime s a"
    using assms(2) by (simp add: charged_vtime_def entry_vtime_def sat_add_mono)
  moreover have "scale_by_weight_inverse a (burst_of a) = burst_of a"
    if "unat (qt_weight a) = 100" "unat (burst_of a) * 100 < 2 ^ 64"
    using that by (simp add: scale_by_weight_inverse_def word_unat_eq_iff unat_div_word unat_sat_mul unat_max_word)
  ultimately show ?thesis by (auto simp: charged_vtime_def)
qed

theorem heavier_tasks_charged_less_witness:
  "\<exists>s. scheduler_new opts_default bpf_started 0 = Inr s \<and>
     charged_vtime s (sample_task\<lparr>qt_weight := 200\<rparr>) \<le> charged_vtime s sample_task"
proof -
  obtain s where "scheduler_new opts_default bpf_started 0 = Inr s" using scheduler_new_state by metis
  moreover have "charged_vtime s (sample_task\<lparr>qt_weight := 200\<rparr>) \<le> charged_vtime s sample_task" for s
    using heavier_tasks_charged_less [of sample_task "sample_task\<lparr>qt_weight := 200\<rparr>" s]
    by (simp add: sample_task_def burst_of_def)
  ultimately show ?thesis by blast
qed

text \<open>
  The kernel-worker test reads the comm alone: every task whose name holds a slash before its first
  NUL, or starts with one of the listed daemon names, is scheduled as RealTime with deadline 0. The
  PF_KTHREAD flag plays no part, so a user process that names itself so is treated as a kernel worker.
\<close>

theorem comm_decides_kernel_worker:
  assumes "libbpf_ok os rx tx" and "bss_present (sch_bpf s)"
    and "qt_comm t = name @ 0 # rest" and "0 \<notin> set name" and "47 \<in> set name \<or> (\<exists>p \<in> set KPREFIXES. prefix p name)"
  shows "\<exists>task sl sens s' w'. derive_task_policy os t (s, w) =
    Inr ((task, 0, sl, RealTime, True, sens, False, 0), (s', w'))"
proof -
  have "position (\<lambda>b. b = 0) (name @ 0 # rest) = Some (length name)"
    using assms(4) by (induction name) auto
  then have "is_kernel_worker t" using assms(3,5) by (simp add: is_kernel_worker_def)
  note kw = this
  show ?thesis
    by (rule derive_run [OF assms(1,2), of t w]) (use kw in \<open>auto simp: deadline_for_def\<close>)
qed

theorem comm_decides_kernel_worker_witness:
  "\<exists>s task sl sens s' w'. scheduler_new opts_default bpf_started 0 = Inr s \<and>
     derive_task_policy script_os (sample_task\<lparr>qt_comm := [97, 47, 98] @ 0 # replicate 12 0\<rparr>) (s, ([], [], [])) =
       Inr ((task, 0, sl, RealTime, True, sens, False, 0), (s', w'))"
proof -
  obtain s where s: "scheduler_new opts_default bpf_started 0 = Inr s" "bss_present (sch_bpf s)"
    using scheduler_new_state by metis
  then show ?thesis
    using comm_decides_kernel_worker [OF script_ok s(2), of "sample_task\<lparr>qt_comm := [97, 47, 98] @ 0 # replicate 12 0\<rparr>"
        "[97, 47, 98]" "replicate 12 0" "([], [], [])"] by fastforce
qed

end
