(* ===== verification/Pipeline.thy ===== *)
theory Pipeline
  imports Task_Policy
begin

text \<open>
  The scheduling cycle of \<open>src/main.rs\<close>: \<open>drain_queued_tasks\<close>, \<open>dispatch_task\<close> and \<open>schedule\<close>. The
  bounded drain loop recurses on the budget that is left; the dispatch loop, which the source does not bound,
  is a partial function, and its termination is a theorem. \<open>ledger\<close> is the conservation law of the cycle:
  every task received from the kernel is either still queued or has been submitted back.
\<close>

section \<open>Model\<close>

definition preempted_by :: "u64 \<Rightarrow> u64 \<Rightarrow> bool" where
  "preempted_by used slice_ns \<longleftrightarrow> sat_sub slice_ns (slice_ns div 8) \<le> used"

definition lifetime_after :: "queued_task \<Rightarrow> u64 \<Rightarrow> u64 \<Rightarrow> task_lifetime \<Rightarrow> task_lifetime" where
  "lifetime_after t slice_ns now e = e\<lparr>slice_assigned_ns := slice_ns, last_slice_ns := slice_ns,
     slice_used_ns := burst_of t, lt_preempted := preempted_by (burst_of t) slice_ns, lt_cheat_flagged := False,
     interactive_slice_bias_ns := 0, interactive_slice_credit_ns := 0, last_seen_ns := now,
     last_stop_ts := stop_ts t\<rparr>"

text \<open>One received task: policy, lifetime entry, lane.\<close>

definition accept_task :: "'w os \<Rightarrow> queued_task \<Rightarrow> (scheduler \<times> 'w, unit) action" where
  "accept_task os t =
     bindS (derive_task_policy os t) (\<lambda>(t, deadline_ns, slice_ns, label, kworker, sensitive, boosted, credit).
     bindS (ask (os_now os)) (\<lambda>timestamp_ns.
     bindS (ask (os_now os)) (\<lambda>seen_ns.
     bindS (modify_own (\<lambda>s. s\<lparr>sch_lifetimes :=
         lifetime_update (lifetime_after t slice_ns seen_ns) (sch_lifetimes s) (qt_pid t)\<rparr>)) (\<lambda>_.
     push_task os \<lparr>qtask = t, deadline = deadline_ns, timestamp = timestamp_ns, task_label = label,
       wake_boosted = boosted, wake_credit_ns = credit, latency_sensitive = sensitive, is_kworker = kworker,
       task_slice_ns = slice_ns\<rparr>))))"

fun drain_queued_tasks :: "'w os \<Rightarrow> nat \<Rightarrow> (scheduler \<times> 'w, unit) action" where
  "drain_queued_tasks os 0 = return ()"
| "drain_queued_tasks os (Suc n) =
     bindS (gets_own has_deferred_tasks) (\<lambda>full.
     if full then return ()
     else bindS (on_bpf (dequeue_task os)) (\<lambda>r. case r of
         Inr (Some t) \<Rightarrow> bindS (accept_task os t) (\<lambda>_. drain_queued_tasks os n)
       | Inr None \<Rightarrow> return ()
       | Inl err \<Rightarrow> return ()))"

definition wake_deadline_credit_ns :: "task \<Rightarrow> u64" where
  "wake_deadline_credit_ns t =
     (if wake_boosted t then min (max (wake_credit_ns t) (task_slice_ns t div 2)) 4000000 else 0)"

definition dispatched_for :: "opts \<Rightarrow> task \<Rightarrow> dispatched_task" where
  "dispatched_for cli t =
     (dispatched_new (qtask t))\<lparr>dt_slice_ns := task_slice_ns t,
       dt_vtime := (if task_label t = RealTime then 0 else sat_sub (deadline t) (wake_deadline_credit_ns t)),
       dt_cpu := (if percpu_local cli \<or> is_kworker t then qt_cpu (qtask t) else RL_CPU_ANY)\<rparr>"

definition dispatch_task :: "'w os \<Rightarrow> (scheduler \<times> 'w, bool) action" where
  "dispatch_task os =
     bindS (pop_highest_priority_task os) (\<lambda>r. case r of
       None \<Rightarrow> return True
     | Some t \<Rightarrow>
         bindS (gets_own sch_opts) (\<lambda>cli.
         bindS (on_bpf (bpf_dispatch_task os (dispatched_for cli t))) (\<lambda>res. case res of
           Inl err \<Rightarrow> bindS (push_task os t) (\<lambda>_. return False)
         | Inr _ \<Rightarrow> return True)))"

partial_function (option) dispatch_all ::
    "'w os \<Rightarrow> scheduler \<times> 'w \<Rightarrow> (fault + (unit \<times> (scheduler \<times> 'w))) option" where
  "dispatch_all os st =
     (if tasks_empty (fst st) then Some (Inr ((), st))
      else case dispatch_task os st of
        Inl e \<Rightarrow> Some (Inl e)
      | Inr (ok, st') \<Rightarrow> if ok then dispatch_all os st' else Some (Inr ((), st')))"

declare dispatch_all.simps [code]

definition drain_budget :: "u64 \<Rightarrow> nat" where
  "drain_budget nr_online = unat (max (sat_mul (max nr_online 1) 4) 16)"

definition schedule :: "'w os \<Rightarrow> (scheduler \<times> 'w, unit) action" where
  "schedule os =
     bindS (ask (os_now os)) (\<lambda>t0.
     bindS (on_bpf (read_counter os Nr_online_cpus)) (\<lambda>cpus.
     bindS (drain_queued_tasks os (drain_budget cpus)) (\<lambda>_.
     bindS (of_loop (dispatch_all os)) (\<lambda>_.
     bindS (gets_own tasks_len) (\<lambda>n.
     bindS (on_bpf (notify_complete os (of_nat n))) (\<lambda>_.
     bindS (ask (os_now os)) (\<lambda>t1.
     on_part sch_controller (\<lambda>c. sch_controller_update (\<lambda>_. c))
       (\<lambda>(c, w). bindR (record_latency c (sat_sub t1 t0)) (\<lambda>c'. Inr ((), (c', w)))))))))))"

section \<open>The conservation law\<close>

text \<open>What identifies an enqueue event on both sides of the rings.\<close>

definition ident :: "queued_task \<Rightarrow> i32 \<times> u64 \<times> u64" where
  "ident q = (qt_pid q, qt_enq_cnt q, qt_flags q)"

definition dident :: "dispatched_task \<Rightarrow> i32 \<times> u64 \<times> u64" where
  "dident d = (dt_pid d, dt_enq_cnt d, dt_flags d)"

definition queued_idents :: "scheduler \<Rightarrow> (i32 \<times> u64 \<times> u64) multiset" where
  "queued_idents s = mset (map (\<lambda>t. ident (qtask t)) (backlog s))"

definition ledger :: "('w \<Rightarrow> u8 list list) \<Rightarrow> ('w \<Rightarrow> u8 list list) \<Rightarrow> scheduler \<times> 'w \<Rightarrow> scheduler \<times> 'w \<Rightarrow> bool" where
  "ledger rx tx = (\<lambda>(s, w) (s', w'). \<exists>ins outs. rx w' = rx w @ ins \<and> tx w' = tx w @ outs \<and>
     queued_idents s + mset (map ident (received ins)) = queued_idents s' + mset (map dident (submitted outs)) \<and>
     (\<forall>m \<in> set outs. length m = DISPATCHED_TASK_CTX_SIZE))"

lemma ledger_refl: "queued_idents s' = queued_idents s \<Longrightarrow> rx w' = rx w \<Longrightarrow> tx w' = tx w \<Longrightarrow> ledger rx tx (s, w) (s', w')"
  unfolding ledger_def prod.case
  by (intro exI [of _ "[]"]) (simp add: received_def submitted_def map_filter_def)

lemma ledger_trans:
  assumes "ledger rx tx a b" and "ledger rx tx b c" shows "ledger rx tx a c"
proof -
  obtain s w s1 w1 s2 w2 where st: "a = (s, w)" "b = (s1, w1)" "c = (s2, w2)" by (metis prod.exhaust)
  from assms(1) obtain i1 o1 where 1: "rx w1 = rx w @ i1" "tx w1 = tx w @ o1"
    "queued_idents s + mset (map ident (received i1)) = queued_idents s1 + mset (map dident (submitted o1))"
    "\<forall>m \<in> set o1. length m = DISPATCHED_TASK_CTX_SIZE"
    unfolding st ledger_def prod.case by blast
  from assms(2) obtain i2 o2 where 2: "rx w2 = rx w1 @ i2" "tx w2 = tx w1 @ o2"
    "queued_idents s1 + mset (map ident (received i2)) = queued_idents s2 + mset (map dident (submitted o2))"
    "\<forall>m \<in> set o2. length m = DISPATCHED_TASK_CTX_SIZE"
    unfolding st ledger_def prod.case by blast
  have "queued_idents s + mset (map ident (received (i1 @ i2))) =
      (queued_idents s1 + mset (map ident (received i2))) + mset (map dident (submitted o1))"
    using 1(3) by (simp add: received_append ac_simps)
  also have "\<dots> = queued_idents s2 + mset (map dident (submitted (o1 @ o2)))"
    using 2(3) by (simp add: submitted_append ac_simps)
  finally show ?thesis
    unfolding st ledger_def prod.case using 1 2 by (intro exI [of _ "i1 @ i2"] exI [of _ "o1 @ o2"]) auto
qed

lemma dident_dispatched_for: "dident (dispatched_for cli t) = ident (qtask t)"
  by (simp add: dident_def ident_def dispatched_for_def dispatched_new_def)

section \<open>The invariant of the cycle\<close>

text \<open>
  The trust table of a running scheduler: well-formed, with no adverse exit on record, since no lifetime
  entry is ever marked as cheating, and every score at least -5/32.
\<close>

definition calm :: "scheduler \<Rightarrow> bool" where
  "calm s \<longleftrightarrow> trust_inv (trust s) \<and> (\<forall>i. - 5/32 \<le> scores (trust s) i \<and> cheat_streak (trust s) i = 0) \<and>
     (\<forall>i. \<not> lt_cheat_flagged (lifetime_table (sch_lifetimes s) i))"

definition sched_ok :: "scheduler \<Rightarrow> bool" where
  "sched_ok s \<longleftrightarrow> lanes_ok s \<and> bss_present (sch_bpf s) \<and> controller_ok (sch_controller s) \<and> calm s"

lemma calm_cong: "trust s' = trust s \<Longrightarrow> sch_lifetimes s' = sch_lifetimes s \<Longrightarrow> calm s' = calm s"
  by (simp add: calm_def)

lemma calm_lifetime_update:
  "calm s \<Longrightarrow> (\<And>lt. \<not> lt_cheat_flagged (f lt)) \<Longrightarrow>
     calm (s\<lparr>sch_lifetimes := lifetime_update f (sch_lifetimes s) pid\<rparr>)"
  using lifetime_update_rows [of "\<lambda>lt. \<not> lt_cheat_flagged lt" "sch_lifetimes s" f pid]
  by (simp add: calm_def lifetime_default_def)

lemma same_but_lanes_fields:
  assumes "same_but_lanes s s'"
  shows "sch_bpf s' = sch_bpf s" "sch_controller s' = sch_controller s" "sch_opts s' = sch_opts s"
    "sch_lifetimes s' = sch_lifetimes s" "trust s' = trust s" "sch_base_slice_ns s' = sch_base_slice_ns s"
    "slice_ns_min s' = slice_ns_min s" "vruntime_now s' = vruntime_now s" "profile s' = profile s"
  using assms by (auto simp: same_but_lanes_def)

lemma lane_tasks_cong: "lane_queue l s' = lane_queue l s \<Longrightarrow> lane_tasks l s' = lane_tasks l s"
  by (simp add: lane_tasks_def)

lemma lanes_ok_cong: "(\<And>l. lane_queue l s' = lane_queue l s) \<Longrightarrow> lanes_ok s' = lanes_ok s"
  by (simp add: lanes_ok_def lane_tasks_def)

lemma backlog_cong: "(\<And>l. lane_queue l s' = lane_queue l s) \<Longrightarrow> backlog s' = backlog s"
  by (simp add: backlog_def lane_tasks_def)

lemma lane_queue_bpf [simp]: "lane_queue l (s\<lparr>sch_bpf := b\<rparr>) = lane_queue l s"
  by (cases l) simp_all

lemma lane_queue_lifetimes [simp]: "lane_queue l (s\<lparr>sch_lifetimes := x\<rparr>) = lane_queue l s"
  by (cases l) simp_all

lemma lane_queue_controller [simp]: "lane_queue l (s\<lparr>sch_controller := x\<rparr>) = lane_queue l s"
  by (cases l) simp_all

lemma queued_idents_push:
  assumes "\<And>l. lane_tasks l s' = lane_tasks l s @ (if l = lane_of t then [t] else [])"
  shows "queued_idents s' = queued_idents s + {#ident (qtask t)#}"
proof -
  have "mset (backlog s') = mset (backlog s) + {#t#}" by (rule mset_backlog_push [OF assms])
  then have "image_mset (\<lambda>t. ident (qtask t)) (mset (backlog s')) =
      image_mset (\<lambda>t. ident (qtask t)) (mset (backlog s) + {#t#})" by simp
  then show ?thesis by (simp add: queued_idents_def)
qed

lemma wp_accept_task:
  assumes os: "libbpf_ok os rx tx" and ok: "sched_ok s" and room: "\<not> has_deferred_tasks s"
  shows "wp (accept_task os t) (\<lambda>_ (s', w'). sched_ok s' \<and> rx w' = rx w \<and> tx w' = tx w \<and>
     queued_idents s' = queued_idents s + {#ident t#}) (s, w)"
  unfolding accept_task_def wp_bindS
proof (rule derive_run [OF os, of s t w])
  show "bss_present (sch_bpf s)" using ok by (simp add: sched_ok_def)
next
  fix task dl sl label kw sens boost credit s1 w1
  assume run: "derive_task_policy os t (s, w) = Inr ((task, dl, sl, label, kw, sens, boost, credit), (s1, w1))"
    and task: "task = t\<lparr>qt_vtime := charged_vtime s t\<rparr>" and frame: "policy_frame s s1"
    and logs: "rx w1 = rx w" "tx w1 = tx w"
  note fr = policy_frame_same [OF frame]
  define w2 where "w2 = snd (os_now os w1)"
  define w3 where "w3 = snd (os_now os w2)"
  define s2 where "s2 = s1\<lparr>sch_lifetimes := lifetime_update (lifetime_after task sl (fst (os_now os w2)))
      (sch_lifetimes s1) (qt_pid task)\<rparr>"
  define tk where "tk = \<lparr>qtask = task, deadline = dl, timestamp = fst (os_now os w1), task_label = label,
      wake_boosted = boost, wake_credit_ns = credit, latency_sensitive = sens, is_kworker = kw, task_slice_ns = sl\<rparr>"
  have lanes: "lane_queue l s2 = lane_queue l s" for l using fr(1) [of l] by (simp add: s2_def)
  have "calm s1" using ok calm_cong [of s1 s] fr by (simp add: sched_ok_def)
  then have "calm s2" unfolding s2_def by (rule calm_lifetime_update) (simp add: lifetime_after_def)
  then have s2: "lanes_ok s2" "bss_present (sch_bpf s2)" "controller_ok (sch_controller s2)" "calm s2"
    using ok fr lanes_ok_cong [OF lanes] by (simp_all add: sched_ok_def s2_def)
  have "\<not> has_deferred (lane_queue (lane_of tk) s2)"
    using lanes_room [OF _ room] ok lanes by (simp add: sched_ok_def)
  note push = wp_push_task [OF os s2(1) this s2(2), of w3]
  have w3: "rx w3 = rx w" "tx w3 = tx w"
    using libbpf_silent(1,2) [OF os, of w1] libbpf_silent(1,2) [OF os, of w2] logs by (simp_all add: w2_def w3_def)
  have id: "ident (qtask tk) = ident t" by (simp add: tk_def task ident_def)
  have "queued_idents s2 = queued_idents s" using backlog_cong [OF lanes] by (simp add: queued_idents_def)
  then have final: "sched_ok s' \<and> rx w' = rx w \<and> tx w' = tx w \<and> queued_idents s' = queued_idents s + {#ident t#}"
    if "lanes_ok s'" "same_but_lanes s2 s'" "rx w' = rx w3" "tx w' = tx w3"
      "\<forall>l. lane_tasks l s' = lane_tasks l s2 @ (if l = lane_of tk then [tk] else [])" for s' w'
    using queued_idents_push [of s' s2 tk] that w3 same_but_lanes_fields [OF that(2)] s2 id calm_cong [of s' s2]
    by (simp add: sched_ok_def)
  have tail: "wp (push_task os tk) (\<lambda>_ (s', w'). sched_ok s' \<and> rx w' = rx w \<and> tx w' = tx w \<and>
      queued_idents s' = queued_idents s + {#ident t#}) (s2, w3)"
    using push by (rule wp_mono) (use final in fastforce)
  show "wp (derive_task_policy os t) (\<lambda>x. wp (case x of (t, deadline_ns, slice_ns, label, kworker, sensitive, boosted, credit) \<Rightarrow>
      bindS (ask (os_now os)) (\<lambda>timestamp_ns. bindS (ask (os_now os)) (\<lambda>seen_ns.
      bindS (modify_own (\<lambda>s. s\<lparr>sch_lifetimes :=
          lifetime_update (lifetime_after t slice_ns seen_ns) (sch_lifetimes s) (qt_pid t)\<rparr>)) (\<lambda>_.
      push_task os \<lparr>qtask = t, deadline = deadline_ns, timestamp = timestamp_ns, task_label = label,
        wake_boosted = boosted, wake_credit_ns = credit, latency_sensitive = sensitive, is_kworker = kworker,
        task_slice_ns = slice_ns\<rparr>)))) (\<lambda>_ (s', w'). sched_ok s' \<and> rx w' = rx w \<and> tx w' = tx w \<and>
      queued_idents s' = queued_idents s + {#ident t#})) (s, w)"
    unfolding wp_def [of "derive_task_policy os t"] run sum.case prod.case
    unfolding wp_bindS wp_ask wp_modify_own w2_def [symmetric] w3_def [symmetric] s2_def [symmetric] tk_def [symmetric]
    by (rule tail)
qed

section \<open>Draining\<close>

definition drained :: "('w \<Rightarrow> u8 list list) \<Rightarrow> ('w \<Rightarrow> u8 list list) \<Rightarrow> nat \<Rightarrow> scheduler \<times> 'w \<Rightarrow> scheduler \<times> 'w \<Rightarrow> bool" where
  "drained rx tx n = (\<lambda>(s, w) (s', w'). sched_ok s' \<and> tx w' = tx w \<and>
     (\<exists>ins. rx w' = rx w @ ins \<and> length (received ins) \<le> n \<and>
        queued_idents s' = queued_idents s + mset (map ident (received ins))))"

lemma drained_refl:
  "sched_ok s' \<Longrightarrow> tx w' = tx w \<Longrightarrow> rx w' = rx w @ ins \<Longrightarrow> received ins = [] \<Longrightarrow> queued_idents s' = queued_idents s \<Longrightarrow>
     drained rx tx n (s, w) (s', w')"
  unfolding drained_def prod.case by (intro conjI exI [of _ ins]) auto

lemma drained_step:
  assumes "rx w1 = rx w @ ins" and "received ins = [t]" and "tx w1 = tx w"
    and "queued_idents s1 = queued_idents s + {#ident t#}" and "drained rx tx n (s1, w1) (s', w')"
  shows "drained rx tx (Suc n) (s, w) (s', w')"
proof -
  from assms(5) obtain ins' where i: "sched_ok s'" "tx w' = tx w1" "rx w' = rx w1 @ ins'" "length (received ins') \<le> n"
    "queued_idents s' = queued_idents s1 + mset (map ident (received ins'))"
    unfolding drained_def prod.case by blast
  then show ?thesis
    unfolding drained_def prod.case using assms(1-4)
    by (intro conjI exI [of _ "ins @ ins'"]) (simp_all add: received_append)
qed

lemma sched_ok_bpf: "sched_ok s \<Longrightarrow> bss_present b \<Longrightarrow> sched_ok (s\<lparr>sch_bpf := b\<rparr>)"
  using lanes_ok_cong [OF lane_queue_bpf] calm_cong [of "s\<lparr>sch_bpf := b\<rparr>" s] by (simp add: sched_ok_def)

lemma queued_idents_bpf [simp]: "queued_idents (s\<lparr>sch_bpf := b\<rparr>) = queued_idents s"
  using backlog_cong [OF lane_queue_bpf] by (simp add: queued_idents_def)

lemma has_deferred_bpf [simp]: "has_deferred_tasks (s\<lparr>sch_bpf := b\<rparr>) = has_deferred_tasks s"
  by (simp add: has_deferred_tasks_def)

lemma wp_drain_queued_tasks:
  assumes os: "libbpf_ok os rx tx"
  shows "sched_ok s \<Longrightarrow> wp (drain_queued_tasks os n) (\<lambda>_ st'. drained rx tx n (s, w) st') (s, w)"
proof (induction n arbitrary: s w)
  case 0
  then show ?case by (simp add: wp_return drained_refl [of _ _ _ _ _ "[]"] received_def map_filter_def)
next
  case (Suc n)
  note nil = drained_refl [of _ _ _ _ _ "[]"]
  show ?case
  proof (cases "has_deferred_tasks s")
    case True
    then show ?thesis using Suc.prems
      by (simp add: wp_bindS wp_gets_own wp_return nil received_def map_filter_def)
  next
    case False
    have present: "bss_present (sch_bpf s)" using Suc.prems by (simp add: sched_ok_def)
    have step: "wp (case r of Inr (Some t) \<Rightarrow> bindS (accept_task os t) (\<lambda>_. drain_queued_tasks os n)
          | Inr None \<Rightarrow> return () | Inl err \<Rightarrow> return ()) (\<lambda>_ st'. drained rx tx (Suc n) (s, w) st')
          (s\<lparr>sch_bpf := b\<rparr>, w1)"
      if d: "bss_present b" "tx w1 = tx w" "rx w1 = rx w @ ins"
        "received ins = (case r of Inr (Some t) \<Rightarrow> [t] | _ \<Rightarrow> [])" for r b w1 ins
    proof (cases "\<exists>t. r = Inr (Some t)")
      case True
      then obtain t where r: "r = Inr (Some t)" by blast
      note ok = sched_ok_bpf [OF Suc.prems d(1)]
      have room: "\<not> has_deferred_tasks (s\<lparr>sch_bpf := b\<rparr>)" using False by simp
      have cont: "wp (drain_queued_tasks os n) (\<lambda>_ st'. drained rx tx (Suc n) (s, w) st') (s2, w2)"
        if a: "sched_ok s2" "rx w2 = rx w1" "tx w2 = tx w1" "queued_idents s2 = queued_idents s + {#ident t#}" for s2 w2
        using Suc.IH [OF a(1), of w2]
      proof (rule wp_mono)
        fix x st' assume "drained rx tx n (s2, w2) st'"
        then show "drained rx tx (Suc n) (s, w) st'"
          using drained_step [of rx w2 w ins t tx s2 s n] d r a by (cases st') simp
      qed
      show ?thesis
        unfolding r sum.case option.case wp_bindS
        using wp_accept_task [OF os ok room, of t w1]
        by (rule wp_mono) (use cont in auto)
    next
      case no: False
      then have "received ins = []" using d(4) by (auto split: sum.splits option.splits)
      then have "drained rx tx (Suc n) (s, w) (s\<lparr>sch_bpf := b\<rparr>, w1)"
        using drained_refl [OF sched_ok_bpf [OF Suc.prems d(1)] d(2,3)] by simp
      then show ?thesis using no by (auto simp: wp_return split: sum.splits option.splits)
    qed
    have "wp (on_bpf (dequeue_task os)) (\<lambda>r. wp (case r of Inr (Some t) \<Rightarrow> bindS (accept_task os t) (\<lambda>_. drain_queued_tasks os n)
          | Inr None \<Rightarrow> return () | Inl err \<Rightarrow> return ()) (\<lambda>_ st'. drained rx tx (Suc n) (s, w) st')) (s, w)"
      unfolding wp_on_bpf
      using wp_dequeue_task [OF os present, of w] by (rule wp_mono) (use step in auto)
    then show ?thesis using False by (simp add: wp_bindS wp_gets_own)
  qed
qed

section \<open>Dispatching\<close>

text \<open>The user ring buffer has room: no reservation or submission fails.\<close>

definition sends_ok :: "'w os \<Rightarrow> bool" where
  "sends_ok os \<longleftrightarrow> (\<forall>n w. \<not> isl (fst (os_reserve os n w))) \<and> (\<forall>b w. \<not> isl (fst (os_submit os b w)))"

lemma wp_bpf_dispatch_sends:
  assumes os: "libbpf_ok os rx tx"
  shows "wp (bpf_dispatch_task os d) (\<lambda>r st. sends_ok os \<longrightarrow> r = Inr ()) (b, w)"
proof -
  obtain r w1 where c: "os_reserve os DISPATCHED_TASK_CTX_SIZE w = (r, w1)" by fastforce
  show ?thesis
  proof (cases r)
    case (Inl e)
    then have "\<not> sends_ok os" using c unfolding sends_ok_def by (metis fst_conv sum.disc(1))
    then show ?thesis using wp_bpf_dispatch_task [OF os, of d b w] by (auto elim!: wp_mono)
  next
    case (Inr p)
    obtain bytes al where p: "p = (bytes, al)" by fastforce
    then have len: "length bytes = DISPATCHED_TASK_CTX_SIZE" al using libbpf_reserve [OF os c] Inr by auto
    obtain r2 w2 where q: "os_submit os (dispatched_ctx d) w1 = (r2, w2)" by fastforce
    have "sends_ok os \<longrightarrow> r2 = Inr ()" using q unfolding sends_ok_def by (cases r2) (metis fst_conv sum.disc(1), simp)
    then show ?thesis using Inr p len c q by (simp add: bpf_dispatch_task_def wp_simps)
  qed
qed

lemma queued_idents_cons: "backlog s = t # backlog s' \<Longrightarrow> queued_idents s = add_mset (ident (qtask t)) (queued_idents s')"
  by (simp add: queued_idents_def)

lemma submitted_single: "submitted [dispatched_ctx d] = [d]"
  by (simp add: submitted_def read_dispatched_ctx_at)

text \<open>One dispatch: the head of the backlog is submitted, or goes back to the end of its lane.\<close>

definition dispatched_post where
  "dispatched_post os rx tx = (\<lambda>(s, w) ok (s', w'). sched_ok s' \<and> ledger rx tx (s, w) (s', w') \<and> rx w' = rx w \<and>
     sch_opts s' = sch_opts s \<and> (sends_ok os \<longrightarrow> ok) \<and>
     (if backlog s = [] then ok \<and> tx w' = tx w \<and> s' = s
      else if ok then submitted (tx w') = submitted (tx w) @ [dispatched_for (sch_opts s) (hd (backlog s))] \<and>
             backlog s' = tl (backlog s)
      else mset (backlog s') = mset (backlog s) \<and> length (backlog s') = length (backlog s) \<and> tx w' = tx w))"

lemma wp_return_fun: "wp (return x) Q = Q x"
  by (simp add: fun_eq_iff wp_return)

lemma wp_dispatch_task:
  assumes os: "libbpf_ok os rx tx" and ok: "sched_ok s"
  shows "wp (dispatch_task os) (dispatched_post os rx tx (s, w)) (s, w)"
proof -
  have lok: "lanes_ok s" and present: "bss_present (sch_bpf s)" using ok by (simp_all add: sched_ok_def)
  let ?Q = "dispatched_post os rx tx (s, w)"
  have tail: "wp (case r of None \<Rightarrow> return True | Some t \<Rightarrow>
      bindS (gets_own sch_opts) (\<lambda>cli. bindS (on_bpf (bpf_dispatch_task os (dispatched_for cli t))) (\<lambda>res. case res of
        Inl err \<Rightarrow> bindS (push_task os t) (\<lambda>_. return False) | Inr _ \<Rightarrow> return True))) ?Q (s1, w1)"
    if p: "lanes_ok s1" "same_but_lanes s s1" "rx w1 = rx w" "tx w1 = tx w"
      "case r of None \<Rightarrow> backlog s = [] \<and> s1 = s
       | Some t \<Rightarrow> backlog s = t # backlog s1 \<and> \<not> has_deferred (lane_queue (lane_of t) s1)" for r s1 w1
  proof (cases r)
    case None
    then show ?thesis using p ok ledger_refl [of s s rx w1 w tx]
      by (simp add: wp_return dispatched_post_def)
  next
    case (Some t)
    note fields = same_but_lanes_fields [OF p(2)]
    have s1: "sched_ok s1" using ok p(1) fields calm_cong [of s1 s] by (simp add: sched_ok_def)
    have bl: "backlog s = t # backlog s1" and room: "\<not> has_deferred (lane_queue (lane_of t) s1)"
      using p(5) Some by auto
    let ?d = "dispatched_for (sch_opts s) t"
    note both = wp_bpf_dispatch_task [OF os, of ?d "sch_bpf s1" w1]
    have fin: "wp (case res of Inl err \<Rightarrow> bindS (push_task os t) (\<lambda>_. return False) | Inr _ \<Rightarrow> return True) ?Q (s1, w2)"
      if a: "rx w2 = rx w1" "tx w2 = tx w1 @ (if res = Inr () then [dispatched_ctx ?d] else [])"
        "sends_ok os \<longrightarrow> res = Inr ()" for res w2
    proof (cases res)
      case (Inr u)
      have led: "ledger rx tx (s, w) (s1, w2)"
        unfolding ledger_def prod.case
        by (intro exI [of _ "[]"] exI [of _ "[dispatched_ctx ?d]"])
          (use a p Inr in \<open>simp add: queued_idents_cons [OF bl] submitted_single dident_dispatched_for received_def
            map_filter_def dispatched_ctx_read\<close>)
      then show ?thesis
        using Inr a p s1 bl fields by (simp add: wp_return dispatched_post_def submitted_append submitted_single)
    next
      case (Inl e)
      have push: "sched_ok s' \<and> ledger rx tx (s, w) (s', w') \<and> mset (backlog s') = mset (backlog s) \<and> length (backlog s') = length (backlog s)"
        if b: "lanes_ok s'" "same_but_lanes s1 s'" "rx w' = rx w2" "tx w' = tx w2"
          "\<forall>l. lane_tasks l s' = lane_tasks l s1 @ (if l = lane_of t then [t] else [])" for s' w'
      proof -
        have "queued_idents s' = queued_idents s1 + {#ident (qtask t)#}" using queued_idents_push b(5) by blast
        moreover have more: "mset (backlog s') = mset (backlog s1) + {#t#}" using mset_backlog_push b(5) by blast
        moreover have "length (backlog s') = length (backlog s1) + 1" using more length_backlog_mset by fastforce
        ultimately show ?thesis
          using b s1 a p Inl bl same_but_lanes_fields [OF b(2)] queued_idents_cons [OF bl]
            ledger_refl [of s' s rx w' w tx] calm_cong [of s' s1] by (simp add: sched_ok_def)
      qed
      have present1: "bss_present (sch_bpf s1)" using s1 by (simp add: sched_ok_def)
      have post: "?Q False (s', w')"
        if b: "lanes_ok s'" "same_but_lanes s1 s'" "rx w' = rx w2" "tx w' = tx w2"
          "\<forall>l. lane_tasks l s' = lane_tasks l s1 @ (if l = lane_of t then [t] else [])" for s' w'
        using push [OF b] a b(3,4) p Inl bl fields same_but_lanes_fields(3) [OF b(2)]
        by (simp add: dispatched_post_def)
      have "wp (push_task os t) (\<lambda>_ st'. ?Q False st') (s1, w2)"
        using wp_push_task [OF os p(1) room present1, of w2] by (rule wp_mono) (use post in auto)
      then show ?thesis using Inl by (simp add: wp_bindS wp_return_fun)
    qed
    have "wp (bpf_dispatch_task os ?d) (\<lambda>res (b', w2). b' = sch_bpf s1 \<and> rx w2 = rx w1 \<and>
        tx w2 = tx w1 @ (if res = Inr () then [dispatched_ctx ?d] else []) \<and> (sends_ok os \<longrightarrow> res = Inr ())) (sch_bpf s1, w1)"
      using wp_conj [OF both wp_bpf_dispatch_sends [OF os, of ?d "sch_bpf s1" w1]] by (rule wp_mono) auto
    then have "wp (on_bpf (bpf_dispatch_task os ?d)) (\<lambda>res. wp (case res of
        Inl err \<Rightarrow> bindS (push_task os t) (\<lambda>_. return False) | Inr _ \<Rightarrow> return True) ?Q) (s1, w1)"
      unfolding wp_on_bpf
    proof (rule wp_mono)
      fix res st
      assume a: "case st of (b', w2) \<Rightarrow> b' = sch_bpf s1 \<and> rx w2 = rx w1 \<and>
        tx w2 = tx w1 @ (if res = Inr () then [dispatched_ctx ?d] else []) \<and> (sends_ok os \<longrightarrow> res = Inr ())"
      obtain b' w2 where st: "st = (b', w2)" by fastforce
      show "case st of (b, w') \<Rightarrow> wp (case res of Inl err \<Rightarrow> bindS (push_task os t) (\<lambda>_. return False)
          | Inr _ \<Rightarrow> return True) ?Q (s1\<lparr>sch_bpf := b\<rparr>, w')"
        using a fin [of w2 res] unfolding st prod.case by simp
    qed
    then show ?thesis using Some fields by (simp add: wp_bindS wp_gets_own)
  qed
  show ?thesis
    unfolding dispatch_task_def wp_bindS
    using wp_pop_highest_priority_task [OF os lok, of w] by (rule wp_mono) (use tail in auto)
qed

section \<open>The dispatch loop\<close>

text \<open>
  With \<open>n\<close> tasks queued the loop ends after at most \<open>n\<close> successful dispatches, or at the first failed one;
  no fuel is involved.
\<close>

definition dispatched_all_post where
  "dispatched_all_post os rx tx = (\<lambda>(s, w) (s', w'). sched_ok s' \<and> ledger rx tx (s, w) (s', w') \<and> rx w' = rx w \<and>
     sch_opts s' = sch_opts s \<and> (\<exists>k \<le> length (backlog s).
       submitted (tx w') = submitted (tx w) @ map (dispatched_for (sch_opts s)) (take k (backlog s)) \<and>
       mset (backlog s') = mset (drop k (backlog s)) \<and>
       (k < length (backlog s) \<longrightarrow> (\<exists>s1 w1. sched_ok s1 \<and> backlog s1 = drop k (backlog s) \<and>
          dispatch_task os (s1, w1) = Inr (False, (s', w'))))))"

lemma dispatched_all_sends:
  assumes os: "libbpf_ok os rx tx" and all: "sends_ok os" and post: "dispatched_all_post os rx tx (s, w) (s', w')"
  shows "backlog s' = [] \<and> submitted (tx w') = submitted (tx w) @ map (dispatched_for (sch_opts s)) (backlog s)"
proof -
  from post obtain k where k: "k \<le> length (backlog s)"
    "submitted (tx w') = submitted (tx w) @ map (dispatched_for (sch_opts s)) (take k (backlog s))"
    "mset (backlog s') = mset (drop k (backlog s))"
    "k < length (backlog s) \<longrightarrow> (\<exists>s1 w1. sched_ok s1 \<and> dispatch_task os (s1, w1) = Inr (False, (s', w')))"
    unfolding dispatched_all_post_def prod.case by blast
  have "\<not> k < length (backlog s)"
  proof
    assume "k < length (backlog s)"
    then obtain s1 w1 where "sched_ok s1" "dispatch_task os (s1, w1) = Inr (False, (s', w'))" using k(4) by blast
    then have "dispatched_post os rx tx (s1, w1) False (s', w')" using wp_dispatch_task [OF os, of s1 w1] by (simp add: wp_def)
    then show False using all by (simp add: dispatched_post_def)
  qed
  then show ?thesis using k(1-3) by simp
qed

text \<open>One successful dispatch before the rest of the loop.\<close>

lemma dispatched_all_step:
  assumes one: "dispatched_post os rx tx (s, w) True (s1, w1)" and ne: "backlog s \<noteq> []"
    and rest: "dispatched_all_post os rx tx (s1, w1) (s', w')"
  shows "dispatched_all_post os rx tx (s, w) (s', w')"
proof -
  obtain t ts where bl: "backlog s = t # ts" using ne by (cases "backlog s") simp_all
  have f: "ledger rx tx (s, w) (s1, w1)" "rx w1 = rx w" "sch_opts s1 = sch_opts s" "backlog s1 = ts"
    "submitted (tx w1) = submitted (tx w) @ [dispatched_for (sch_opts s) t]"
    using one by (simp_all add: dispatched_post_def bl)
  from rest obtain k where r: "sched_ok s'" "ledger rx tx (s1, w1) (s', w')" "rx w' = rx w1" "sch_opts s' = sch_opts s1"
    "k \<le> length (backlog s1)" "mset (backlog s') = mset (drop k (backlog s1))"
    "submitted (tx w') = submitted (tx w1) @ map (dispatched_for (sch_opts s1)) (take k (backlog s1))"
    "k < length (backlog s1) \<longrightarrow> (\<exists>s2 w2. sched_ok s2 \<and> backlog s2 = drop k (backlog s1) \<and>
          dispatch_task os (s2, w2) = Inr (False, (s', w')))"
    unfolding dispatched_all_post_def prod.case by blast
  have "ledger rx tx (s, w) (s', w')" using f(1) r(2) by (rule ledger_trans)
  then show ?thesis
    unfolding dispatched_all_post_def prod.case using f r bl by (intro conjI exI [of _ "Suc k"]) simp_all
qed

lemma dispatch_all_returns:
  assumes os: "libbpf_ok os rx tx"
  shows "sched_ok s \<Longrightarrow> \<exists>st'. dispatch_all os (s, w) = Some (Inr ((), st')) \<and> dispatched_all_post os rx tx (s, w) st'"
proof (induction "length (backlog s)" arbitrary: s w rule: less_induct)
  case less
  have lok: "lanes_ok s" using less.prems by (simp add: sched_ok_def)
  show ?case
  proof (cases "backlog s = []")
    case True
    then show ?thesis
      using tasks_empty_backlog [OF lok] less.prems ledger_refl [of s s rx w w tx]
      by (auto simp: dispatch_all.simps dispatched_all_post_def)
  next
    case False
    from wp_dispatch_task [OF os less.prems, of w] obtain ok s1 w1 where
      step: "dispatch_task os (s, w) = Inr (ok, (s1, w1))" "dispatched_post os rx tx (s, w) ok (s1, w1)"
      by (auto simp: wp_iff)
    have one: "dispatch_all os (s, w) = (if ok then dispatch_all os (s1, w1) else Some (Inr ((), (s1, w1))))"
      using False tasks_empty_backlog [OF lok] step(1) by (simp add: dispatch_all.simps [of os "(s, w)"])
    show ?thesis
    proof (cases ok)
      case fail: False
      have "dispatched_all_post os rx tx (s, w) (s1, w1)"
        unfolding dispatched_all_post_def prod.case using step less.prems False fail
        by (intro conjI exI [of _ 0]) (auto simp: dispatched_post_def)
      then show ?thesis using one fail by simp
    next
      case True
      then have "length (backlog s1) < length (backlog s)" "sched_ok s1"
        using step(2) False by (auto simp: dispatched_post_def)
      from less.hyps [OF this, of w1] obtain st' where
        rest: "dispatch_all os (s1, w1) = Some (Inr ((), st'))" "dispatched_all_post os rx tx (s1, w1) st'" by blast
      obtain s' w' where st': "st' = (s', w')" by fastforce
      have "dispatched_all_post os rx tx (s, w) (s', w')"
        by (rule dispatched_all_step) (use step(2) True False rest(2) st' in simp_all)
      then show ?thesis using one True rest(1) st' by auto
    qed
  qed
qed

lemma wp_dispatch_loop:
  assumes "libbpf_ok os rx tx" and "sched_ok s"
  shows "wp (of_loop (dispatch_all os)) (\<lambda>_ st'. dispatched_all_post os rx tx (s, w) st') (s, w)"
  using dispatch_all_returns [OF assms, of w] by (auto simp: wp_def of_loop_def)

section \<open>The whole cycle\<close>

text \<open>What reporting \<open>n\<close> pending tasks to the BPF side does: the shared counter is set, and the CPU is yielded if any is left.\<close>

definition pending_reported :: "'w os \<Rightarrow> u64 \<Rightarrow> 'w \<Rightarrow> 'w" where
  "pending_reported os n w = (if 0 < n then os_yield os else id) (os_set_counter os Nr_scheduled n w)"

definition cycle_post where
  "cycle_post os rx tx = (\<lambda>(s, w) (s', w'). sched_ok s' \<and> ledger rx tx (s, w) (s', w') \<and>
     (sends_ok os \<longrightarrow> backlog s' = []) \<and>
     (\<exists>w1. rx w1 = rx w' \<and> tx w1 = tx w' \<and> w' = snd (os_now os (pending_reported os (of_nat (tasks_len s')) w1))))"

lemma drained_ledger:
  "drained rx tx n (s, w) (s', w') \<Longrightarrow> ledger rx tx (s, w) (s', w')"
  unfolding drained_def ledger_def prod.case
  by (elim conjE exE, rule exI, rule exI [of _ "[]"]) (simp add: submitted_def)

lemma ledger_same_lanes:
  "ledger rx tx (s, w) (s1, w1) \<Longrightarrow> (\<And>l. lane_queue l s2 = lane_queue l s1) \<Longrightarrow> rx w2 = rx w1 \<Longrightarrow> tx w2 = tx w1 \<Longrightarrow>
     ledger rx tx (s, w) (s2, w2)"
  using backlog_cong [of s2 s1] by (simp add: ledger_def queued_idents_def)

lemma ledger_world:
  "ledger rx tx (s, w1) st \<Longrightarrow> rx w1 = rx w \<Longrightarrow> tx w1 = tx w \<Longrightarrow> ledger rx tx (s, w) st"
  by (cases st) (simp add: ledger_def)

lemma wp_notify_complete:
  assumes "bss_present b"
  shows "wp (notify_complete os n) (\<lambda>_ st. st = (b, pending_reported os n w)) (b, w)"
  using assms by (simp add: notify_complete_def pending_reported_def wp_simps)

lemma pending_reported_silent:
  assumes "libbpf_ok os rx tx"
  shows "rx (pending_reported os n w) = rx w" "tx (pending_reported os n w) = tx w"
  using libbpf_silent [OF assms] by (simp_all add: pending_reported_def)

lemma controller_record_ok:
  "controller_ok c \<Longrightarrow> \<exists>c'. record_latency c ns = Inr c' \<and> controller_ok c'"
  using record_latency_eq [of c ns] by (simp add: controller_ok_def)

lemma wp_update_part:
  "wp (\<lambda>(c, w). bindR (f c) (\<lambda>c'. Inr ((), (c', w)))) Q (c, w) \<longleftrightarrow> (\<exists>c'. f c = Inr c' \<and> Q () (c', w))"
  by (cases "f c") (auto simp: wp_def)

lemma wp_bindS_fun: "wp (bindS m f) Q = wp m (\<lambda>x. wp (f x) Q)"
  by (simp add: fun_eq_iff wp_bindS)

lemma wp_finish_cycle:
  assumes os: "libbpf_ok os rx tx" and ok: "sched_ok s"
  shows "wp (bindS (gets_own tasks_len) (\<lambda>n. bindS (on_bpf (notify_complete os (of_nat n))) (\<lambda>_.
      bindS (ask (os_now os)) (\<lambda>t1. on_part sch_controller (\<lambda>c. sch_controller_update (\<lambda>_. c))
        (\<lambda>(c, w). bindR (record_latency c (sat_sub t1 t0)) (\<lambda>c'. Inr ((), (c', w)))))))) (\<lambda>_ (s', w').
      sched_ok s' \<and> (\<forall>l. lane_queue l s' = lane_queue l s) \<and>
      w' = snd (os_now os (pending_reported os (of_nat (tasks_len s)) w))) (s, w)"
proof -
  have present: "bss_present (sch_bpf s)" and ctl: "controller_ok (sch_controller s)" and lok: "lanes_ok s"
    and calm: "calm s" using ok by (simp_all add: sched_ok_def)
  have last: "wp (bindS (ask (os_now os)) (\<lambda>t1. on_part sch_controller (\<lambda>c. sch_controller_update (\<lambda>_. c))
        (\<lambda>(c, w). bindR (record_latency c (sat_sub t1 t0)) (\<lambda>c'. Inr ((), (c', w)))))) (\<lambda>_ (s', w').
      sched_ok s' \<and> (\<forall>l. lane_queue l s' = lane_queue l s) \<and> w' = snd (os_now os w1)) (s, w1)" for w1
  proof -
    obtain c' where c': "record_latency (sch_controller s) (sat_sub (fst (os_now os w1)) t0) = Inr c'" "controller_ok c'"
      using controller_record_ok [OF ctl] by blast
    have "sched_ok (s\<lparr>sch_controller := c'\<rparr>)"
      using lanes_ok_cong [OF lane_queue_controller] lok present c'(2) calm calm_cong [of "s\<lparr>sch_controller := c'\<rparr>" s]
      by (simp add: sched_ok_def)
    then show ?thesis using c'(1) by (simp add: wp_bindS wp_ask wp_on_part wp_update_part)
  qed
  have "wp (on_bpf (notify_complete os (of_nat (tasks_len s)))) (\<lambda>_ st. st = (s, pending_reported os (of_nat (tasks_len s)) w)) (s, w)"
    unfolding wp_on_bpf using wp_notify_complete [OF present] by (rule wp_mono) auto
  then have "wp (on_bpf (notify_complete os (of_nat (tasks_len s)))) (\<lambda>_. wp (bindS (ask (os_now os)) (\<lambda>t1.
      on_part sch_controller (\<lambda>c. sch_controller_update (\<lambda>_. c))
        (\<lambda>(c, w). bindR (record_latency c (sat_sub t1 t0)) (\<lambda>c'. Inr ((), (c', w)))))) (\<lambda>_ (s', w').
      sched_ok s' \<and> (\<forall>l. lane_queue l s' = lane_queue l s) \<and>
      w' = snd (os_now os (pending_reported os (of_nat (tasks_len s)) w)))) (s, w)"
    by (rule wp_mono) (use last in auto)
  then show ?thesis by (simp add: wp_bindS wp_gets_own)
qed

lemma wp_schedule:
  assumes os: "libbpf_ok os rx tx" and ok: "sched_ok s"
  shows "wp (schedule os) (\<lambda>_ st'. cycle_post os rx tx (s, w) st') (s, w)"
proof -
  define w1 where "w1 = snd (os_counter os Nr_online_cpus (snd (os_now os w)))"
  define n where "n = drain_budget (fst (os_counter os Nr_online_cpus (snd (os_now os w))))"
  have w1: "rx w1 = rx w" "tx w1 = tx w" using libbpf_silent [OF os] by (simp_all add: w1_def)
  have present: "bss_present (sch_bpf s)" using ok by (simp add: sched_ok_def)
  let ?fin = "\<lambda>t0. bindS (gets_own tasks_len) (\<lambda>n. bindS (on_bpf (notify_complete os (of_nat n))) (\<lambda>_.
      bindS (ask (os_now os)) (\<lambda>t1. on_part sch_controller (\<lambda>c. sch_controller_update (\<lambda>_. c))
        (\<lambda>(c, w). bindR (record_latency c (sat_sub t1 t0)) (\<lambda>c'. Inr ((), (c', w)))))))"
  have fin: "wp (?fin t0) (\<lambda>_ st'. cycle_post os rx tx (s, w) st') (s2, w2)"
    if a: "sched_ok s2" "ledger rx tx (s, w) (s2, w2)" "sends_ok os \<longrightarrow> backlog s2 = []" for t0 s2 w2
    using wp_finish_cycle [OF os a(1), of t0 w2]
  proof (rule wp_mono)
    fix x st' assume b: "case st' of (s', w') \<Rightarrow> sched_ok s' \<and> (\<forall>l. lane_queue l s' = lane_queue l s2) \<and>
      w' = snd (os_now os (pending_reported os (of_nat (tasks_len s2)) w2))"
    obtain s' w' where st': "st' = (s', w')" by fastforce
    have same: "rx w' = rx w2" "tx w' = tx w2"
      using b libbpf_silent [OF os] pending_reported_silent [OF os] by (simp_all add: st')
    have "tasks_len s' = tasks_len s2" using b tasks_len_backlog a(1) backlog_cong [of s' s2] by (simp add: st' sched_ok_def)
    then have "\<exists>w1. rx w1 = rx w' \<and> tx w1 = tx w' \<and> w' = snd (os_now os (pending_reported os (of_nat (tasks_len s')) w1))"
      using b same by (intro exI [of _ w2]) (simp add: st')
    then show "cycle_post os rx tx (s, w) st'"
      using ledger_same_lanes [OF a(2), of s' w'] backlog_cong [of s' s2] a(3) b same by (simp add: st' cycle_post_def)
  qed
  have loop: "wp (of_loop (dispatch_all os)) (\<lambda>_. wp (?fin t0) (\<lambda>_ st'. cycle_post os rx tx (s, w) st')) (s1, w2)"
    if a: "drained rx tx n (s, w1) (s1, w2)" for t0 s1 w2
  proof -
    have s1: "sched_ok s1" using a by (simp add: drained_def)
    have led: "ledger rx tx (s, w) (s1, w2)" using ledger_world [OF drained_ledger [OF a]] w1 by simp
    show ?thesis
      using wp_dispatch_loop [OF os s1, of w2]
    proof (rule wp_mono)
      fix x st' assume b: "dispatched_all_post os rx tx (s1, w2) st'"
      obtain s2 w3 where st': "st' = (s2, w3)" by fastforce
      have "ledger rx tx (s1, w2) (s2, w3)" "sched_ok s2" using b by (simp_all add: st' dispatched_all_post_def)
      moreover have "sends_ok os \<longrightarrow> backlog s2 = []" using dispatched_all_sends [OF os] b st' by blast
      ultimately show "wp (?fin t0) (\<lambda>_ st'. cycle_post os rx tx (s, w) st') st'"
        using ledger_trans [OF led] fin unfolding st' by blast
    qed
  qed
  have "wp (drain_queued_tasks os n) (\<lambda>_. wp (of_loop (dispatch_all os)) (\<lambda>_. wp (?fin t0)
      (\<lambda>_ st'. cycle_post os rx tx (s, w) st'))) (s, w1)" for t0
    using wp_drain_queued_tasks [OF os ok, of n w1] by (rule wp_mono) (use loop in auto)
  then show ?thesis
    using present
    by (simp add: schedule_def wp_bindS wp_ask wp_on_bpf wp_read_counter n_def w1_def)
      (simp add: wp_bindS_fun)
qed

lemma calm_new: "trust s = trust_new \<Longrightarrow> sch_lifetimes s = lifetimes_zeroed \<Longrightarrow> calm s"
  using trust_inv_new by (simp add: calm_def trust_new_def lifetimes_zeroed_def lifetime_default_def)

lemma started:
  obtains s where "scheduler_new opts_default bpf_started 0 = Inr s" "sched_ok s" "backlog s = []"
    "\<not> has_deferred_tasks s"
proof -
  from scheduler_new_ok [of opts_default bpf_started 0] obtain s where
    "scheduler_new opts_default bpf_started 0 = Inr s" "lanes_ok s" "backlog s = []" "\<not> has_deferred_tasks s"
    "sch_bpf s = bpf_started" "sch_controller s = controller_new (prof_slice_ns (from_opts opts_default))"
    "trust s = trust_new" "sch_lifetimes s = lifetimes_zeroed" by auto
  moreover from this have "calm s" by (simp add: calm_new)
  ultimately show ?thesis using that by (simp add: sched_ok_def bpf_started_def controller_new_ok)
qed

lemma script_sends: "sends_ok script_os"
  by (auto simp: sends_ok_def script_os_def)

section \<open>Properties\<close>

text \<open>
  C2. One scheduling cycle always returns, never panics, and loses and duplicates no task: counted by
  PID, enqueue number and flags, the tasks queued before plus those received from the kernel during the
  cycle are exactly those queued after plus those submitted back, whatever the kernel answers; the queues
  stay well-formed.
\<close>

theorem schedule_conserves_tasks:
  assumes "libbpf_ok os rx tx" and "sched_ok s"
  shows "\<exists>s' w' ins outs. schedule os (s, w) = Inr ((), (s', w')) \<and> sched_ok s' \<and>
    rx w' = rx w @ ins \<and> tx w' = tx w @ outs \<and>
    queued_idents s + mset (map ident (received ins)) = queued_idents s' + mset (map dident (submitted outs))"
proof -
  from wp_schedule [OF assms, of w] obtain s' w' where
    "schedule os (s, w) = Inr ((), (s', w'))" "cycle_post os rx tx (s, w) (s', w')" by (auto simp: wp_iff)
  then show ?thesis unfolding cycle_post_def ledger_def prod.case by blast
qed

theorem schedule_conserves_tasks_witness:
  "\<exists>s s' w'. scheduler_new opts_default bpf_started 0 = Inr s \<and>
     schedule script_os (s, ([queued_ctx sample_task], [], [])) = Inr ((), (s', w')) \<and> sched_ok s'"
proof -
  obtain s where s: "scheduler_new opts_default bpf_started 0 = Inr s" "sched_ok s" using started by metis
  with schedule_conserves_tasks [OF script_ok s(2), of "([queued_ctx sample_task], [], [])"] show ?thesis by blast
qed

text \<open>
  C14. If the user ring buffer has room, a cycle leaves nothing behind and says so: every task it had or received is
  submitted, and then, with all lanes empty, it sets the shared count of pending tasks to 0, without yielding; after
  that it only reads the clock. This is the argument the source gives for why the watchdog does not fire.
\<close>

theorem schedule_leaves_nothing:
  assumes "libbpf_ok os rx tx" and "sched_ok s" and "sends_ok os"
  shows "\<exists>s' w' ins outs w1. schedule os (s, w) = Inr ((), (s', w')) \<and> tasks_empty s' \<and> tasks_len s' = 0 \<and>
    rx w1 = rx w @ ins \<and> tx w1 = tx w @ outs \<and>
    mset (map dident (submitted outs)) = queued_idents s + mset (map ident (received ins)) \<and>
    w' = snd (os_now os (os_set_counter os Nr_scheduled 0 w1))"
proof -
  from wp_schedule [OF assms(1,2), of w] obtain s' w' where
    run: "schedule os (s, w) = Inr ((), (s', w'))" "cycle_post os rx tx (s, w) (s', w')" by (auto simp: wp_iff)
  then have e: "backlog s' = []" "lanes_ok s'" using assms(3) by (simp_all add: cycle_post_def sched_ok_def)
  then have len: "tasks_empty s'" "tasks_len s' = 0" using tasks_empty_backlog tasks_len_backlog by simp_all
  obtain w1 where w1: "rx w1 = rx w'" "tx w1 = tx w'" "w' = snd (os_now os (os_set_counter os Nr_scheduled 0 w1))"
    using run(2) len(2) by (auto simp: cycle_post_def pending_reported_def)
  obtain ins outs where io: "rx w' = rx w @ ins" "tx w' = tx w @ outs"
    "queued_idents s + mset (map ident (received ins)) = queued_idents s' + mset (map dident (submitted outs))"
    using run(2) unfolding cycle_post_def ledger_def prod.case by blast
  moreover have "queued_idents s' = {#}" using e(1) by (simp add: queued_idents_def)
  ultimately have "rx w1 = rx w @ ins" "tx w1 = tx w @ outs"
    "mset (map dident (submitted outs)) = queued_idents s + mset (map ident (received ins))" using w1(1,2) by simp_all
  then show ?thesis using run(1) len w1(3) by blast
qed

theorem schedule_leaves_nothing_witness:
  "\<exists>s s' w'. scheduler_new opts_default bpf_started 0 = Inr s \<and>
     schedule script_os (s, ([queued_ctx sample_task], [], [])) = Inr ((), (s', w')) \<and> tasks_empty s'"
proof -
  obtain s where s: "scheduler_new opts_default bpf_started 0 = Inr s" "sched_ok s" using started by metis
  with schedule_leaves_nothing [OF script_ok s(2) script_sends, of "([queued_ctx sample_task], [], [])"]
  show ?thesis by blast
qed

text \<open>
  C15. The dispatch loop terminates from every well-formed state. What it submits is a first part of the backlog in its
  order, real-time tasks first, then boosted ones, then the rest, each lane in arrival order; the tasks after that part
  are still queued. It stops before the end of the backlog only when the dispatch of the next task failed, so with room
  in the ring it submits the whole backlog.
\<close>

theorem dispatch_loop_terminates_in_order:
  assumes "libbpf_ok os rx tx" and "sched_ok s"
  shows "\<exists>s' w' k. dispatch_all os (s, w) = Some (Inr ((), (s', w'))) \<and> sched_ok s' \<and> k \<le> length (backlog s) \<and>
    submitted (tx w') = submitted (tx w) @ map (dispatched_for (sch_opts s)) (take k (backlog s)) \<and>
    mset (backlog s') = mset (drop k (backlog s)) \<and>
    (k < length (backlog s) \<longrightarrow>
      (\<exists>s1 w1. backlog s1 = drop k (backlog s) \<and> dispatch_task os (s1, w1) = Inr (False, (s', w')))) \<and>
    (sends_ok os \<longrightarrow> backlog s' = [] \<and>
      submitted (tx w') = submitted (tx w) @ map (dispatched_for (sch_opts s)) (backlog s))"
proof -
  from dispatch_all_returns [OF assms, of w] obtain s' w' where
    run: "dispatch_all os (s, w) = Some (Inr ((), (s', w')))" "dispatched_all_post os rx tx (s, w) (s', w')" by fastforce
  then have "sends_ok os \<longrightarrow> backlog s' = [] \<and>
      submitted (tx w') = submitted (tx w) @ map (dispatched_for (sch_opts s)) (backlog s)"
    using dispatched_all_sends [OF assms(1)] by blast
  with run show ?thesis unfolding dispatched_all_post_def prod.case by blast
qed

theorem dispatch_loop_terminates_in_order_witness:
  "\<exists>s s' w'. scheduler_new opts_default bpf_started 0 = Inr s \<and>
     dispatch_all script_os (s, ([], [], [])) = Some (Inr ((), (s', w')))"
proof -
  obtain s where s: "scheduler_new opts_default bpf_started 0 = Inr s" "sched_ok s" using started by metis
  with dispatch_loop_terminates_in_order [OF script_ok s(2), of "([], [], [])"] show ?thesis by blast
qed

text \<open>
  A failed submission loses no task: \<open>dispatch_task\<close> reports failure, nothing was submitted, and the
  task is queued again. A successful one submits the head of the backlog and removes it.
\<close>

theorem dispatch_task_requeues:
  assumes "libbpf_ok os rx tx" and "sched_ok s" and "backlog s = t # ts"
  shows "\<exists>ok s' w'. dispatch_task os (s, w) = Inr (ok, (s', w')) \<and> sched_ok s' \<and>
    (if ok then backlog s' = ts \<and> submitted (tx w') = submitted (tx w) @ [dispatched_for (sch_opts s) t]
     else queued_idents s' = queued_idents s \<and> tasks_len s' = tasks_len s \<and> tx w' = tx w)"
proof -
  from wp_dispatch_task [OF assms(1,2), of w] obtain ok s' w' where
    run: "dispatch_task os (s, w) = Inr (ok, (s', w'))" "dispatched_post os rx tx (s, w) ok (s', w')"
    by (auto simp: wp_iff)
  have len: "tasks_len s = length (backlog s)" "tasks_len s' = length (backlog s')"
    using run(2) assms(2) tasks_len_backlog by (auto simp: dispatched_post_def sched_ok_def)
  have "queued_idents s' = queued_idents s" if "\<not> ok"
    using run(2) that assms(3) by (auto simp: dispatched_post_def ledger_def received_def submitted_def map_filter_def)
  with run len assms(3) show ?thesis by (auto simp: dispatched_post_def)
qed

theorem dispatch_task_requeues_witness:
  "\<exists>s ok s' w'. backlog s = [sample_queued Compute] \<and> dispatch_task script_os (s, ([], [], [])) = Inr (ok, (s', w'))"
proof -
  obtain s0 where s0: "sched_ok s0" "backlog s0 = []" "\<not> has_deferred_tasks s0" using started by metis
  then have l0: "lanes_ok s0" "bss_present (sch_bpf s0)" by (simp_all add: sched_ok_def)
  let ?t = "sample_queued Compute"
  from wp_push_task [OF script_ok l0(1) lanes_room [OF l0(1) s0(3)] l0(2), of ?t "([], [], [])"] obtain s where
    s: "lanes_ok s" "same_but_lanes s0 s" "\<forall>l. lane_tasks l s = lane_tasks l s0 @ (if l = lane_of ?t then [?t] else [])"
    by (auto simp: wp_iff)
  have "lane_of ?t = General_Lane" by (simp add: sample_queued_def lane_of_def)
  then have "backlog s = [?t]" using s(3) s0(2) by (simp add: backlog_def)
  moreover have "sched_ok s"
    using s s0(1) same_but_lanes_fields [OF s(2)] calm_cong [of s s0] by (simp add: sched_ok_def)
  ultimately show ?thesis using dispatch_task_requeues [OF script_ok, of s ?t "[]" "([], [], [])"] by blast
qed

text \<open>
  The record sent back describes the task it was made from: same PID, flags and enqueue number, the
  assigned slice, virtual time 0 exactly for real-time tasks with any other task at most 4 ms ahead of its
  deadline and only when wake-boosted, and its previous CPU only for kernel workers or with
  \<open>--percpu-local\<close>.
\<close>

theorem dispatched_record:
  "dident (dispatched_for cli t) = ident (qtask t) \<and> dt_slice_ns (dispatched_for cli t) = task_slice_ns t \<and>
   (if task_label t = RealTime then dt_vtime (dispatched_for cli t) = 0
    else unat (dt_vtime (dispatched_for cli t)) \<le> unat (deadline t) \<and>
         unat (deadline t) \<le> unat (dt_vtime (dispatched_for cli t)) + (if wake_boosted t then 4000000 else 0)) \<and>
   dt_cpu (dispatched_for cli t) = (if percpu_local cli \<or> is_kworker t then qt_cpu (qtask t) else RL_CPU_ANY)"
proof -
  have "unat (wake_deadline_credit_ns t) \<le> (if wake_boosted t then 4000000 else 0)"
    by (simp add: wake_deadline_credit_ns_def unat_min_word)
  then show ?thesis
    using dident_dispatched_for [of cli t]
    by (cases "wake_boosted t") (auto simp: dispatched_for_def dispatched_new_def unat_sat_sub)
qed

text \<open>
  Draining is bounded and safe: at most the budget of tasks is taken from the kernel, each of them
  lands in a lane (none is dropped for lack of room), nothing is submitted, and no task at all is taken
  while a lane still has a deferred task. The budget is never below 16.
\<close>

theorem drain_is_bounded:
  assumes "libbpf_ok os rx tx" and "sched_ok s"
  shows "\<exists>s' w' ins. drain_queued_tasks os n (s, w) = Inr ((), (s', w')) \<and> sched_ok s' \<and>
    rx w' = rx w @ ins \<and> tx w' = tx w \<and> length (received ins) \<le> n \<and>
    queued_idents s' = queued_idents s + mset (map ident (received ins)) \<and>
    (has_deferred_tasks s \<longrightarrow> ins = []) \<and> 16 \<le> drain_budget cpus"
proof -
  have budget: "16 \<le> drain_budget cpus" by (simp add: drain_budget_def unat_max_word)
  show ?thesis
  proof (cases "has_deferred_tasks s")
    case True
    then have "drain_queued_tasks os n (s, w) = Inr ((), (s, w))"
      by (cases n) (simp_all add: bindS_def gets_own_def gets_def return_def)
    then show ?thesis using assms(2) budget by (simp add: received_def map_filter_def)
  next
    case False
    with wp_drain_queued_tasks [OF assms, of n w] budget show ?thesis by (fastforce simp: wp_iff drained_def)
  qed
qed

theorem drain_is_bounded_witness:
  "\<exists>s s' w'. scheduler_new opts_default bpf_started 0 = Inr s \<and>
     drain_queued_tasks script_os 16 (s, ([queued_ctx sample_task], [], [])) = Inr ((), (s', w')) \<and> sched_ok s'"
proof -
  obtain s where s: "scheduler_new opts_default bpf_started 0 = Inr s" "sched_ok s" using started by metis
  with drain_is_bounded [OF script_ok s(2), of 16 "([queued_ctx sample_task], [], [])"] show ?thesis by blast
qed

end
