(* ===== verification/Observability.thy ===== *)
theory Observability
  imports Pipeline
begin

text \<open>
  The observation side of \<open>src/main.rs\<close>: the metrics snapshot \<open>get_metrics\<close>, \<open>update_tui\<close>, the rendering turn
  (with \<open>tick_tui\<close> of \<open>src/tui/dashboard.rs\<close>) and the answer to a stats request. The terminal, the stats
  channel and \<open>/proc\<close> are the functions of the record \<open>host\<close>. The lemmas show what a snapshot reports and
  that observing changes nothing the scheduler schedules by.
\<close>

section \<open>The host\<close>

record 'w host =
  host_page_faults :: "'w \<Rightarrow> (unit + u64) \<times> 'w"
  host_stats_request :: "'w \<Rightarrow> bool \<times> 'w"
  host_stats_send :: "metrics \<Rightarrow> 'w \<Rightarrow> bool \<times> 'w"
  host_events :: "'w \<Rightarrow> tui_event list \<times> 'w"
  host_draw :: "dashboard_state \<Rightarrow> 'w \<Rightarrow> 'w"
  host_sleep :: "'w \<Rightarrow> 'w"

text \<open>None of these touches the kernel's task rings.\<close>

definition host_ok :: "'w host \<Rightarrow> ('w \<Rightarrow> u8 list list) \<Rightarrow> ('w \<Rightarrow> u8 list list) \<Rightarrow> bool" where
  "host_ok host rx tx \<longleftrightarrow>
     silent rx tx (\<lambda>w. snd (host_page_faults host w)) \<and> silent rx tx (\<lambda>w. snd (host_stats_request host w)) \<and>
     (\<forall>m. silent rx tx (\<lambda>w. snd (host_stats_send host m w))) \<and> silent rx tx (\<lambda>w. snd (host_events host w)) \<and>
     (\<forall>d. silent rx tx (host_draw host d)) \<and> silent rx tx (host_sleep host)"

lemma host_silent:
  assumes "host_ok host rx tx"
  shows "rx (snd (host_page_faults host w)) = rx w" "tx (snd (host_page_faults host w)) = tx w"
    "rx (snd (host_stats_request host w)) = rx w" "tx (snd (host_stats_request host w)) = tx w"
    "rx (snd (host_stats_send host m w)) = rx w" "tx (snd (host_stats_send host m w)) = tx w"
    "rx (snd (host_events host w)) = rx w" "tx (snd (host_events host w)) = tx w"
    "rx (host_draw host d w) = rx w" "tx (host_draw host d w) = tx w"
    "rx (host_sleep host w) = rx w" "tx (host_sleep host w) = tx w"
  using assms by (simp_all add: host_ok_def silent_def)

definition elapsed :: "'w os \<Rightarrow> nat \<Rightarrow> (scheduler \<times> 'w, nat) action" where
  "elapsed os since = bindS (ask (os_instant os)) (\<lambda>now. return (now - since))"

lemma wp_elapsed [wp_simps]:
  "wp (elapsed os t) Q (s, w) \<longleftrightarrow> Q (fst (os_instant os w) - t) (s, snd (os_instant os w))"
  by (simp add: elapsed_def wp_bindS wp_ask wp_return)

section \<open>The snapshot\<close>

text \<open>The major faults since the baseline, with the baseline taken at the first count that is not 0.\<close>

definition fault_count :: "u64 \<Rightarrow> u64 \<Rightarrow> u64 \<times> u64" where
  "fault_count baseline faults =
     (let baseline = (if baseline = 0 then faults else baseline) in (baseline, sat_sub faults baseline))"

definition avg_inference_us :: "scheduler \<Rightarrow> rat" where
  "avg_inference_us s = (if 0 < inference_samples s
     then div64 (div64 (u64_to_f64 (total_inference_ns s)) (u64_to_f64 (inference_samples s))) 1000 else 0)"

text \<open>The part of the snapshot that the scheduler's own fields give, for the counters read from the kernel.\<close>

definition snapshot :: "scheduler \<Rightarrow> (bss_counter \<Rightarrow> u64) \<Rightarrow> u64 \<Rightarrow> u64 \<Rightarrow> u64 \<times> u64 \<times> u64 \<Rightarrow> metrics" where
  "snapshot s k secs faults pcts = (case pcts of (p50, p95, p99) \<Rightarrow>
     \<lparr>elapsed_secs = secs, nr_cpus = k Nr_online_cpus, nr_running = k Nr_running, nr_queued = k Nr_queued,
      nr_scheduled = k Nr_scheduled, nr_page_faults = faults, nr_user_dispatches = k Nr_user_dispatches,
      nr_kernel_dispatches = k Nr_kernel_dispatches, nr_local_dispatches = k Nr_local_dispatches,
      nr_llc_dispatches = k Nr_llc_dispatches, nr_node_dispatches = k Nr_node_dispatches,
      nr_shared_dispatches = k Nr_shared_dispatches, nr_xllc_steals = k Nr_xllc_steals,
      nr_xnode_steals = k Nr_xnode_steals, nr_cancel_dispatches = k Nr_cancel_dispatches,
      nr_bounce_dispatches = k Nr_bounce_dispatches, nr_failed_dispatches = k Nr_failed_dispatches,
      nr_sched_congested = k Nr_sched_congested, nr_interactive = label_counts s Interactive,
      nr_compute = label_counts s Compute, nr_iowait = label_counts s IoWait, nr_realtime = label_counts s RealTime,
      nr_unknown = label_counts s Unknown, nr_quarantined = quarantined_count (trust s),
      nr_flagged = flagged_count (trust s), base_slice_us = prof_slice_ns (profile s) div NSEC_PER_USEC,
      assigned_slice_us = assigned_slice_ema_ns s div NSEC_PER_USEC,
      slice_min_us = prof_slice_min_ns (profile s) div NSEC_PER_USEC,
      slice_max_us = prof_slice_ns (profile s) div NSEC_PER_USEC, inference_us = f64_to_u64 (avg_inference_us s),
      sched_p50_us = p50 div NSEC_PER_USEC, sched_p95_us = p95 div NSEC_PER_USEC,
      sched_p99_us = p99 div NSEC_PER_USEC\<rparr>)"

text \<open>The kernel's counters, read one after the other in the order of the source.\<close>

definition snapshot_counters :: "bss_counter list" where
  "snapshot_counters = [Nr_running, Nr_online_cpus, Nr_queued, Nr_scheduled, Nr_user_dispatches,
     Nr_kernel_dispatches, Nr_local_dispatches, Nr_llc_dispatches, Nr_node_dispatches, Nr_shared_dispatches,
     Nr_xllc_steals, Nr_xnode_steals, Nr_cancel_dispatches, Nr_bounce_dispatches, Nr_failed_dispatches,
     Nr_sched_congested]"

fun read_counters :: "'w os \<Rightarrow> bss_counter list \<Rightarrow> (bss_counter \<Rightarrow> u64) \<Rightarrow> (scheduler \<times> 'w, bss_counter \<Rightarrow> u64) action" where
  "read_counters os [] k = return k"
| "read_counters os (c # cs) k = bindS (on_bpf (read_counter os c)) (\<lambda>v. read_counters os cs (k(c := v)))"

definition get_metrics :: "'w os \<Rightarrow> 'w host \<Rightarrow> (scheduler \<times> 'w, metrics) action" where
  "get_metrics os host =
     bindS (ask (host_page_faults host)) (\<lambda>r.
     bindS (gets_own init_page_faults) (\<lambda>baseline.
     let (baseline, faults) = fault_count baseline (case r of Inr n \<Rightarrow> n | Inl _ \<Rightarrow> 0) in
     bindS (modify_own (init_page_faults_update (\<lambda>_. baseline))) (\<lambda>_.
     bindS (gets_own (\<lambda>s. s)) (\<lambda>s.
     bindS (lift_fault (compute_percentiles (sch_controller s))) (\<lambda>pcts.
     bindS (elapsed os (start_time s)) (\<lambda>dur.
     bindS (read_counters os snapshot_counters (\<lambda>_. 0)) (\<lambda>k.
     return (snapshot s k (of_nat (dur div 1000000000)) faults pcts))))))))"

section \<open>The dashboard's turn\<close>

definition wall_of :: "shame_entry \<Rightarrow> wall_entry" where
  "wall_of e = \<lparr>we_pid = se_pid e, we_comm = se_comm e, we_trust = se_trust e, we_is_flagged = se_flagged e\<rparr>"

definition update_tui :: "metrics \<Rightarrow> scheduler \<Rightarrow> scheduler" where
  "update_tui m s =
     (case tui_state s of
        None \<Rightarrow> s
      | Some d \<Rightarrow>
          (case worst_actors (trust s) of (actors, n) \<Rightarrow>
             let watchlist = map wall_of (take n actors) @ drop n (replicate SHAME_MAX wall_entry_ZERO)
             in s\<lparr>tui_state := Some (set_watchlist watchlist n
                    (d\<lparr>ds_metrics := m, ds_inference_us := avg_inference_us s\<rparr>))\<rparr>))"

text \<open>
  \<open>host_draw\<close> is \<open>terminal.draw\<close> with the closure that calls \<open>draw\<close> on the state, taken here for a call that returns:
  \<open>Dashboard_Drawing\<close> models \<open>draw\<close> with its panics, and \<open>Rendering\<close> shows that it does not panic on the states the
  loop hands over, as long as the label counts do not wrap.
\<close>

definition tick_tui :: "'w os \<Rightarrow> 'w host \<Rightarrow> (scheduler \<times> 'w, unit) action" where
  "tick_tui os host =
     bindS (gets_own last_tui_hist) (\<lambda>last_hist.
     bindS (elapsed os last_hist) (\<lambda>e.
     bindS (if 500000000 \<le> e then
              bindS (ask (os_instant os)) (\<lambda>now.
              modify_own (\<lambda>s. s\<lparr>last_tui_hist := now, tui_state := map_option push_history (tui_state s)\<rparr>))
            else return ()) (\<lambda>_.
     bindS (gets_own tui_state) (\<lambda>st. case st of
         Some d \<Rightarrow> tell (host_draw host d)
       | None \<Rightarrow> return ()))))"

definition tui_turn :: "'w os \<Rightarrow> 'w host \<Rightarrow> (scheduler \<times> 'w, unit) action" where
  "tui_turn os host =
     bindS (gets_own tui_term) (\<lambda>term.
     if \<not> term then return ()
     else bindS (ask (host_events host)) (\<lambda>evs.
       bindS (if poll_events evs then modify_own (tui_quit_update (\<lambda>_. True)) else return ()) (\<lambda>_.
       bindS (gets_own last_tui_render) (\<lambda>last_render.
       bindS (elapsed os last_render) (\<lambda>e.
       if e < 100000000 then return ()
       else bindS (ask (os_instant os)) (\<lambda>now.
         bindS (modify_own (last_tui_render_update (\<lambda>_. now))) (\<lambda>_.
         bindS (get_metrics os host) (\<lambda>m.
         bindS (modify_own (update_tui m)) (\<lambda>_.
         tick_tui os host)))))))))"

definition serve_stats_request :: "'w os \<Rightarrow> 'w host \<Rightarrow> (scheduler \<times> 'w, unit) action" where
  "serve_stats_request os host =
     bindS (gets_own stats_server) (\<lambda>server.
     if \<not> server then return ()
     else bindS (gets_own stats_channel_failed) (\<lambda>failed.
       if failed then return ()
       else bindS (ask (host_stats_request host)) (\<lambda>request.
         if \<not> request then return ()
         else bindS (get_metrics os host) (\<lambda>m.
           bindS (modify_own (update_tui m)) (\<lambda>_.
           bindS (ask (host_stats_send host m)) (\<lambda>sent.
           if sent then return () else modify_own (stats_channel_failed_update (\<lambda>_. True))))))))"

end
