(* ===== verification/Housekeeping.thy ===== *)
theory Housekeeping
  imports Observability
begin

text \<open>
  The periodic work of \<open>src/main.rs\<close> (\<open>drain_exited_tasks\<close>, \<open>tick_trust\<close>, \<open>tick_slice_controller\<close>,
  \<open>flush_trust_updates\<close>, \<open>housekeeping\<close>) and the main loop \<open>run\<close>, as a step relation on the scheduler, the
  world and the loop's own timer, with the answer to a stats request and the dashboard's turn. The invariant of
  the pipeline is shown for every reachable state.
\<close>

section \<open>Periodic work\<close>

fun drain_exited_tasks :: "'w os \<Rightarrow> nat \<Rightarrow> (scheduler \<times> 'w, unit) action" where
  "drain_exited_tasks os 0 = return ()"
| "drain_exited_tasks os (Suc n) =
     bindS (on_bpf (dequeue_exited_pid os)) (\<lambda>r. case r of
       Inr (Some pid) \<Rightarrow>
         if 0 < sint pid then
           bindS (modify_own (\<lambda>s. s\<lparr>sch_lifetimes := lifetime_evict (sch_lifetimes s) pid\<rparr>)) (\<lambda>_.
           bindS (modify_own (\<lambda>s. s\<lparr>trust := trust_evict (trust s) pid\<rparr>)) (\<lambda>_.
           drain_exited_tasks os n))
         else drain_exited_tasks os n
     | Inr None \<Rightarrow> return ()
     | Inl err \<Rightarrow> return ())"

definition tick_trust :: "'w os \<Rightarrow> (scheduler \<times> 'w, unit) action" where
  "tick_trust os =
     bindS (gets_own last_trust_tick) (\<lambda>last_tick.
     bindS (elapsed os last_tick) (\<lambda>e.
     if e < 100000000 then return ()
     else bindS (ask (os_instant os)) (\<lambda>now.
       bindS (modify_own (last_trust_tick_update (\<lambda>_. now))) (\<lambda>_.
       bindS (ask (os_now os)) (\<lambda>now_ns.
       bindS (gets_own (\<lambda>s. trust_tick (trust s) now_ns)) (\<lambda>_. return ()))))))"

definition controller_action ::
    "(slice_controller \<Rightarrow> fault + ('r \<times> slice_controller)) \<Rightarrow> (scheduler \<times> 'w, 'r) action" where
  "controller_action f = on_part sch_controller (\<lambda>c. sch_controller_update (\<lambda>_. c))
     (\<lambda>(c, w). bindR (f c) (\<lambda>(r, c'). Inr (r, (c', w))))"

definition tick_slice_controller :: "'w os \<Rightarrow> (scheduler \<times> 'w, unit) action" where
  "tick_slice_controller os =
     bindS (gets_own last_slice_tick) (\<lambda>last_tick.
     bindS (elapsed os last_tick) (\<lambda>e.
     if e < 50000000 then return ()
     else bindS (ask (os_instant os)) (\<lambda>now.
       bindS (modify_own (last_slice_tick_update (\<lambda>_. now))) (\<lambda>_.
       bindS (on_bpf (read_counter os Nr_online_cpus)) (\<lambda>cpus.
       bindS (on_bpf (read_counter os Nr_running)) (\<lambda>nr_running.
       bindS (on_bpf (read_counter os Nr_queued)) (\<lambda>nr_queued.
       bindS (on_bpf (read_counter os Nr_scheduled)) (\<lambda>nr_scheduled.
       bindS (controller_action (\<lambda>c. controller_update c
           (effective_slice_pressure nr_running nr_queued nr_scheduled) (max cpus 1))) (\<lambda>_.
       return ())))))))))"

definition STALE_THRESHOLD_NS :: u64 where "STALE_THRESHOLD_NS = 2 * NSEC_PER_SEC"
definition STALE_CAP :: nat where "STALE_CAP = 256"

text \<open>The scan: the PIDs of the stale rows, as many as the stack array holds.\<close>

definition stale_row :: "lifetimes \<Rightarrow> u64 \<Rightarrow> nat \<Rightarrow> bool" where
  "stale_row l now i \<longleftrightarrow> 0 < sint (lifetime_pids l i) \<and> 0 < last_seen_ns (lifetime_table l i) \<and>
     STALE_THRESHOLD_NS \<le> sat_sub now (last_seen_ns (lifetime_table l i))"

definition stale_pids :: "lifetimes \<Rightarrow> u64 \<Rightarrow> i32 list" where
  "stale_pids l now = fold (\<lambda>i stale. if stale_row l now i \<and> length stale < STALE_CAP
     then stale @ [lifetime_pids l i] else stale) [0..<TABLE_SIZE] []"

definition exit_obs :: "task_lifetime \<Rightarrow> exit_observation" where
  "exit_obs lt = \<lparr>slice_underrun = slice_used_ns lt < slice_assigned_ns lt div 2, preempted = lt_preempted lt,
     clean_exit = \<not> lt_cheat_flagged lt, cheat_flagged = lt_cheat_flagged lt, fork_count = 0,
     involuntary_ctx_sw = 0\<rparr>"

definition flush_one :: "i32 \<Rightarrow> scheduler \<Rightarrow> scheduler" where
  "flush_one pid s =
     (case lifetime_find_slot (sch_lifetimes s) pid of
        None \<Rightarrow> s
      | Some i \<Rightarrow>
          let lt = lifetime_table (sch_lifetimes s) i;
              s = s\<lparr>sch_lifetimes := lifetime_evict (sch_lifetimes s) pid\<rparr>
          in s\<lparr>trust := update_on_exit (trust s) pid pid (exit_obs lt) []\<rparr>)"

definition flush_trust_updates :: "'w os \<Rightarrow> (scheduler \<times> 'w, unit) action" where
  "flush_trust_updates os =
     bindS (gets_own last_trust_flush) (\<lambda>last_flush.
     bindS (elapsed os last_flush) (\<lambda>e.
     if e < 1000000000 then return ()
     else bindS (ask (os_instant os)) (\<lambda>now.
       bindS (modify_own (last_trust_flush_update (\<lambda>_. now))) (\<lambda>_.
       bindS (ask (os_now os)) (\<lambda>now_ns.
       modify_own (\<lambda>s. fold flush_one (stale_pids (sch_lifetimes s) now_ns) s))))))"

definition housekeeping :: "'w os \<Rightarrow> (scheduler \<times> 'w, unit) action" where
  "housekeeping os = bindS (tick_trust os) (\<lambda>_. bindS (tick_slice_controller os) (\<lambda>_. flush_trust_updates os))"

section \<open>The main loop\<close>

definition has_userspace_work :: "'w os \<Rightarrow> (scheduler \<times> 'w, bool) action" where
  "has_userspace_work os =
     bindS (gets_own tasks_empty) (\<lambda>idle.
     if \<not> idle then return True
     else bindS (on_bpf (read_counter os Nr_queued)) (\<lambda>q.
       if 0 < q then return True
       else bindS (on_bpf (read_counter os Nr_scheduled)) (\<lambda>n. return (0 < n))))"

definition housekeeping_turn :: "'w os \<Rightarrow> nat \<Rightarrow> (scheduler \<times> 'w, nat) action" where
  "housekeeping_turn os last_hk =
     bindS (elapsed os last_hk) (\<lambda>e.
     if 50000000 \<le> e then
       bindS (ask (os_instant os)) (\<lambda>now. bindS (housekeeping os) (\<lambda>_. return now))
     else return last_hk)"

text \<open>
  One turn of the loop: None when the scheduler has exited or the user quit, else the new value of
  \<open>last_housekeeping\<close>.
\<close>

definition run_iteration :: "'w os \<Rightarrow> 'w host \<Rightarrow> nat \<Rightarrow> (scheduler \<times> 'w, nat option) action" where
  "run_iteration os host last_hk =
     bindS (on_bpf (bpf_exited os)) (\<lambda>stop.
     if stop then return None
     else bindS (has_userspace_work os) (\<lambda>work.
       bindS (if work then schedule os else return ()) (\<lambda>_.
       bindS (drain_exited_tasks os 128) (\<lambda>_.
       bindS (serve_stats_request os host) (\<lambda>_.
       bindS (housekeeping_turn os last_hk) (\<lambda>hk.
       bindS (tui_turn os host) (\<lambda>_.
       bindS (gets_own tui_quit) (\<lambda>quit.
       if quit then return None
       else bindS (if work then return () else tell (host_sleep host)) (\<lambda>_. return (Some hk))))))))))"

inductive run_step :: "'w os \<Rightarrow> 'w host \<Rightarrow> scheduler \<times> 'w \<times> nat \<Rightarrow> scheduler \<times> 'w \<times> nat \<Rightarrow> bool" for os host where
  iterate: "run_iteration os host hk (s, w) = Inr (Some hk', (s', w')) \<Longrightarrow> run_step os host (s, w, hk) (s', w', hk')"

inductive_cases run_stepE: "run_step os host a b"

inductive reachable :: "'w os \<Rightarrow> 'w host \<Rightarrow> scheduler \<times> 'w \<times> nat \<Rightarrow> scheduler \<times> 'w \<times> nat \<Rightarrow> bool" for os host start where
  start: "reachable os host start start"
| step: "reachable os host start st \<Longrightarrow> run_step os host st st' \<Longrightarrow> reachable os host start st'"

section \<open>Trust stays calm\<close>

text \<open>A score that no adverse exit lowers does not fall below -5/32.\<close>

lemma mild_raise:
  assumes "- 5/32 \<le> x" and "0 \<le> a" "a \<le> 1" "0 \<le> b"
  shows "- 5/32 \<le> raise_score a b x"
proof -
  have a: "0 \<le> rnd32 a" "rnd32 a \<le> 1" and b: "0 \<le> rnd32 b"
    using f32.unit [OF assms(2,3)] f32.nonneg [OF assms(4)] by auto
  have d: "rnd32 (- 5/32) = - 5/32" using dyadic32 [of "- 40"] by simp
  have "- 5/32 \<le> x * rnd32 a"
  proof (cases "0 \<le> x")
    case True
    then have "0 \<le> x * rnd32 a" using a(1) by (rule mult_nonneg_nonneg)
    then show ?thesis by linarith
  next
    case False
    then have "x * 1 \<le> x * rnd32 a" using a(2) by (intro mult_left_mono_neg) simp_all
    then show ?thesis using assms(1) by simp
  qed
  then have "- 5/32 \<le> mul32 x (rnd32 a)" unfolding mul32_def using f32.mono d by metis
  then have "- 5/32 \<le> mul32 x (rnd32 a) + rnd32 b" using b by linarith
  then have "- 5/32 \<le> add32 (mul32 x (rnd32 a)) (rnd32 b)" unfolding add32_def using f32.mono d by metis
  then show ?thesis by (simp add: raise_score_def)
qed

text \<open>Lower bounds on the steps of an exit, in multiples of 1/2048.\<close>

lemma dyadic32_2048: "\<bar>m\<bar> < 2 ^ 24 \<Longrightarrow> rnd32 (of_int m / 2048) = of_int m / 2048"
  unfolding rnd32_def by (rule rnd_exact [of _ m "- 11"]) (simp_all add: pow2_def)

lemma rnd32_ge_2048: "of_int m / 2048 \<le> y \<Longrightarrow> \<bar>m\<bar> < 2 ^ 24 \<Longrightarrow> of_int m / 2048 \<le> rnd32 y"
  using f32.mono [of "of_int m / 2048" y] dyadic32_2048 [of m] by simp

lemma mild_exit:
  assumes "- 5/32 \<le> x"
  shows "- 5/32 \<le> lower_score (93/100) (7/100) (raise_score (97/100) (6/100) x)"
proof -
  define y where "y = raise_score (97/100) (6/100) x"
  have "of_int (- 311) / 2048 \<le> x * rnd32 (97/100)" using assms unfolding lit_97_100 by simp
  then have "of_int (- 311) / 2048 \<le> mul32 x (rnd32 (97/100))"
    unfolding mul32_def by (rule rnd32_ge_2048) simp
  then have "of_int (- 189) / 2048 \<le> mul32 x (rnd32 (97/100)) + rnd32 (6/100)" unfolding lit_6_100 by simp
  then have "of_int (- 189) / 2048 \<le> add32 (mul32 x (rnd32 (97/100))) (rnd32 (6/100))"
    unfolding add32_def by (rule rnd32_ge_2048) simp
  then have "of_int (- 189) / 2048 \<le> y" by (simp add: y_def raise_score_def)
  then have "of_int (- 176) / 2048 \<le> y * rnd32 (93/100)" unfolding lit_93_100 by simp
  then have "of_int (- 176) / 2048 \<le> mul32 y (rnd32 (93/100))"
    unfolding mul32_def by (rule rnd32_ge_2048) simp
  then have "of_int (- 320) / 2048 \<le> mul32 y (rnd32 (93/100)) - rnd32 (7/100)" unfolding lit_7_100 by simp
  then have "of_int (- 320) / 2048 \<le> sub32 (mul32 y (rnd32 (93/100))) (rnd32 (7/100))"
    unfolding sub32_def by (rule rnd32_ge_2048) simp
  then show ?thesis by (simp add: y_def lower_score_def)
qed

definition mild :: "trust_table \<Rightarrow> bool" where
  "mild t \<longleftrightarrow> trust_inv t \<and> (\<forall>i. - 5/32 \<le> scores t i \<and> cheat_streak t i = 0)"

lemma calm_mild: "calm s \<longleftrightarrow> mild (trust s) \<and> (\<forall>i. \<not> lt_cheat_flagged (lifetime_table (sch_lifetimes s) i))"
  by (simp add: calm_def mild_def)

lemma mild_rows:
  "mild t \<longleftrightarrow> trust_inv t \<and> (\<forall>i. case trust_row t i of (x, c, f, n, g) \<Rightarrow> - 5/32 \<le> x \<and> n = 0)"
  by (simp add: mild_def trust_row_def)

lemma mild_evict: "mild t \<Longrightarrow> mild (trust_evict t pid)"
  using trust_inv_evict [of t pid]
    trust.evict_rows [of "\<lambda>r. case r of (x, c, f, n, g) \<Rightarrow> - 5/32 \<le> x \<and> n = 0" t pid]
  unfolding mild_rows by (simp add: blank_row_def)

lemma next_score_mild:
  assumes "\<not> cheat_flagged obs" and "clean_exit obs" and "fork_count obs \<le> 50" and "involuntary_ctx_sw obs \<le> 1000"
    and "- 5/32 \<le> x"
  shows "- 5/32 \<le> next_score obs x"
proof -
  define y where "y = guarded (slice_underrun obs) (raise_score (95/100) (10/100)) x"
  have y: "- 5/32 \<le> y" using mild_raise [OF assms(5), of "95/100" "10/100"] assms(5) by (simp add: y_def guarded_def)
  have off: "\<not> 50 < fork_count obs" "\<not> 1000 < involuntary_ctx_sw obs" using assms(3,4) by auto
  have "next_score obs x = (if preempted obs then lower_score (93/100) (7/100) (raise_score (97/100) (6/100) y)
      else raise_score (97/100) (6/100) y)"
    unfolding next_score_def y_def [symmetric] using assms(1,2) off by (simp add: guarded_def)
  moreover have "- 5/32 \<le> raise_score (97/100) (6/100) y" by (rule mild_raise [OF y]) simp_all
  ultimately show ?thesis using mild_exit [OF y] by simp
qed

lemma mild_update:
  assumes m: "mild t" and pid: "is_pos_i32 pid"
    and obs: "\<not> cheat_flagged obs" "clean_exit obs" "fork_count obs \<le> 50" "involuntary_ctx_sw obs \<le> 1000"
  shows "mild (update_on_exit t pid pid obs comm)"
proof -
  have l: "live pid" by (rule live_pos [OF pid])
  have inv: "trust_inv t" using m by (simp add: mild_def)
  obtain s t1 where ins: "get_or_insert_slot t pid = (s, t1)" by fastforce
  have "mild t1"
    using m trust_inv_insert(1) [OF inv l ins]
      trust.insert_rows [of "\<lambda>r. case r of (x, c, f, n, g) \<Rightarrow> - 5/32 \<le> x \<and> n = 0" t pid s t1] ins
    unfolding mild_rows by (simp add: blank_row_def)
  then have t1: "\<forall>i. - 5/32 \<le> scores t1 i \<and> cheat_streak t1 i = 0" by (simp add: mild_def)
  note eff = update_on_exit_effect [OF ins, where tgid = pid and obs = obs and comm = comm]
  show ?thesis
    using trust_inv_update [OF inv l l] t1 next_score_mild [OF obs] obs(1)
    unfolding mild_def eff(1,2) by (simp add: next_streak_def)
qed

lemma exit_obs_sel:
  "cheat_flagged (exit_obs lt) = lt_cheat_flagged lt" "clean_exit (exit_obs lt) = (\<not> lt_cheat_flagged lt)"
  "fork_count (exit_obs lt) = 0" "involuntary_ctx_sw (exit_obs lt) = 0"
  by (simp_all add: exit_obs_def)

lemma calm_evict:
  assumes "calm s" shows "calm (s\<lparr>sch_lifetimes := lifetime_evict (sch_lifetimes s) pid\<rparr>)"
  using assms lifetime_evict_rows [of "\<lambda>lt. \<not> lt_cheat_flagged lt" "sch_lifetimes s" pid]
  by (simp add: calm_mild lifetime_default_def)

lemma calm_flush_one:
  assumes "calm s" and "is_pos_i32 pid" shows "calm (flush_one pid s)"
proof (cases "lifetime_find_slot (sch_lifetimes s) pid")
  case None
  then show ?thesis using assms by (simp add: flush_one_def)
next
  case (Some i)
  have "\<not> lt_cheat_flagged (lifetime_table (sch_lifetimes s) i)" using assms(1) by (simp add: calm_mild)
  then have "mild (update_on_exit (trust s) pid pid (exit_obs (lifetime_table (sch_lifetimes s) i)) [])"
    using assms by (intro mild_update) (simp_all add: calm_mild exit_obs_sel)
  then show ?thesis
    using Some calm_evict [OF assms(1), of pid] by (simp add: flush_one_def Let_def calm_mild)
qed

lemma stale_fold_bounds:
  fixes l now
  defines "f \<equiv> \<lambda>i stale. if stale_row l now i \<and> length stale < STALE_CAP
             then stale @ [lifetime_pids l i] else stale"
  assumes "\<forall>p \<in> set acc. is_pos_i32 p" and "length acc \<le> STALE_CAP"
  shows "(\<forall>p \<in> set (fold f xs acc). is_pos_i32 p) \<and> length (fold f xs acc) \<le> STALE_CAP"
  using assms(2,3)
proof (induction xs arbitrary: acc)
  case (Cons i xs)
  have "(\<forall>p \<in> set (f i acc). is_pos_i32 p) \<and> length (f i acc) \<le> STALE_CAP"
    using Cons.prems by (auto simp: f_def stale_row_def)
  then show ?case using Cons.IH [of "f i acc"] by simp
qed simp

lemma stale_pids_bounds:
  "\<forall>p \<in> set (stale_pids l now). is_pos_i32 p" "length (stale_pids l now) \<le> STALE_CAP"
  using stale_fold_bounds [of "[]" l now "[0..<TABLE_SIZE]"] unfolding stale_pids_def by simp_all

section \<open>What keeps the invariant\<close>

text \<open>
  \<open>keeps\<close>: from a well-formed scheduler the action returns without a fault, to a well-formed scheduler,
  and the conservation law holds across it. It is closed under the combinators.
\<close>

named_theorems keeps_rules "actions that keep the scheduler well-formed and lose no task"

definition kept :: "('w \<Rightarrow> u8 list list) \<Rightarrow> ('w \<Rightarrow> u8 list list) \<Rightarrow> scheduler \<times> 'w \<Rightarrow> scheduler \<times> 'w \<Rightarrow> bool" where
  "kept rx tx st st' \<longleftrightarrow> sched_ok (fst st') \<and> ledger rx tx st st'"

definition keeps :: "('w \<Rightarrow> u8 list list) \<Rightarrow> ('w \<Rightarrow> u8 list list) \<Rightarrow> (scheduler \<times> 'w, 'a) action \<Rightarrow> bool" where
  "keeps rx tx m \<longleftrightarrow> (\<forall>s w. sched_ok s \<longrightarrow> wp m (\<lambda>_ st'. kept rx tx (s, w) st') (s, w))"

lemma keepsI: "(\<And>s w. sched_ok s \<Longrightarrow> wp m (\<lambda>_ st'. kept rx tx (s, w) st') (s, w)) \<Longrightarrow> keeps rx tx m"
  by (simp add: keeps_def)

lemma keepsD: "keeps rx tx m \<Longrightarrow> sched_ok s \<Longrightarrow> wp m (\<lambda>_ st'. kept rx tx (s, w) st') (s, w)"
  by (simp add: keeps_def)

lemma kept_trans: "kept rx tx a b \<Longrightarrow> kept rx tx b c \<Longrightarrow> kept rx tx a c"
  by (auto simp: kept_def intro: ledger_trans)

lemma kept_same:
  "sched_ok s' \<Longrightarrow> (\<And>l. lane_queue l s' = lane_queue l s) \<Longrightarrow> rx w' = rx w \<Longrightarrow> tx w' = tx w \<Longrightarrow>
     kept rx tx (s, w) (s', w')"
  using backlog_cong [of s' s] by (simp add: kept_def queued_idents_def ledger_refl)

lemma keeps_bind [keeps_rules]:
  assumes "keeps rx tx m" and "\<And>x. keeps rx tx (f x)" shows "keeps rx tx (bindS m f)"
proof (rule keepsI)
  fix s w assume ok: "sched_ok s"
  show "wp (bindS m f) (\<lambda>_ st'. kept rx tx (s, w) st') (s, w)"
    unfolding wp_bindS using keepsD [OF assms(1) ok, of w]
  proof (rule wp_mono)
    fix x st' assume k: "kept rx tx (s, w) st'"
    then have "wp (f x) (\<lambda>_ st''. kept rx tx st' st'') st'"
      using keepsD [OF assms(2), of "fst st'" x "snd st'"] by (simp add: kept_def)
    then show "wp (f x) (\<lambda>_ st''. kept rx tx (s, w) st'') st'" by (rule wp_mono) (rule kept_trans [OF k])
  qed
qed

lemma keeps_return [keeps_rules]: "keeps rx tx (return x)"
  by (rule keepsI) (simp add: wp_return kept_same)

lemma keeps_gets_own [keeps_rules]: "keeps rx tx (gets_own f)"
  by (rule keepsI) (simp add: wp_gets_own kept_same)

lemma keeps_if [keeps_rules]: "keeps rx tx m \<Longrightarrow> keeps rx tx n \<Longrightarrow> keeps rx tx (if b then m else n)"
  by simp

lemma keeps_ask: "silent rx tx (\<lambda>w. snd (f w)) \<Longrightarrow> keeps rx tx (ask f)"
  by (rule keepsI) (simp add: wp_ask kept_same silent_def)

lemma keeps_tell: "silent rx tx f \<Longrightarrow> keeps rx tx (tell f)"
  by (rule keepsI) (simp add: wp_tell kept_same silent_def)

lemma keeps_lift_fault: "\<exists>r. x = Inr r \<Longrightarrow> keeps rx tx (lift_fault x)"
  by (rule keepsI) (auto simp: wp_lift_fault intro: kept_same)

lemma keeps_bpf:
  assumes "\<And>b w. bss_present b \<Longrightarrow> wp m (\<lambda>_ (b', w'). bss_present b' \<and> rx w' = rx w \<and> tx w' = tx w) (b, w)"
  shows "keeps rx tx (on_bpf m)"
proof (rule keepsI)
  fix s w assume ok: "sched_ok s"
  then have "bss_present (sch_bpf s)" by (simp add: sched_ok_def)
  from assms [OF this, of w] show "wp (on_bpf m) (\<lambda>_ st'. kept rx tx (s, w) st') (s, w)"
    unfolding wp_on_bpf
    by (rule wp_mono) (auto intro!: kept_same sched_ok_bpf [OF ok])
qed

text \<open>A change of the fields that leaves the lanes alone.\<close>

definition steady :: "(scheduler \<Rightarrow> scheduler) \<Rightarrow> bool" where
  "steady f \<longleftrightarrow> (\<forall>s. (\<forall>l. lane_queue l (f s) = lane_queue l s) \<and> (sched_ok s \<longrightarrow>
     bss_present (sch_bpf (f s)) \<and> controller_ok (sch_controller (f s)) \<and> calm (f s)))"

lemma steady_ok:
  assumes "steady f" and "sched_ok s" shows "sched_ok (f s)" "lane_queue l (f s) = lane_queue l s"
  using assms lanes_ok_cong [of "f s" s] by (auto simp: steady_def sched_ok_def)

lemma keeps_modify: "steady f \<Longrightarrow> keeps rx tx (modify_own f)"
  by (rule keepsI) (simp add: wp_modify_own kept_same steady_ok)

lemma sched_ok_calm: "sched_ok s \<Longrightarrow> calm s"
  by (simp add: sched_ok_def)

lemma sched_ok_parts: "sched_ok s \<Longrightarrow> bss_present (sch_bpf s) \<and> controller_ok (sch_controller s) \<and> calm s"
  by (simp add: sched_ok_def)

lemma lane_queue_fields [simp]:
  "lane_queue l (trust_update f0 s) = lane_queue l s"
  "lane_queue l (init_page_faults_update f1 s) = lane_queue l s"
  "lane_queue l (tui_state_update f2 s) = lane_queue l s"
  "lane_queue l (tui_quit_update f3 s) = lane_queue l s"
  "lane_queue l (last_tui_render_update f4 s) = lane_queue l s"
  "lane_queue l (last_tui_hist_update f5 s) = lane_queue l s"
  "lane_queue l (last_trust_tick_update f6 s) = lane_queue l s"
  "lane_queue l (last_slice_tick_update f7 s) = lane_queue l s"
  "lane_queue l (last_trust_flush_update f8 s) = lane_queue l s"
  "lane_queue l (stats_channel_failed_update f9 s) = lane_queue l s"
  by (cases l; simp)+

lemma steady_fields [keeps_rules]:
  "steady (init_page_faults_update f)" "steady (tui_state_update g)" "steady (tui_quit_update h)"
  "steady (last_tui_render_update t)" "steady (last_trust_tick_update t)" "steady (last_slice_tick_update t)"
  "steady (last_trust_flush_update t)" "steady (stats_channel_failed_update h)"
  "steady (\<lambda>s. s\<lparr>last_tui_hist := n, tui_state := k (tui_state s)\<rparr>)"
  by (simp_all add: steady_def calm_def sched_ok_def)

section \<open>The periodic work keeps it\<close>

lemma flush_one_frame:
  "lane_queue l (flush_one pid s) = lane_queue l s" "sch_bpf (flush_one pid s) = sch_bpf s"
  "sch_controller (flush_one pid s) = sch_controller s"
  by (simp_all add: flush_one_def Let_def split: option.splits)

lemma flush_fold:
  assumes "\<forall>p \<in> set ps. is_pos_i32 p"
  shows "(calm s \<longrightarrow> calm (fold flush_one ps s)) \<and> lane_queue l (fold flush_one ps s) = lane_queue l s \<and>
    sch_bpf (fold flush_one ps s) = sch_bpf s \<and> sch_controller (fold flush_one ps s) = sch_controller s"
  using assms by (induction ps arbitrary: s) (simp_all add: flush_one_frame calm_flush_one)

lemma steady_flush: "steady (\<lambda>s. fold flush_one (stale_pids (sch_lifetimes s) now) s)"
  unfolding steady_def using flush_fold [OF stale_pids_bounds(1)] sched_ok_parts by simp

lemma steady_evict: "steady (\<lambda>s. s\<lparr>sch_lifetimes := lifetime_evict (sch_lifetimes s) pid\<rparr>)"
  using calm_evict sched_ok_parts by (simp add: steady_def)

lemma steady_trust_evict: "steady (\<lambda>s. s\<lparr>trust := trust_evict (trust s) pid\<rparr>)"
  using mild_evict sched_ok_parts by (simp add: steady_def calm_mild)

lemma controller_update_total:
  assumes "controller_ok c" shows "\<exists>r c'. controller_update c nr cpus = Inr (r, c') \<and> controller_ok c'"
  using controller_step_ok [OF assms, of "Update nr cpus"] by (auto simp: bindR_eq_Inr)

lemma keeps_controller: "keeps rx tx (controller_action (\<lambda>c. controller_update c nr cpus))"
proof (rule keepsI)
  fix s w assume ok: "sched_ok s"
  obtain r c' where c: "controller_update (sch_controller s) nr cpus = Inr (r, c')" "controller_ok c'"
    using controller_update_total sched_ok_parts [OF ok] by blast
  have "sched_ok (s\<lparr>sch_controller := c'\<rparr>)"
    using ok c(2) lanes_ok_cong [OF lane_queue_controller] calm_cong [of "s\<lparr>sch_controller := c'\<rparr>" s]
    by (simp add: sched_ok_def)
  then show "wp (controller_action (\<lambda>c. controller_update c nr cpus)) (\<lambda>_ st'. kept rx tx (s, w) st') (s, w)"
    by (simp add: controller_action_def wp_on_part) (simp add: wp_def c(1) kept_same)
qed

section \<open>The loop keeps it\<close>

lemma keeps_calls [keeps_rules]:
  assumes os: "libbpf_ok os rx tx"
  shows "keeps rx tx (ask (os_now os))" "keeps rx tx (ask (os_instant os))"
    "keeps rx tx (on_bpf (read_counter os c))" "keeps rx tx (on_bpf (bpf_exited os))"
    "keeps rx tx (on_bpf (dequeue_exited_pid os))" "keeps rx tx (elapsed os since)"
proof -
  show "keeps rx tx (ask (os_now os))" "keeps rx tx (ask (os_instant os))"
    by (rule keeps_ask, simp add: silent_def libbpf_silent [OF os])+
  then show "keeps rx tx (elapsed os since)"
    unfolding elapsed_def by (intro keeps_rules) simp
  show "keeps rx tx (on_bpf (read_counter os c))"
    by (rule keeps_bpf) (simp add: wp_read_counter libbpf_silent [OF os])
  show "keeps rx tx (on_bpf (bpf_exited os))"
    by (rule keeps_bpf) (simp add: bpf_exited_def wp_bindS wp_ask wp_return libbpf_silent [OF os])
  show "keeps rx tx (on_bpf (dequeue_exited_pid os))"
    by (rule keeps_bpf, rule wp_mono [OF wp_dequeue_exited_pid [OF os]]) auto
qed

lemma keeps_host [keeps_rules]:
  assumes host: "host_ok host rx tx"
  shows "keeps rx tx (ask (host_page_faults host))" "keeps rx tx (ask (host_stats_request host))"
    "keeps rx tx (ask (host_stats_send host m))" "keeps rx tx (ask (host_events host))"
    "keeps rx tx (tell (host_draw host d))" "keeps rx tx (tell (host_sleep host))"
  by (rule keeps_ask keeps_tell, simp add: silent_def host_silent [OF host])+

lemma keeps_schedule [keeps_rules]: "libbpf_ok os rx tx \<Longrightarrow> keeps rx tx (schedule os)"
proof (rule keepsI)
  fix s w assume "libbpf_ok os rx tx" "sched_ok s"
  from wp_schedule [OF this, of w] show "wp (schedule os) (\<lambda>_ st'. kept rx tx (s, w) st') (s, w)"
    by (rule wp_mono) (auto simp: cycle_post_def kept_def)
qed

lemma keeps_drain_exited [keeps_rules]:
  assumes os: "libbpf_ok os rx tx" shows "keeps rx tx (drain_exited_tasks os n)"
proof (induction n)
  case 0
  then show ?case by (simp add: keeps_return)
next
  case (Suc n)
  have "keeps rx tx (case r of
       Inr (Some pid) \<Rightarrow>
         if 0 < sint pid then
           bindS (modify_own (\<lambda>s. s\<lparr>sch_lifetimes := lifetime_evict (sch_lifetimes s) pid\<rparr>)) (\<lambda>_.
           bindS (modify_own (\<lambda>s. s\<lparr>trust := trust_evict (trust s) pid\<rparr>)) (\<lambda>_.
           drain_exited_tasks os n))
         else drain_exited_tasks os n
     | Inr None \<Rightarrow> return ()
     | Inl err \<Rightarrow> return ())" for r :: "i32 + i32 option"
    by (cases r; cases "projr r")
      (auto intro!: keeps_rules keeps_modify steady_evict steady_trust_evict Suc.IH simp: case_unit_Unity)
  then show ?case by (simp add: keeps_bind keeps_calls [OF os])
qed

lemma keeps_housekeeping [keeps_rules]:
  assumes os: "libbpf_ok os rx tx"
  shows "keeps rx tx (housekeeping os)" and "keeps rx tx (has_userspace_work os)"
    and "keeps rx tx (housekeeping_turn os hk)"
proof -
  have "keeps rx tx (tick_trust os)"
    unfolding tick_trust_def by (intro keeps_rules keeps_modify os)
  moreover have "keeps rx tx (tick_slice_controller os)"
    unfolding tick_slice_controller_def by (intro keeps_rules keeps_modify keeps_controller os)
  moreover have "keeps rx tx (flush_trust_updates os)"
    unfolding flush_trust_updates_def by (intro keeps_rules keeps_modify steady_flush os)
  ultimately show hk: "keeps rx tx (housekeeping os)"
    unfolding housekeeping_def by (intro keeps_rules)
  show "keeps rx tx (has_userspace_work os)"
    unfolding has_userspace_work_def by (intro keeps_rules os)
  show "keeps rx tx (housekeeping_turn os hk)"
    unfolding housekeeping_turn_def by (intro keeps_rules os hk)
qed

lemma compute_percentiles_total: "\<exists>r. compute_percentiles c = Inr r"
proof (cases "lat_samples c = []")
  case False
  then have "0 < length (lat_samples c)" by simp
  then have "length (lat_samples c) * 95 div 100 < length (lat_samples c)"
    "length (lat_samples c) * 99 div 100 < length (lat_samples c)" by linarith+
  then show ?thesis using False by (simp add: compute_percentiles_def Let_def index_at_ok)
qed (simp add: compute_percentiles_def)

lemma keeps_read_counters [keeps_rules]:
  "libbpf_ok os rx tx \<Longrightarrow> keeps rx tx (read_counters os cs k)"
  by (induction cs arbitrary: k) (simp_all add: keeps_return keeps_bind keeps_calls)

lemma keeps_observers [keeps_rules]:
  assumes os: "libbpf_ok os rx tx" and host: "host_ok host rx tx"
  shows "keeps rx tx (get_metrics os host)" and "keeps rx tx (tui_turn os host)"
    and "keeps rx tx (serve_stats_request os host)"
proof -
  have upd: "steady (update_tui m)" for m
    by (simp add: steady_def update_tui_def Let_def calm_def sched_ok_def split: option.splits prod.splits)
  show m: "keeps rx tx (get_metrics os host)"
    unfolding get_metrics_def Let_def case_prod_beta
    by (intro keeps_rules keeps_modify keeps_lift_fault compute_percentiles_total os host)
  have "keeps rx tx (case st of Some d \<Rightarrow> tell (host_draw host d) | None \<Rightarrow> return ())" for st
    by (cases st) (simp_all add: keeps_return keeps_host [OF host])
  then have tick: "keeps rx tx (tick_tui os host)"
    unfolding tick_tui_def by (intro keeps_rules keeps_modify os)
  show "keeps rx tx (tui_turn os host)"
    unfolding tui_turn_def by (intro keeps_rules keeps_modify upd m tick os host)
  show "keeps rx tx (serve_stats_request os host)"
    unfolding serve_stats_request_def by (intro keeps_rules keeps_modify upd m os host)
qed

lemma keeps_run_iteration:
  "libbpf_ok os rx tx \<Longrightarrow> host_ok host rx tx \<Longrightarrow> keeps rx tx (run_iteration os host hk)"
  unfolding run_iteration_def by (intro keeps_rules)

lemma reachable_kept:
  assumes "libbpf_ok os rx tx" and "host_ok host rx tx" and "reachable os host (s, w, hk) st" and "sched_ok s"
  shows "kept rx tx (s, w) (fst st, fst (snd st))"
  using assms(3)
proof (induction rule: reachable.induct)
  case start
  then show ?case using assms(4) by (simp add: kept_same)
next
  case (step st st')
  from step.hyps(2) obtain s1 w1 hk1 hk2 s2 w2 where st: "st = (s1, w1, hk1)" "st' = (s2, w2, hk2)"
    and run: "run_iteration os host hk1 (s1, w1) = Inr (Some hk2, (s2, w2))" by (rule run_stepE) blast
  have k: "kept rx tx (s, w) (s1, w1)" using step.IH by (simp add: st)
  then have "sched_ok s1" by (simp add: kept_def)
  then have "kept rx tx (s1, w1) (s2, w2)"
    using keepsD [OF keeps_run_iteration [OF assms(1,2)], of s1 hk1 w1] run by (simp add: wp_def)
  with kept_trans [OF k] show ?case by (simp add: st)
qed

section \<open>What a snapshot reports\<close>

lemma wp_read_counters:
  "bss_present (sch_bpf s) \<Longrightarrow> wp (read_counters os cs k) (\<lambda>_ (s', w'). s' = s) (s, w)"
proof (induction cs arbitrary: k w)
  case (Cons c cs)
  then show ?case by (simp add: wp_bindS wp_on_bpf wp_read_counter)
qed (simp add: wp_return)

lemma get_metrics_run:
  assumes ok: "sched_ok s" and pcts: "compute_percentiles (sch_controller s) = Inr pcts"
    and b: "b = fault_count (init_page_faults s) (case fst (host_page_faults host w) of Inr n \<Rightarrow> n | Inl _ \<Rightarrow> 0)"
  shows "\<exists>k secs w'. get_metrics os host (s, w) =
    Inr (snapshot s k secs (snd b) pcts, (s\<lparr>init_page_faults := fst b\<rparr>, w'))"
proof -
  have same: "snapshot (s\<lparr>init_page_faults := x\<rparr>) k secs f p = snapshot s k secs f p" for x k secs f p
    by (simp add: snapshot_def avg_inference_us_def)
  have "wp (get_metrics os host) (\<lambda>m (s', w'). s' = s\<lparr>init_page_faults := fst b\<rparr> \<and>
      (\<exists>k secs. m = snapshot s k secs (snd b) pcts)) (s, w)"
    unfolding get_metrics_def case_prod_beta Let_def
    using ok pcts wp_read_counters [of "s\<lparr>init_page_faults := fst b\<rparr>"]
    by (simp add: wp_bindS wp_ask wp_gets_own wp_modify_own wp_lift_fault wp_elapsed wp_return sched_ok_def same
        flip: b) (rule wp_mono, assumption, auto simp: wp_return)
  then show ?thesis unfolding wp_iff by blast
qed

lemma percentiles_ordered:
  assumes "compute_percentiles c = Inr (p50, p95, p99)" shows "p50 \<le> p95 \<and> p95 \<le> p99"
proof (cases "lat_samples c = []")
  case True
  then show ?thesis using assms by (simp add: compute_percentiles_def)
next
  case False
  let ?n = "length (lat_samples c)"
  have "0 < ?n" using False by simp
  then have "?n * 99 div 100 < ?n" "?n div 2 \<le> ?n * 95 div 100" "?n * 95 div 100 \<le> ?n * 99 div 100" by linarith+
  then show ?thesis
    using assms False sorted_sort [of "lat_samples c"]
    by (simp add: compute_percentiles_def Let_def index_at_ok) (auto intro!: sorted_nth_mono)
qed

lemma no_watchlist_message:
  assumes "nr_quarantined m = 0" and "nr_flagged m = 0"
  shows "tldr m \<noteq> ''Observability watchlist has active PIDs; review repeated adverse exits.''"
  using assms by (simp add: tldr_def tldr_table_def)

section \<open>A terminal and a stats client\<close>

definition script_host :: "script host" where
  "script_host = \<lparr>host_page_faults = (\<lambda>w. (Inr 3, w)), host_stats_request = (\<lambda>w. (True, w)),
     host_stats_send = (\<lambda>m w. (True, w)), host_events = (\<lambda>w. ([Other_Event], w)), host_draw = (\<lambda>d w. w),
     host_sleep = (\<lambda>w. w)\<rparr>"

lemma script_host_ok: "host_ok script_host script_rx script_tx"
  by (simp add: host_ok_def script_host_def silent_def)

section \<open>Properties\<close>

lemma calm_clear:
  assumes "calm s"
  shows "\<not> is_quarantined (trust s) pid" "\<not> is_flagged (trust s) pid" "quarantined_count (trust s) = 0"
    "flagged_count (trust s) = 0" "snd (worst_actors (trust s)) = 0"
proof -
  have row: "- 5/32 \<le> scores (trust s) i" "\<not> flagged (trust s) i" for i
    using assms by (auto simp: calm_def trust_inv_def row_ok_def trust_row_def)
  have th: "TRUST_THRESHOLD \<le> - 5/32" unfolding TRUST_THRESHOLD_def lit_35_100 by simp
  have q: "\<not> scores (trust s) i < TRUST_THRESHOLD" for i using row(1) [of i] th by linarith
  show "\<not> is_quarantined (trust s) pid"
    using q th by (auto simp: is_quarantined_def trust_score_def split: option.splits)
  show "\<not> is_flagged (trust s) pid" using row(2) by (auto simp: is_flagged_def split: option.splits)
  show "quarantined_count (trust s) = 0" using q by (simp add: quarantined_count_def)
  show "flagged_count (trust s) = 0" using row(2) by (simp add: flagged_count_def)
  have "worst_actors_step (trust s) i acc = acc" for i acc
    using q [of i] by (simp add: worst_actors_step_def Let_def split: prod.splits)
  then have "fold (worst_actors_step (trust s)) xs acc = acc" for xs acc by (induction xs arbitrary: acc) simp_all
  then show "snd (worst_actors (trust s)) = 0" by (simp add: worst_actors_def)
qed

text \<open>
  C1. The main loop is safe for ever: in every state that any number of iterations reaches, with any kernel
  that keeps libbpf's contract, the queues, counters and tables are well-formed, the tasks received since
  the start are exactly those still queued and those submitted back, and the next iteration returns without
  a panic.
\<close>

theorem run_safe_forever:
  assumes "libbpf_ok os rx tx" and "host_ok host rx tx" and "sched_ok s"
    and "reachable os host (s, w, hk) (s', w', hk')"
  shows "sched_ok s' \<and>
    (\<exists>ins outs. rx w' = rx w @ ins \<and> tx w' = tx w @ outs \<and>
       queued_idents s + mset (map ident (received ins)) = queued_idents s' + mset (map dident (submitted outs))) \<and>
    (\<exists>r s'' w''. run_iteration os host hk' (s', w') = Inr (r, (s'', w'')) \<and> sched_ok s'')"
proof -
  have k: "sched_ok s'" "ledger rx tx (s, w) (s', w')"
    using reachable_kept [OF assms(1,2,4,3)] by (simp_all add: kept_def)
  from keepsD [OF keeps_run_iteration [OF assms(1,2)] k(1), of hk' w'] show ?thesis
    using k by (auto simp: wp_iff kept_def ledger_def)
qed

theorem run_safe_forever_witness:
  "\<exists>s r s' w'. scheduler_new opts_default bpf_started 0 = Inr s \<and>
     run_iteration script_os script_host 0 (s, ([queued_ctx sample_task], [], [])) = Inr (r, (s', w')) \<and> sched_ok s'"
proof -
  obtain s where s: "scheduler_new opts_default bpf_started 0 = Inr s" "sched_ok s" using started by metis
  with run_safe_forever [OF script_ok script_host_ok s(2) reachable.start, of "([queued_ctx sample_task], [], [])" 0]
  show ?thesis by blast
qed

text \<open>
  C32. The trust watchlist of a running scheduler is always empty: the entries that the scheduler feeds to
  the trust table are never marked as cheating, so in every reachable state no PID is flagged or
  quarantined, both counts are zero and the list of worst actors has no entry.
\<close>

theorem watchlist_always_empty:
  assumes "libbpf_ok os rx tx" and "host_ok host rx tx" and "sched_ok s"
    and "reachable os host (s, w, hk) (s', w', hk')"
  shows "\<not> is_quarantined (trust s') pid \<and> \<not> is_flagged (trust s') pid \<and> quarantined_count (trust s') = 0 \<and>
    flagged_count (trust s') = 0 \<and> snd (worst_actors (trust s')) = 0"
  using reachable_kept [OF assms(1,2,4,3)] calm_clear [of s'] sched_ok_calm by (simp add: kept_def)

theorem watchlist_always_empty_witness:
  "\<exists>s. scheduler_new opts_default bpf_started 0 = Inr s \<and> \<not> is_quarantined (trust s) 7 \<and>
     quarantined_count (trust s) = 0"
proof -
  obtain s where s: "scheduler_new opts_default bpf_started 0 = Inr s" "sched_ok s" using started by metis
  with watchlist_always_empty [OF script_ok script_host_ok s(2) reachable.start, where pid = 7] show ?thesis by blast
qed

text \<open>
  The stale scan is bounded and feeds the trust table soundly: it picks at most 256 PIDs, all positive;
  flushing them leaves lanes, slice controller and ring state alone, and flushing a PID that has an entry
  removes that entry and keeps those of the other PIDs.
\<close>

theorem flush_is_bounded:
  assumes "lifetimes_valid (sch_lifetimes s)" and "is_pos_i32 pid"
    and "lifetime_get (sch_lifetimes s) pid \<noteq> None" and "is_pos_i32 other"
  shows "length (stale_pids tab now) \<le> 256 \<and> (\<forall>p \<in> set (stale_pids tab now). is_pos_i32 p) \<and>
    lane_queue l (flush_one pid s) = lane_queue l s \<and> sch_controller (flush_one pid s) = sch_controller s \<and>
    sch_bpf (flush_one pid s) = sch_bpf s \<and>
    lifetime_get (sch_lifetimes (flush_one pid s)) other =
      (if other = pid then None else lifetime_get (sch_lifetimes s) other)"
proof -
  have "sch_lifetimes (flush_one pid s) = lifetime_evict (sch_lifetimes s) pid"
    using assms(3) by (auto simp: flush_one_def lifetime_get_def Let_def split: option.splits)
  moreover have "lifetime_get (lifetime_evict (sch_lifetimes s) pid) other =
      (if other = pid then None else lifetime_get (sch_lifetimes s) other)"
    using assms by (simp add: lifetime_get_evict live_pos)
  ultimately show ?thesis using stale_pids_bounds [of tab now] by (simp add: flush_one_frame STALE_CAP_def)
qed

theorem flush_is_bounded_witness:
  "\<exists>s. scheduler_new opts_default bpf_started 0 = Inr s \<and>
     lifetime_get (sch_lifetimes (flush_one 5 (s\<lparr>sch_lifetimes := lifetime_update (\<lambda>lt. lt) lifetimes_zeroed 5\<rparr>))) 5 = None"
proof -
  obtain s where s: "scheduler_new opts_default bpf_started 0 = Inr s" using started by metis
  let ?t = "lifetime_update (\<lambda>lt. lt) lifetimes_zeroed 5"
  let ?s = "s\<lparr>sch_lifetimes := ?t\<rparr>"
  have "lifetimes_valid ?t" using lifetimes_valid_update [OF lifetimes_valid_zeroed live_pos] by simp
  moreover have "lifetime_get ?t 5 \<noteq> None" using lifetime_get_update_same [OF lifetimes_valid_zeroed, of 5] by simp
  ultimately show ?thesis using flush_is_bounded [of ?s 5 5 lifetimes_zeroed 0 Rt_Lane] s by simp
qed

text \<open>
  A metrics snapshot of a reachable scheduler always succeeds, changes nothing but the page-fault
  baseline, reports the label counts and slice settings as they are, gives ordered latency percentiles, and
  reports an empty watchlist, so the health summary never shows the watchlist message.
\<close>

theorem metrics_snapshot_sound:
  assumes "libbpf_ok os rx tx" and "host_ok host rx tx" and "sched_ok s"
    and "reachable os host (s, w, hk) (s', w', hk')"
  shows "\<exists>m s'' w''. get_metrics os host (s', w') = Inr (m, (s'', w'')) \<and>
    s'' = s'\<lparr>init_page_faults := init_page_faults s''\<rparr> \<and>
    nr_interactive m = label_counts s' Interactive \<and> nr_realtime m = label_counts s' RealTime \<and>
    sched_p50_us m \<le> sched_p95_us m \<and> sched_p95_us m \<le> sched_p99_us m \<and>
    nr_quarantined m = 0 \<and> nr_flagged m = 0 \<and>
    tldr m \<noteq> ''Observability watchlist has active PIDs; review repeated adverse exits.''"
proof -
  have ok: "sched_ok s'" using reachable_kept [OF assms(1,2,4,3)] by (simp add: kept_def)
  obtain p50 p95 p99 where pcts: "compute_percentiles (sch_controller s') = Inr (p50, p95, p99)"
    using compute_percentiles_total by (metis prod.exhaust)
  have ord: "p50 \<le> p95" "p95 \<le> p99" using percentiles_ordered [OF pcts] by simp_all
  from get_metrics_run [OF ok pcts refl, of os host w'] obtain k secs w'' b f where
    run: "get_metrics os host (s', w') = Inr (snapshot s' k secs f (p50, p95, p99), (s'\<lparr>init_page_faults := b\<rparr>, w''))"
    by blast
  let ?m = "snapshot s' k secs f (p50, p95, p99)"
  have clear: "nr_quarantined ?m = 0" "nr_flagged ?m = 0"
    using calm_clear(3,4) [OF sched_ok_calm [OF ok]] by (simp_all add: snapshot_def)
  have "p50 div NSEC_PER_USEC \<le> p95 div NSEC_PER_USEC" "p95 div NSEC_PER_USEC \<le> p99 div NSEC_PER_USEC"
    using ord by (simp_all add: word_le_nat_alt unat_div div_le_mono)
  then have "sched_p50_us ?m \<le> sched_p95_us ?m" "sched_p95_us ?m \<le> sched_p99_us ?m"
    by (simp_all add: snapshot_def)
  moreover have "nr_interactive ?m = label_counts s' Interactive" "nr_realtime ?m = label_counts s' RealTime"
    by (simp_all add: snapshot_def)
  ultimately show ?thesis using run clear no_watchlist_message [OF clear] by auto
qed

theorem metrics_snapshot_sound_witness:
  "\<exists>s m s' w'. scheduler_new opts_default bpf_started 0 = Inr s \<and>
     get_metrics script_os script_host (s, ([], [], [])) = Inr (m, (s', w')) \<and> nr_flagged m = 0"
proof -
  obtain s where s: "scheduler_new opts_default bpf_started 0 = Inr s" "sched_ok s" using started by metis
  with metrics_snapshot_sound [OF script_ok script_host_ok s(2) reachable.start, where w = "([], [], [])"]
  show ?thesis by blast
qed

text \<open>
  The page-fault count has no baseline until a snapshot sees a fault: a scheduler whose first snapshots
  saw none takes the next count it sees as its baseline, and reports 0 however many major faults it had.
\<close>

theorem first_page_faults_hidden:
  assumes "sched_ok s" and "init_page_faults s = 0" and "fst (host_page_faults host w) = Inr n"
  shows "\<exists>m s' w'. get_metrics os host (s, w) = Inr (m, (s', w')) \<and> nr_page_faults m = 0 \<and> init_page_faults s' = n"
proof -
  obtain pcts where pcts: "compute_percentiles (sch_controller s) = Inr pcts" using compute_percentiles_total by blast
  have "fault_count (init_page_faults s) (case fst (host_page_faults host w) of Inr n \<Rightarrow> n | Inl _ \<Rightarrow> 0) = (n, 0)"
    using assms(2,3) by (simp add: fault_count_def sat_sub_def)
  from get_metrics_run [OF assms(1) pcts this [symmetric], of os] obtain k secs w' where
    "get_metrics os host (s, w) = Inr (snapshot s k secs 0 pcts, (s\<lparr>init_page_faults := n\<rparr>, w'))" by auto
  then show ?thesis by (cases pcts) (simp add: snapshot_def)
qed

theorem first_page_faults_hidden_witness:
  "\<exists>s m s' w'. scheduler_new opts_default bpf_started 0 = Inr s \<and>
     get_metrics script_os script_host (s, ([], [], [])) = Inr (m, (s', w')) \<and> nr_page_faults m = 0 \<and>
     init_page_faults s' = 3"
proof -
  from scheduler_new_ok [of opts_default bpf_started 0] obtain s where
    s: "scheduler_new opts_default bpf_started 0 = Inr s" "init_page_faults s = 0" by auto
  moreover obtain s0 where "scheduler_new opts_default bpf_started 0 = Inr s0" "sched_ok s0" using started by metis
  ultimately have "sched_ok s" by simp
  with first_page_faults_hidden [of s script_host "([], [], [])" 3 script_os] s show ?thesis
    by (simp add: script_host_def)
qed

end
