(* ===== verification/Main_Run.thy ===== *)
theory Main_Run
  imports Housekeeping
begin

text \<open>
  \<open>run\<close> of \<open>src/main.rs\<close> as a whole: the loop over the iterations of \<open>Housekeeping\<close> and the shutdown after
  it. The loop runs until the kernel, a signal or the user stops it; it is shown to return as soon as one of
  them does, detached, with nothing lost and no panic.
\<close>

partial_function (option) run_loop ::
    "'w os \<Rightarrow> 'w host \<Rightarrow> nat \<Rightarrow> scheduler \<times> 'w \<Rightarrow> (fault + (unit \<times> (scheduler \<times> 'w))) option" where
  "run_loop os host hk st =
     (case run_iteration os host hk st of
        Inl e \<Rightarrow> Some (Inl e)
      | Inr (r, st') \<Rightarrow>
          (case r of None \<Rightarrow> Some (Inr ((), st')) | Some hk' \<Rightarrow> run_loop os host hk' st'))"

definition run :: "'w os \<Rightarrow> 'w host \<Rightarrow> scheduler \<times> 'w \<Rightarrow> (fault + (unit \<times> (scheduler \<times> 'w))) option" where
  "run os host st = (case ask (os_instant os) st of
     Inl e \<Rightarrow> Some (Inl e)
   | Inr (hk, st) \<Rightarrow>
       (case run_loop os host hk st of
          None \<Rightarrow> None
        | Some (Inl e) \<Rightarrow> Some (Inl e)
        | Some (Inr (_, st)) \<Rightarrow> Some (on_bpf shutdown_and_report st)))"

lemma run_loop_stops: "run_iteration os host hk st = Inr (None, st') \<Longrightarrow> run_loop os host hk st = Some (Inr ((), st'))"
  by (subst run_loop.simps) simp

lemma run_loop_goes_on:
  "run_iteration os host hk st = Inr (Some hk', st') \<Longrightarrow> run_loop os host hk st = run_loop os host hk' st'"
  by (subst run_loop.simps) simp

lemma run_loop_reachable:
  assumes "reachable os host (s, w, hk) st"
  shows "run_loop os host hk (s, w) = run_loop os host (snd (snd st)) (fst st, fst (snd st))"
  using assms
proof induction
  case (step st st')
  from step.hyps(2) obtain s1 w1 hk1 hk2 s2 w2 where "st = (s1, w1, hk1)" "st' = (s2, w2, hk2)"
    and "run_iteration os host hk1 (s1, w1) = Inr (Some hk2, (s2, w2))" by (rule run_stepE) blast
  then show ?case using step.IH run_loop_goes_on [of os host hk1 "(s1, w1)"] by simp
qed simp

lemma stopped_iteration:
  assumes "fst (os_shutdown os w)"
  shows "run_iteration os host hk (s, w) = Inr (None, (s, snd (os_shutdown os w)))"
proof -
  have "wp (run_iteration os host hk) (\<lambda>r st. r = None \<and> st = (s, snd (os_shutdown os w))) (s, w)"
    using assms by (simp add: run_iteration_def bpf_exited_def wp_simps)
  then show ?thesis by (auto simp: wp_iff)
qed

lemma wp_shutdown:
  "on_bpf shutdown_and_report (s, w) = Inr ((), (s\<lparr>sch_bpf := sch_bpf s\<lparr>struct_ops_attached := False\<rparr>\<rparr>, w))"
proof -
  have "wp (on_bpf shutdown_and_report) (\<lambda>_ st. st = (s\<lparr>sch_bpf := sch_bpf s\<lparr>struct_ops_attached := False\<rparr>\<rparr>, w)) (s, w)"
    by (simp add: shutdown_and_report_def wp_simps)
  then show ?thesis by (auto simp: wp_iff)
qed

lemma run_ends:
  assumes "libbpf_ok os rx tx" and "host_ok host rx tx" and "sched_ok s"
    and "reachable os host (s, snd (os_instant os w), fst (os_instant os w)) (s', w', hk')"
    and "run_iteration os host hk' (s', w') = Inr (None, st)"
  shows "\<exists>s'' w''. run os host (s, w) = Some (Inr ((), (s'', w''))) \<and> \<not> struct_ops_attached (sch_bpf s'') \<and>
    (\<exists>ins outs. rx w'' = rx w @ ins \<and> tx w'' = tx w @ outs \<and>
       queued_idents s + mset (map ident (received ins)) = queued_idents s'' + mset (map dident (submitted outs)))"
proof -
  define w0 where "w0 = snd (os_instant os w)"
  obtain s1 w'' where st: "st = (s1, w'')" by (metis prod.exhaust)
  let ?hk = "fst (os_instant os w)" and ?s'' = "s1\<lparr>sch_bpf := sch_bpf s1\<lparr>struct_ops_attached := False\<rparr>\<rparr>"
  note sil = libbpf_silent [OF assms(1)]
  have "ask (os_instant os) (s, w) = Inr (?hk, (s, w0))" by (simp add: ask_def w0_def split_beta)
  moreover have "run_loop os host ?hk (s, w0) = Some (Inr ((), (s1, w'')))"
    using run_loop_reachable [OF assms(4)] run_loop_stops [OF assms(5)] by (simp add: w0_def st)
  ultimately have run: "run os host (s, w) = Some (Inr ((), (?s'', w'')))" by (simp add: run_def wp_shutdown)
  have k: "kept rx tx (s, w0) (s', w')"
    using reachable_kept [OF assms(1,2) assms(4,3)] by (simp add: w0_def)
  then have "kept rx tx (s', w') (s1, w'')"
    using keepsD [OF keeps_run_iteration [OF assms(1,2)], of s' hk' w'] assms(5) by (simp add: wp_def kept_def st)
  then have "ledger rx tx (s, w0) (s1, w'')" using kept_trans [OF k] by (simp add: kept_def)
  moreover have "queued_idents ?s'' = queued_idents s1" by (rule queued_idents_bpf)
  moreover have "rx w0 = rx w" "tx w0 = tx w" using sil by (simp_all add: w0_def)
  ultimately show ?thesis using run by (auto simp: ledger_def)
qed

text \<open>
  C13. The scheduler stops when it is told to: if the loop comes to a state in which the shutdown flag is set,
  \<open>run\<close> returns without a panic, the BPF scheduler is detached, and every task received is still queued or was
  submitted back.
\<close>

theorem run_stops_when_told:
  assumes "libbpf_ok os rx tx" and "host_ok host rx tx" and "sched_ok s"
    and "reachable os host (s, snd (os_instant os w), fst (os_instant os w)) (s', w', hk')"
    and "fst (os_shutdown os w')"
  shows "\<exists>s'' w''. run os host (s, w) = Some (Inr ((), (s'', w''))) \<and> \<not> struct_ops_attached (sch_bpf s'') \<and>
    (\<exists>ins outs. rx w'' = rx w @ ins \<and> tx w'' = tx w @ outs \<and>
       queued_idents s + mset (map ident (received ins)) = queued_idents s'' + mset (map dident (submitted outs)))"
  by (rule run_ends [OF assms(1-4) stopped_iteration [OF assms(5)]])

text \<open>A kernel with nothing to schedule and a signal that arrived.\<close>

definition stopping_os :: "script os" where
  "stopping_os = script_os\<lparr>os_shutdown := \<lambda>(p, r, t). (p = [], (p, r, t))\<rparr>"

lemma stopping_ok: "libbpf_ok stopping_os script_rx script_tx"
  using script_ok by (simp add: libbpf_ok_def stopping_os_def silent_def)

theorem run_stops_when_told_witness:
  "\<exists>s s'' w''. scheduler_new opts_default bpf_started 0 = Inr s \<and>
    run stopping_os script_host (s, ([], [], [])) = Some (Inr ((), (s'', w''))) \<and> \<not> struct_ops_attached (sch_bpf s'')"
proof -
  obtain s where s: "scheduler_new opts_default bpf_started 0 = Inr s" "sched_ok s" using started by metis
  have "fst (os_shutdown stopping_os ([], [], []))" by (simp add: stopping_os_def)
  moreover have "snd (os_instant stopping_os ([], [], [])) = ([], [], [])" by (simp add: stopping_os_def script_os_def)
  ultimately show ?thesis
    using run_stops_when_told [OF stopping_ok script_host_ok s(2), of "([], [], [])" s "([], [], [])"
        "fst (os_instant stopping_os ([], [], []))"] reachable.start s(1) by metis
qed

end
