(* ===== verification/Dashboard_Drawing.thy ===== *)
theory Dashboard_Drawing
  imports Dashboard
begin

text \<open>
  One frame of the dashboard (\<open>src/tui/dashboard.rs\<close>, \<open>draw\<close> and the functions it calls): the widgets given to
  ratatui, with their texts, styles and rectangles. The layout solver of ratatui is the parameter \<open>split\<close>;
  what ratatui makes of a widget is not modelled. Strings are lists of UTF-8 bytes, as in Rust. The lemmas
  show that a frame always has its seven widgets, and that what is written is well-formed.
\<close>

section \<open>Text\<close>

text \<open>\<open>{:.k}\<close> of a float: the decimal nearest to its exact value, ties to even.\<close>

definition fixed :: "nat \<Rightarrow> rat \<Rightarrow> string" where
  "fixed k x =
     (let n = nat (rne (\<bar>x\<bar> * 10 ^ k))
      in (if x < 0 then ''-'' else '''') @ dec (n div 10 ^ k) @
         (if k = 0 then '''' else CHR ''.'' # pad_left CHR ''0'' k (dec (n mod 10 ^ k))))"

definition signed_dec :: "int \<Rightarrow> string" where
  "signed_dec i = (if i < 0 then ''-'' else '''') @ dec (nat \<bar>i\<bar>)"

text \<open>Characters of a UTF-8 string: the bytes that do not continue one. \<open>{:<n}\<close> pads to \<open>n\<close> characters.\<close>

definition chars :: "string \<Rightarrow> nat" where
  "chars s = length (filter (\<lambda>c. \<not> (of_char c div 64 = (2 :: nat))) s)"

definition pad_chars :: "nat \<Rightarrow> string \<Rightarrow> string" where
  "pad_chars n s = s @ replicate (n - chars s) CHR '' ''"

definition of_bytes :: "u8 list \<Rightarrow> string" where
  "of_bytes bs = map (\<lambda>b. char_of (unat b)) bs"

text \<open>The characters beyond ASCII, as their bytes.\<close>

definition u_micro :: string where "u_micro = [CHR 0xC2, CHR 0xB5]"
definition u_approx :: string where "u_approx = [CHR 0xE2, CHR 0x89, CHR 0x88]"
definition u_bar :: string where "u_bar = [CHR 0xE2, CHR 0x94, CHR 0x82]"
definition u_dash :: string where "u_dash = [CHR 0xE2, CHR 0x80, CHR 0x94]"
definition u_full :: string where "u_full = [CHR 0xE2, CHR 0x96, CHR 0x88]"
definition u_light :: string where "u_light = [CHR 0xE2, CHR 0x96, CHR 0x91]"

section \<open>Widgets\<close>

datatype modifier = Bold | Underlined

record style =
  fg :: "colour option"
  bg :: "colour option"
  modifiers :: "modifier list"

definition style_default :: style where "style_default = \<lparr>fg = None, bg = None, modifiers = []\<rparr>"
definition fg_style :: "colour \<Rightarrow> style" where "fg_style c = style_default\<lparr>fg := Some c\<rparr>"
definition bold :: "colour \<Rightarrow> style" where "bold c = (fg_style c)\<lparr>modifiers := [Bold]\<rparr>"

type_synonym span = "string \<times> style"

definition raw :: "string \<Rightarrow> span" where "raw s = (s, style_default)"

record block =
  all_borders :: bool
  title :: "span option"
  block_style :: style

definition plain_block :: block where
  "plain_block = \<lparr>all_borders = False, title = None, block_style = style_default\<rparr>"

definition titled :: "string \<Rightarrow> colour \<Rightarrow> block" where
  "titled s c = plain_block\<lparr>all_borders := True, title := Some (s, bold c)\<rparr>"

record chart =
  ch_name :: string
  ch_style :: style
  ch_points :: "(rat \<times> rat) list"
  ch_x_bounds :: "rat \<times> rat"
  ch_y_bounds :: "rat \<times> rat"
  ch_y_labels :: "span list"
  ch_axis_style :: style

datatype widget =
    Paragraph "span list list" block bool
  | List_Of "span list list" block
  | Chart chart block

record rect =
  rect_x :: u16
  rect_y :: u16
  width :: u16
  height :: u16

datatype direction = Vertical | Horizontal
datatype constraint = Length u16 | Min u16 | Percentage u16

type_synonym layout = "direction \<Rightarrow> constraint list \<Rightarrow> rect \<Rightarrow> rect list"

section \<open>The panels\<close>

definition header_text :: "metrics \<Rightarrow> string" where
  "header_text m = ''CPUs: '' @ shown (nr_cpus m) @ ''  Running: '' @ shown (nr_running m) @ ''  Queued: '' @ shown (nr_queued m) @
     ''  Base: '' @ shown (base_slice_us m) @ u_micro @ ''s  Assigned'' @ u_approx @ shown (assigned_slice_us m) @ u_micro @
     ''s  sched:'' @ shown (sched_p50_us m) @ '':'' @ shown (sched_p95_us m) @ '':'' @ shown (sched_p99_us m)"

definition draw_header :: "metrics \<Rightarrow> widget" where
  "draw_header m = Paragraph
     [[('' scx_cognis '', bold Cyan), raw (u_bar @ '' BPF-first CPU Scheduler '' @ u_bar @ '' ''),
       (header_text m, fg_style Green), raw ''  [ press 'q' to quit ]'']]
     (plain_block\<lparr>all_borders := True, block_style := style_default\<lparr>bg := Some Black\<rparr>\<rparr>) False"

definition slash_list :: "u64 list \<Rightarrow> string" where
  "slash_list xs = concat (map (\<lambda>x. '' / '' @ shown x) xs)"

definition overview_lines :: "metrics \<Rightarrow> string list" where
  "overview_lines m =
     [''  Dispatched (user/kernel/fail):  '' @ shown (nr_user_dispatches m) @ slash_list [nr_kernel_dispatches m, nr_failed_dispatches m],
      ''  BPF Route (local/llc/node/shared): '' @ shown (nr_local_dispatches m) @
        slash_list [nr_llc_dispatches m, nr_node_dispatches m, nr_shared_dispatches m],
      ''  Remote Steals (llc/node):       '' @ shown (nr_xllc_steals m) @ slash_list [nr_xnode_steals m],
      ''  Bounce / Cancelled:             '' @ shown (nr_bounce_dispatches m) @ slash_list [nr_cancel_dispatches m],
      ''  Congestion / Page Faults:       '' @ shown (nr_sched_congested m) @ slash_list [nr_page_faults m],
      ''  CPU Load:                       '' @ shown (load_pct m) @ ''%'']"

definition draw_overview :: "metrics \<Rightarrow> widget" where
  "draw_overview m = Paragraph (map (\<lambda>s. [raw s]) (overview_lines m)) (titled '' Overview '' Yellow) False"

definition gauge_bar :: "nat \<Rightarrow> nat \<Rightarrow> string" where
  "gauge_bar filled blank = concat (replicate filled u_full) @ concat (replicate blank u_light)"

definition gauge_spans :: "string \<times> colour \<Rightarrow> nat \<times> nat \<times> u64 \<times> u64 \<Rightarrow> span list" where
  "gauge_spans = (\<lambda>(label, c) (filled, blank, n, pct).
     [raw (''  '' @ label @ '': ''), (gauge_bar filled blank, fg_style c),
      raw ('' '' @ pad_left CHR '' '' 4 (shown n) @ '' ('' @ pad_left CHR '' '' 3 (shown pct) @ ''%)'')])"

definition gauge_labels :: "(string \<times> colour) list" where
  "gauge_labels = [(''Interactive'', Green), (''Compute    '', Red), (''I/O Wait   '', Blue), (''RealTime   '', Magenta)]"

definition draw_classification :: "metrics \<Rightarrow> fault + widget" where
  "draw_classification m =
     bindR (classification_gauges m) (\<lambda>gauges.
     Inr (Paragraph (map2 gauge_spans gauge_labels gauges @
       [[raw (''  Watchlist: below-threshold='' @ shown (nr_quarantined m) @ '' adverse-exit='' @ shown (nr_flagged m))]])
       (titled '' Fallback Event Mix '' Yellow) False))"

definition draw_slice_control :: "dashboard_state \<Rightarrow> widget" where
  "draw_slice_control d = (let m = ds_metrics d in Paragraph
     [[raw (''  Base Slice:        '' @ shown (base_slice_us m) @ u_micro @ ''s'')],
      [raw (''  Assigned Slice'' @ u_approx @ ''   '' @ shown (assigned_slice_us m) @ u_micro @ ''s'')],
      [raw (''  Slice Bounds:     '' @ shown (slice_min_us m) @ u_micro @ ''s min/'' @ shown (slice_max_us m) @ u_micro @ ''s max'')],
      [raw (''  Inference:        '' @ fixed 2 (ds_inference_us d) @ u_micro @ ''s'')],
      [raw ''  Latency Budget:   '', (latency_budget d, fg_style (if ds_inference_us d < 10 then Green else Red))]]
     (titled '' Slice Control '' Yellow) False)"

definition draw_latency_chart :: "dashboard_state \<Rightarrow> widget" where
  "draw_latency_chart d = (case chart_bounds d of (max_x, max_y) \<Rightarrow>
     Chart \<lparr>ch_name = ''Inference '' @ u_micro @ ''s'', ch_style = fg_style Cyan, ch_points = chart_points d,
       ch_x_bounds = (0, max_x), ch_y_bounds = (0, max_y),
       ch_y_labels = [raw ''0'', (''10'' @ u_micro @ ''s'', fg_style Green), raw (fixed 0 (max_or 10 (inference_hist d)))],
       ch_axis_style = fg_style DarkGray\<rparr>
       (titled ('' Fallback Latency ('' @ u_micro @ ''s) '') Yellow))"

text \<open>The header of the list is bold and underlined; a row is its PID, name, score and note.\<close>

definition watch_header :: "span list" where
  "watch_header = [('' PID     COMM                TRUST   NOTE'', (fg_style White)\<lparr>modifiers := [Bold, Underlined]\<rparr>)]"

definition watch_line :: "i32 \<times> u8 list \<times> rat \<times> bool \<times> colour \<Rightarrow> span list" where
  "watch_line = (\<lambda>(pid, name, trust, flag, c).
     [('' '' @ pad_chars 7 (signed_dec (sint pid)) @ '' '' @ pad_chars 20 (of_bytes name) @ '' '' @ fixed 2 trust @ '' '' @
       (if flag then '' adverse'' else ''''), fg_style c)])"

definition draw_watchlist :: "rect \<Rightarrow> dashboard_state \<Rightarrow> fault + widget" where
  "draw_watchlist area d = bindR (watchlist_panel (height area) d) (\<lambda>rows.
     Inr (List_Of (watch_header # map watch_line rows) (titled '' PID Watchlist '' Red)))"

definition footer :: "string \<Rightarrow> string \<Rightarrow> widget" where
  "footer version core = Paragraph [[raw (''Cognis v'' @ version @ '' '' @ u_dash @ '' core '' @ core)]] plain_block True"

section \<open>The frame\<close>

text \<open>The calls of \<open>render_widget\<close>, in order; \<open>version\<close> is the package version and \<open>core\<close> that of scx_rustland_core.\<close>

definition draw :: "layout \<Rightarrow> string \<Rightarrow> string \<Rightarrow> rect \<Rightarrow> dashboard_state \<Rightarrow> fault + (rect \<times> widget) list" where
  "draw split version core area d =
     (let root = split Vertical [Length 3, Min 0, Length 1] area; m = ds_metrics d in
      bindR (index_at root 0) (\<lambda>top.
      bindR (index_at root 1) (\<lambda>middle.
      let body = split Horizontal [Percentage 55, Percentage 45] middle in
      bindR (index_at body 0) (\<lambda>left_area.
      let left = split Vertical [Length 7, Length 8, Min 0] left_area in
      bindR (index_at left 0) (\<lambda>l0.
      bindR (index_at left 1) (\<lambda>l1.
      bindR (draw_classification m) (\<lambda>mix.
      bindR (index_at left 2) (\<lambda>l2.
      bindR (index_at body 1) (\<lambda>right_area.
      let right = split Vertical [Percentage 50, Percentage 50] right_area in
      bindR (index_at right 0) (\<lambda>r0.
      bindR (index_at right 1) (\<lambda>r1.
      bindR (draw_watchlist r1 d) (\<lambda>watch.
      bindR (index_at root 2) (\<lambda>bottom.
      Inr [(top, draw_header m), (l0, draw_overview m), (l1, mix), (l2, draw_slice_control d),
        (r0, draw_latency_chart d), (r1, watch), (bottom, footer version core)])))))))))))))"

section \<open>What is written is well-formed\<close>

definition str_ok :: "string \<Rightarrow> bool" where "str_ok s \<longleftrightarrow> utf8_ok (map of_char s)"

named_theorems text_rules "well-formed strings"

text \<open>A well-formed string starts with one character, after which any well-formed string may stand.\<close>

lemma utf8_ok_uncons:
  assumes "utf8_ok (a # s)"
  shows "\<exists>p t. a # s = p @ t \<and> p \<noteq> [] \<and> utf8_ok t \<and> (\<forall>u. utf8_ok u \<longrightarrow> utf8_ok (p @ u))"
proof -
  consider "a < 0x80" | b t where "s = b # t" "\<not> a < 0x80" "0xC2 \<le> a \<and> a \<le> 0xDF"
    | b c t where "s = b # c # t" "\<not> a < 0x80" "\<not> (0xC2 \<le> a \<and> a \<le> 0xDF)" "0xE0 \<le> a \<and> a \<le> 0xEF"
    | b c d t where "s = b # c # d # t" "\<not> a < 0x80" "\<not> (0xC2 \<le> a \<and> a \<le> 0xDF)" "\<not> (0xE0 \<le> a \<and> a \<le> 0xEF)"
    using assms by (auto simp del: not_less not_le split: list.splits if_splits)
  then show ?thesis
  proof cases
    case 1
    then show ?thesis using assms by - (rule exI [of _ "[a]"], rule exI [of _ s], simp)
  next
    case (2 b t)
    then show ?thesis using assms by - (rule exI [of _ "[a, b]"], rule exI [of _ t], simp)
  next
    case (3 b c t)
    have "utf8_ok (a # b # c # u) \<longleftrightarrow> cont b \<and> (a = 0xE0 \<longrightarrow> 0xA0 \<le> b) \<and> (a = 0xED \<longrightarrow> b \<le> 0x9F) \<and> cont c \<and> utf8_ok u" for u
      using 3 by (subst utf8_ok.simps) (simp only: if_False if_True list.case simp_thms)
    then show ?thesis using assms 3(1) by - (rule exI [of _ "[a, b, c]"], rule exI [of _ t], auto)
  next
    case (4 b c d t)
    have "utf8_ok (a # b # c # d # u) \<longleftrightarrow> 0xF0 \<le> a \<and> a \<le> 0xF4 \<and> cont b \<and> (a = 0xF0 \<longrightarrow> 0x90 \<le> b) \<and>
        (a = 0xF4 \<longrightarrow> b \<le> 0x8F) \<and> cont c \<and> cont d \<and> utf8_ok u" for u
      using 4 by (subst utf8_ok.simps) (simp only: if_False if_True list.case simp_thms)
    then show ?thesis using assms 4(1) by - (rule exI [of _ "[a, b, c, d]"], rule exI [of _ t], auto)
  qed
qed

lemma utf8_ok_append: "utf8_ok a \<Longrightarrow> utf8_ok b \<Longrightarrow> utf8_ok (a @ b)"
proof (induction a rule: length_induct)
  case (1 a)
  show ?case
  proof (cases a)
    case (Cons x s)
    then obtain p t where p: "a = p @ t" "p \<noteq> []" "utf8_ok t" "\<forall>u. utf8_ok u \<longrightarrow> utf8_ok (p @ u)"
      using utf8_ok_uncons 1(2) by blast
    then have "utf8_ok (t @ b)" using 1(1,3) by simp
    then show ?thesis using p(1,4) by simp
  qed (use 1(3) in simp)
qed

lemma str_ok_append [text_rules]: "str_ok a \<Longrightarrow> str_ok b \<Longrightarrow> str_ok (a @ b)"
  by (simp add: str_ok_def utf8_ok_append)

lemma str_ok_Nil [text_rules]: "str_ok []" by (simp add: str_ok_def)

lemma str_ok_Cons [text_rules]: "of_char c < (128 :: u8) \<Longrightarrow> str_ok s \<Longrightarrow> str_ok (c # s)"
  by (simp add: str_ok_def)

lemma str_ok_ascii: "\<forall>c \<in> set s. of_char c < (128 :: u8) \<Longrightarrow> str_ok s"
  by (induction s) (auto intro: text_rules)

lemma str_ok_replicate [text_rules]: "of_char c < (128 :: u8) \<Longrightarrow> str_ok (replicate n c)"
  by (rule str_ok_ascii) auto

lemma str_ok_concat [text_rules]: "str_ok s \<Longrightarrow> str_ok (concat (replicate n s))"
  by (induction n) (simp_all add: text_rules)

lemma ascii_digit: "n < 10 \<Longrightarrow> of_char (char_of (48 + n :: nat)) < (128 :: u8)"
  using of_nat_of_char [of "char_of (48 + n)", where 'a = "8 word"]
  by (simp add: word_less_nat_alt unsigned_of_nat take_bit_nat_eq_self unat_word_ariths flip: of_nat_of_char [of "char_of (48 + n)"])

lemma str_ok_dec [text_rules]: "str_ok (dec n)"
  by (induction n rule: dec.induct) (subst dec.simps, auto intro!: text_rules ascii_digit)

lemma str_ok_shown [text_rules]: "str_ok (shown x)" unfolding shown_def by (rule str_ok_dec)

lemma str_ok_pad [text_rules]:
  "of_char c < (128 :: u8) \<Longrightarrow> str_ok s \<Longrightarrow> str_ok (pad_left c n s)" "str_ok s \<Longrightarrow> str_ok (pad_chars n s)"
  unfolding pad_left_def pad_chars_def by (intro text_rules; simp)+

lemma str_ok_unicode [text_rules]:
  "str_ok u_micro" "str_ok u_approx" "str_ok u_bar" "str_ok u_dash" "str_ok u_full" "str_ok u_light"
  by (simp_all add: str_ok_def u_micro_def u_approx_def u_bar_def u_dash_def u_full_def u_light_def cont_def)

text \<open>Names of tasks, as decoded, and numbers.\<close>

lemma str_ok_bytes: "utf8_ok bs \<Longrightarrow> str_ok (of_bytes bs)"
proof -
  have "(of_char (char_of (unat b)) :: u8) = b" for b :: u8
  proof -
    have "unat b < 256" by (rule order_less_le_trans [OF unsigned_less]) simp
    then show ?thesis using of_nat_of_char [of "char_of (unat b)", where 'a = "8 word"] by simp
  qed
  then show "utf8_ok bs \<Longrightarrow> str_ok (of_bytes bs)" by (simp add: str_ok_def of_bytes_def comp_def)
qed

lemma str_ok_numbers [text_rules]: "str_ok (fixed k x)" "str_ok (signed_dec i)"
  unfolding fixed_def signed_dec_def Let_def by (auto intro!: text_rules)

lemma str_ok_slash [text_rules]: "str_ok (slash_list xs)"
  by (induction xs) (auto simp: slash_list_def intro!: text_rules)

lemma str_ok_gauge [text_rules]: "str_ok (gauge_bar a b)"
  unfolding gauge_bar_def by (intro text_rules)

text \<open>The decimal written is within half a unit of the last place.\<close>

lemma fixed_nearest:
  "\<exists>n. fixed k x = (if x < 0 then ''-'' else '''') @ dec (n div 10 ^ k) @
      (if k = 0 then '''' else CHR ''.'' # pad_left CHR ''0'' k (dec (n mod 10 ^ k))) \<and>
    \<bar>of_nat n / 10 ^ k - \<bar>x\<bar>\<bar> \<le> 1 / (2 * 10 ^ k)"
proof (intro exI conjI)
  let ?n = "nat (rne (\<bar>x\<bar> * 10 ^ k))" and ?p = "10 ^ k :: rat"
  show "fixed k x = (if x < 0 then ''-'' else '''') @ dec (?n div 10 ^ k) @
      (if k = 0 then '''' else CHR ''.'' # pad_left CHR ''0'' k (dec (?n mod 10 ^ k)))"
    by (simp add: fixed_def Let_def)
  have "0 \<le> rne (\<bar>x\<bar> * ?p)" by (rule rne_ge_of_int) simp
  then have "(of_nat ?n :: rat) = of_int (rne (\<bar>x\<bar> * ?p))" by (metis int_nat_eq of_int_of_nat_eq)
  then have "\<bar>of_nat ?n - \<bar>x\<bar> * ?p\<bar> \<le> 1 / 2" using rne_error [of "\<bar>x\<bar> * ?p"] by simp
  then have "\<bar>of_nat ?n - \<bar>x\<bar> * ?p\<bar> / ?p \<le> (1 / 2) / ?p" by (rule divide_right_mono) simp
  moreover have "\<bar>of_nat ?n - \<bar>x\<bar> * ?p\<bar> / ?p = \<bar>(of_nat ?n - \<bar>x\<bar> * ?p) / ?p\<bar>" by simp
  moreover have "(of_nat ?n - \<bar>x\<bar> * ?p) / ?p = of_nat ?n / ?p - \<bar>x\<bar>" by (simp add: diff_divide_distrib)
  ultimately show "\<bar>of_nat ?n / ?p - \<bar>x\<bar>\<bar> \<le> 1 / (2 * ?p)" by simp
qed

text \<open>The strings of a widget.\<close>

definition line_texts :: "span list list \<Rightarrow> string list" where "line_texts ls = map fst (concat ls)"
definition block_texts :: "block \<Rightarrow> string list" where "block_texts b = (case title b of None \<Rightarrow> [] | Some s \<Rightarrow> [fst s])"

fun texts :: "widget \<Rightarrow> string list" where
  "texts (Paragraph ls b centred) = block_texts b @ line_texts ls"
| "texts (List_Of ls b) = block_texts b @ line_texts ls"
| "texts (Chart c b) = block_texts b @ ch_name c # map fst (ch_y_labels c)"

lemmas text_defs = block_texts_def line_texts_def raw_def titled_def plain_block_def

lemma texts_header: "\<forall>s \<in> set (texts (draw_header m)). str_ok s"
  by (auto simp: draw_header_def header_text_def text_defs intro!: text_rules)

lemma texts_overview: "\<forall>s \<in> set (texts (draw_overview m)). str_ok s"
  by (auto simp: draw_overview_def overview_lines_def text_defs intro!: text_rules)

lemma texts_slice: "\<forall>s \<in> set (texts (draw_slice_control d)). str_ok s"
  by (auto simp: draw_slice_control_def latency_budget_def Let_def text_defs intro!: text_rules)

lemma texts_chart: "\<forall>s \<in> set (texts (draw_latency_chart d)). str_ok s"
  by (auto simp: draw_latency_chart_def text_defs intro!: text_rules split: prod.splits)

lemma texts_footer: "str_ok version \<Longrightarrow> str_ok core \<Longrightarrow> \<forall>s \<in> set (texts (footer version core)). str_ok s"
  by (auto simp: footer_def text_defs intro!: text_rules)

lemma texts_watchlist:
  assumes "draw_watchlist r d = Inr w" shows "\<forall>s \<in> set (texts w). str_ok s"
proof -
  obtain rows where rows: "watchlist_panel (height r) d = Inr rows"
    and w: "w = List_Of (watch_header # map watch_line rows) (titled '' PID Watchlist '' Red)"
    using assms by (auto simp: draw_watchlist_def bindR_eq_Inr)
  have names: "utf8_ok name" if "(pid, name, trust, flag, c) \<in> set rows" for pid name trust flag c
    using that rows comm_str_ok by (auto simp: watchlist_panel_def watch_rows_def watch_row_def split: if_splits)
  have "str_ok s" if "s \<in> fst ` set (watch_line row)" "row \<in> set rows" for s row
  proof (cases row)
    case (fields pid name trust flag c)
    then have "utf8_ok name" using names that(2) by simp
    then show ?thesis using that(1) by (auto simp: fields watch_line_def intro!: text_rules str_ok_bytes)
  qed
  then have "\<forall>s \<in> set (line_texts (map watch_line rows)). str_ok s"
    by (auto simp: line_texts_def) (metis fst_conv imageI)
  then show ?thesis
    by (auto simp: w watch_header_def block_texts_def titled_def plain_block_def line_texts_def intro!: text_rules)
qed

lemma chars_bar: "chars (gauge_bar a b) = a + b"
proof -
  have append: "chars (s @ t) = chars s + chars t" for s t by (simp add: chars_def)
  have block: "chars u_full = 1" "chars u_light = 1" by (simp_all add: chars_def u_full_def u_light_def)
  have "chars (concat (replicate n s)) = n * chars s" for n s by (induction n) (simp_all add: append, simp add: chars_def)
  then show ?thesis by (simp add: gauge_bar_def append block)
qed

lemma texts_gauges:
  assumes "draw_classification m = Inr w" shows "\<forall>s \<in> set (texts w). str_ok s"
proof -
  obtain gauges where w: "w = Paragraph (map2 gauge_spans gauge_labels gauges @
       [[raw (''  Watchlist: below-threshold='' @ shown (nr_quarantined m) @ '' adverse-exit='' @ shown (nr_flagged m))]])
       (titled '' Fallback Event Mix '' Yellow) False"
    using assms by (auto simp: draw_classification_def bindR_eq_Inr)
  have spans: "str_ok s" if "(s, c) \<in> set (gauge_spans l g)" "l \<in> set gauge_labels" for s c l g
    using that by (auto simp: gauge_spans_def gauge_labels_def raw_def intro!: text_rules split: prod.splits)
  have "\<forall>s \<in> set (line_texts (map2 gauge_spans gauge_labels gauges)). str_ok s"
    using spans by (auto simp: line_texts_def dest!: set_zip_leftD)
  then show ?thesis
    by (auto simp: w block_texts_def titled_def plain_block_def raw_def line_texts_def intro!: text_rules)
qed

section \<open>Properties\<close>

lemma frame_draws:
  assumes split: "\<forall>dir cs r. length (split dir cs r) = length cs"
    and small: "unat (nr_interactive (ds_metrics d)) + unat (nr_compute (ds_metrics d)) + unat (nr_iowait (ds_metrics d)) +
      unat (nr_realtime (ds_metrics d)) < 2 ^ 57"
    and ok: "drawable d" and versions: "str_ok version" "str_ok core"
  shows "\<exists>frame mix r watch. draw split version core area d = Inr frame \<and> draw_classification (ds_metrics d) = Inr mix \<and>
    draw_watchlist r d = Inr watch \<and>
    map snd frame = [draw_header (ds_metrics d), draw_overview (ds_metrics d), mix, draw_slice_control d, draw_latency_chart d,
      watch, footer version core] \<and> fst (frame ! 5) = r \<and>
    (\<forall>(area, w) \<in> set frame. \<forall>s \<in> set (texts w). str_ok s) \<and>
    (\<exists>gauges. classification_gauges (ds_metrics d) = Inr gauges \<and> length gauges = 4 \<and>
      (\<forall>(filled, blank, n, pct) \<in> set gauges. chars (gauge_bar filled blank) = 20))"
proof -
  let ?m = "ds_metrics d"
  obtain gauges where g: "classification_gauges ?m = Inr gauges"
    and four: "map (\<lambda>(a, b, n, pct). n) gauges = [nr_interactive ?m, nr_compute ?m, nr_iowait ?m, nr_realtime ?m]"
    and bars: "\<forall>(a, b, n, pct) \<in> set gauges. a + b = 20 \<and> unat pct \<le> 100 \<and> unat pct = unat n * 100 div max (unat (classified ?m)) 1"
    using gauges_are_well_formed [OF small] by (elim exE conjE)
  have len: "length gauges = 4" using arg_cong [OF four, of length] by simp
  obtain mix where mix: "draw_classification ?m = Inr mix" using g by (simp add: draw_classification_def)
  have "\<exists>w. draw_watchlist r d = Inr w" for r by (simp add: draw_watchlist_def drawable_panel [OF ok])
  then obtain watch where watch: "draw_watchlist r d = Inr (watch r)" for r by metis
  have there: "index_at (split dir cs r) i = Inr (split dir cs r ! i)" if "i < length cs" for dir cs r i
    using split that by (simp add: index_at_def)
  obtain t0 l0 l1 l2 r0 r1 b where run: "draw split version core area d =
      Inr [(t0, draw_header ?m), (l0, draw_overview ?m), (l1, mix), (l2, draw_slice_control d), (r0, draw_latency_chart d),
        (r1, watch r1), (b, footer version core)]"
    by (simp add: draw_def Let_def there mix watch)
  have "chars (gauge_bar a b) = 20" if "(a, b, n, pct) \<in> set gauges" for a b n pct
    using bars that by (auto simp: chars_bar)
  then have wide: "\<forall>(a, b, n, pct) \<in> set gauges. chars (gauge_bar a b) = 20" by blast
  note well = texts_header [of ?m] texts_overview [of ?m] texts_gauges [OF mix] texts_slice [of d] texts_chart [of d]
    texts_watchlist [OF watch [of r1]] texts_footer [OF versions]
  let ?frame = "[(t0, draw_header ?m), (l0, draw_overview ?m), (l1, mix), (l2, draw_slice_control d), (r0, draw_latency_chart d),
        (r1, watch r1), (b, footer version core)]"
  have "\<forall>(area, w) \<in> set ?frame. \<forall>s \<in> set (texts w). str_ok s"
    unfolding list.set ball_simps prod.case using well by (intro conjI TrueI)
  moreover have "map snd ?frame = [draw_header ?m, draw_overview ?m, mix, draw_slice_control d, draw_latency_chart d,
      watch r1, footer version core]" "fst (?frame ! 5) = r1" by simp_all
  ultimately show ?thesis
    using run mix watch [of r1] g len wide
    by (intro exI [of _ ?frame] exI [of _ mix] exI [of _ r1] exI [of _ "watch r1"] exI [of _ gauges] conjI)
qed



end
