(* ===== verification/Rendering.thy ===== *)
theory Rendering
  imports Main_Run Dashboard_Drawing
begin

text \<open>
  The frames the main loop draws. \<open>tick_tui\<close> hands the dashboard's state to \<open>terminal.draw\<close>, which calls \<open>draw\<close>; the
  loop's model takes that call for one that returns. Here it is shown, for every state the loop reaches, that \<open>draw\<close>
  does return on the state it is handed as long as the label counts do not wrap: no iteration leaves a dashboard
  state whose watchlist could not be sliced.
\<close>

section \<open>What an action does to the dashboard's state\<close>

named_theorems tui_rules "actions that leave a drawable dashboard"

definition tui_drawable :: "scheduler \<Rightarrow> bool" where
  "tui_drawable s \<longleftrightarrow> (\<forall>d. tui_state s = Some d \<longrightarrow> drawable d)"

definition draws_on :: "(scheduler \<times> 'w, 'a) action \<Rightarrow> bool" where
  "draws_on m \<longleftrightarrow> (\<forall>s w x s' w'. tui_drawable s \<longrightarrow> m (s, w) = Inr (x, (s', w')) \<longrightarrow> tui_drawable s')"

lemma draws_onI: "(\<And>s w x s' w'. tui_drawable s \<Longrightarrow> m (s, w) = Inr (x, (s', w')) \<Longrightarrow> tui_drawable s') \<Longrightarrow> draws_on m"
  by (auto simp: draws_on_def)

lemma draws_onD: "draws_on m \<Longrightarrow> tui_drawable s \<Longrightarrow> m (s, w) = Inr (x, (s', w')) \<Longrightarrow> tui_drawable s'"
  unfolding draws_on_def by blast

lemma tui_drawable_same: "tui_state s' = tui_state s \<Longrightarrow> tui_drawable s' = tui_drawable s"
  by (simp add: tui_drawable_def)

lemma draws_on_bind [tui_rules]:
  assumes "draws_on m" and "\<And>x. draws_on (f x)" shows "draws_on (bindS m f)"
proof (rule draws_onI)
  fix s w x s' w' assume ok: "tui_drawable s" and run: "bindS m f (s, w) = Inr (x, (s', w'))"
  then obtain y st where m: "m (s, w) = Inr (y, st)" and f: "f y st = Inr (x, (s', w'))"
    by (auto simp: bindS_def bindR_eq_Inr)
  obtain s1 w1 where st: "st = (s1, w1)" by fastforce
  have "tui_drawable s1" using draws_onD [OF assms(1) ok m [unfolded st]] .
  then show "tui_drawable s'" using draws_onD [OF assms(2)] f unfolding st by blast
qed

lemma draws_on_leaves [tui_rules]:
  "draws_on (return x)" "draws_on (gets_own f)" "draws_on (ask g)" "draws_on (tell h)" "draws_on (lift_fault r)" "draws_on panic"
  by (rule draws_onI, auto simp: return_def gets_own_def gets_def ask_def tell_def modify_def lift_fault_def panic_def
      bindR_eq_Inr split: prod.splits)+

lemma draws_on_cases [tui_rules]:
  "draws_on m \<Longrightarrow> draws_on n \<Longrightarrow> draws_on (if b then m else n)"
  "draws_on m \<Longrightarrow> (\<And>y. draws_on (g y)) \<Longrightarrow> draws_on (case x of None \<Rightarrow> m | Some y \<Rightarrow> g y)"
  "(\<And>y. draws_on (g y)) \<Longrightarrow> (\<And>y. draws_on (k y)) \<Longrightarrow> draws_on (case z of Inl y \<Rightarrow> g y | Inr y \<Rightarrow> k y)"
  "(\<And>a b. draws_on (h a b)) \<Longrightarrow> draws_on (case p of (a, b) \<Rightarrow> h a b)"
  by (auto split: option.splits sum.splits prod.splits)

lemma draws_on_modify: "(\<And>s. tui_drawable s \<Longrightarrow> tui_drawable (f s)) \<Longrightarrow> draws_on (modify_own f)"
  by (rule draws_onI) (auto simp: modify_own_def modify_def)

lemma draws_on_modify_same [tui_rules]: "(\<And>s. tui_state (f s) = tui_state s) \<Longrightarrow> draws_on (modify_own f)"
  by (rule draws_on_modify) (simp add: tui_drawable_def)

lemma draws_on_part: "(\<And>p s. tui_state (put p s) = tui_state s) \<Longrightarrow> draws_on (on_part get put m)"
  by (rule draws_onI) (auto simp: on_part_def bindR_eq_Inr tui_drawable_def)

lemma draws_on_parts [tui_rules]:
  "draws_on (on_bpf b)" "draws_on (controller_action c)" "draws_on (in_lane l op)"
  "draws_on (on_part sch_controller (\<lambda>c. sch_controller_update (\<lambda>_. c)) k)"
proof -
  show "draws_on (on_bpf b)" unfolding on_bpf_def by (rule draws_on_part) simp
  show "draws_on (controller_action c)" unfolding controller_action_def by (rule draws_on_part) simp
  show "draws_on (on_part sch_controller (\<lambda>c. sch_controller_update (\<lambda>_. c)) k)" by (rule draws_on_part) simp
  have "tui_state (set_lane l q s) = tui_state s" for q s by (cases l) simp_all
  then show "draws_on (in_lane l op)"
    by (intro draws_onI) (auto simp: in_lane_def bindR_eq_Inr tui_drawable_def)
qed

section \<open>The parts of an iteration\<close>

lemma draws_on_push [tui_rules]: "draws_on (push_task os t)"
  unfolding push_task_def by (intro tui_rules; auto intro: tui_rules split: queue_push.splits)

lemma draws_on_pop [tui_rules]: "draws_on (pop_highest_priority_task os)"
  unfolding pop_highest_priority_task_def peek_lane_def Let_def by (intro tui_rules)

lemma draws_on_accept [tui_rules]: "draws_on (accept_task os t)"
  unfolding accept_task_def derive_task_policy_def sample_assigned_slice_def Let_def by (intro tui_rules) simp_all

lemma draws_on_drain [tui_rules]: "draws_on (drain_queued_tasks os n)"
  by (induction n) (auto intro!: tui_rules)

lemma draws_on_dispatch [tui_rules]: "draws_on (dispatch_task os)"
  unfolding dispatch_task_def by (intro tui_rules)

lemma draws_on_dispatch_all [tui_rules]: "draws_on (of_loop (dispatch_all os))"
proof (rule draws_onI)
  fix s w x s' w' assume "tui_drawable s" and run: "of_loop (dispatch_all os) (s, w) = Inr (x, (s', w'))"
  let ?P = "\<lambda>os st r. tui_drawable (fst st) \<longrightarrow> (case r of Inl e \<Rightarrow> True | Inr (u, st') \<Rightarrow> tui_drawable (fst st'))"
  have all: "?P os st r" if "dispatch_all os st = Some r" for st r
  proof (rule dispatch_all.raw_induct [of ?P, OF _ that])
    fix f os st r
    assume "\<And>os st r. f os st = Some r \<Longrightarrow> ?P os st r" and "(if tasks_empty (fst st) then Some (Inr ((), st))
      else case dispatch_task os st of Inl e \<Rightarrow> Some (Inl e)
        | Inr (go, st') \<Rightarrow> if go then f os st' else Some (Inr ((), st'))) = Some r"
    then show "?P os st r"
      using draws_onD [OF draws_on_dispatch [of os], of "fst st" "snd st"] by (fastforce split: if_splits sum.splits)
  qed
  show "tui_drawable s'"
    using all [of "(s, w)" "Inr (x, (s', w'))"] run \<open>tui_drawable s\<close> by (auto simp: of_loop_def split: option.splits)
qed

lemma draws_on_schedule [tui_rules]: "draws_on (schedule os)"
  unfolding schedule_def by (intro tui_rules)

lemma draws_on_exits [tui_rules]: "draws_on (drain_exited_tasks os n)"
  by (induction n) (auto intro!: tui_rules)

lemma tui_state_flush: "tui_state (fold flush_one ps s) = tui_state s"
proof (induction ps arbitrary: s)
  case (Cons p ps)
  have "tui_state (flush_one p s) = tui_state s" by (simp add: flush_one_def Let_def split: option.splits)
  then show ?case using Cons by simp
qed simp

lemma draws_on_housekeeping [tui_rules]: "draws_on (housekeeping_turn os hk)" "draws_on (has_userspace_work os)"
  unfolding housekeeping_turn_def housekeeping_def tick_trust_def tick_slice_controller_def flush_trust_updates_def
    has_userspace_work_def elapsed_def
  by (intro tui_rules; simp add: tui_state_flush)+

lemma draws_on_counters [tui_rules]: "draws_on (read_counters os cs k)"
  by (induction cs arbitrary: k) (auto intro!: tui_rules)

lemma draws_on_metrics [tui_rules]: "draws_on (get_metrics os host)"
  unfolding get_metrics_def elapsed_def Let_def by (intro tui_rules; simp)

text \<open>The array of the worst actors keeps its length, and the watchlist copied from it has 20 entries.\<close>

lemma worst_actors_shape: "length (fst (worst_actors t)) = SHAME_MAX \<and> snd (worst_actors t) \<le> SHAME_MAX"
proof -
  have step: "length (fst (worst_actors_step t i acc)) = length (fst acc) \<and>
      (snd acc \<le> SHAME_MAX \<longrightarrow> snd (worst_actors_step t i acc) \<le> SHAME_MAX)" for i acc
    by (auto simp: worst_actors_step_def Let_def split: prod.splits option.splits)
  have "length (fst (fold (worst_actors_step t) is acc)) = length (fst acc) \<and>
      (snd acc \<le> SHAME_MAX \<longrightarrow> snd (fold (worst_actors_step t) is acc) \<le> SHAME_MAX)" for "is" acc
  proof (induction "is" arbitrary: acc)
    case (Cons i "is")
    then show ?case using step [of i acc] by simp
  qed simp
  from this [of "[0..<TABLE_SIZE]" "(replicate SHAME_MAX shame_entry_ZERO, 0)"] show ?thesis
    by (simp add: worst_actors_def)
qed

lemma update_tui_drawable: "tui_drawable (update_tui m s)" if "tui_drawable s"
proof (cases "tui_state s")
  case None
  then show ?thesis by (simp add: update_tui_def tui_drawable_def)
next
  case (Some d)
  obtain actors n where w: "worst_actors (trust s) = (actors, n)" by fastforce
  then have "length (take n (map wall_of actors) @ drop n (replicate SHAME_MAX wall_entry_ZERO)) = SHAME_MAX"
    using worst_actors_shape [of "trust s"] by simp
  then show ?thesis
    by (simp add: update_tui_def Some w tui_drawable_def drawable_states(3) take_map Let_def del: length_append)
qed

lemma draws_on_update [tui_rules]: "draws_on (modify_own (update_tui m))"
  by (rule draws_on_modify) (rule update_tui_drawable)

lemma draws_on_history [tui_rules]:
  "draws_on (modify_own (\<lambda>s. s\<lparr>last_tui_hist := n, tui_state := map_option push_history (tui_state s)\<rparr>))"
  by (rule draws_on_modify) (auto simp: tui_drawable_def drawable_states(2))

lemma draws_on_observers [tui_rules]: "draws_on (tui_turn os host)" "draws_on (serve_stats_request os host)"
  unfolding tui_turn_def serve_stats_request_def tick_tui_def elapsed_def by (intro tui_rules; simp)+

lemma draws_on_iteration: "draws_on (run_iteration os host hk)"
  unfolding run_iteration_def by (intro tui_rules)

lemma reachable_drawable:
  assumes "reachable os host (s, w, hk) st" and "tui_drawable s" shows "tui_drawable (fst st)"
  using assms(1)
proof (induction rule: reachable.induct)
  case start
  then show ?case using assms(2) by simp
next
  case (step st st')
  then show ?case by (elim run_stepE) (auto dest: draws_onD [OF draws_on_iteration])
qed

section \<open>What is handed to draw\<close>

text \<open>
  Whatever the kernel and the host answer, after every iteration of the loop, the last one included, the dashboard's
  state can be drawn without a panic, as long as its label counts do not wrap: the state \<open>tick_tui\<close> handed to
  \<open>terminal.draw\<close> in that iteration is this one.
\<close>

theorem loop_frames_can_be_drawn:
  assumes "reachable os host (s, w, hk) (s', w', hk')" and "tui_drawable s"
    and "run_iteration os host hk' (s', w') = Inr (r, (s'', w''))" and "tui_state s'' = Some d"
    and "\<forall>dir cs r. length (split dir cs r) = length cs"
    and "unat (nr_interactive (ds_metrics d)) + unat (nr_compute (ds_metrics d)) + unat (nr_iowait (ds_metrics d)) +
      unat (nr_realtime (ds_metrics d)) < 2 ^ 57" and "str_ok ver" and "str_ok core"
  shows "\<exists>frame. draw split ver core area d = Inr frame"
proof -
  have "tui_drawable s''"
    using draws_onD [OF draws_on_iteration _ assms(3)] reachable_drawable [OF assms(1,2)] by simp
  then have "drawable d" using assms(4) by (simp add: tui_drawable_def)
  then show ?thesis using frame_draws [OF assms(5,6) _ assms(7,8)] by blast
qed

text \<open>An instance started with the dashboard.\<close>

definition with_tui :: opts where "with_tui = opts_default\<lparr>tui := True\<rparr>"

theorem loop_frames_can_be_drawn_witness:
  "\<exists>s s'' w'' d frame. scheduler_new with_tui bpf_started 0 = Inr s \<and>
    run_iteration stopping_os script_host 0 (s, ([], [], [])) = Inr (None, (s'', w'')) \<and> tui_state s'' = Some d \<and>
    draw (\<lambda>dir cs r. map (\<lambda>_. r) cs) ''1.0'' ''2.0'' \<lparr>rect_x = 0, rect_y = 0, width = 80, height = 25\<rparr> d = Inr frame"
proof -
  obtain s where s: "scheduler_new with_tui bpf_started 0 = Inr s" "tui_state s = Some dashboard_default"
    using scheduler_new_ok [of with_tui bpf_started 0] by (auto simp: with_tui_def)
  define w'' where "w'' = snd (os_shutdown stopping_os ([], [], []))"
  have run: "run_iteration stopping_os script_host 0 (s, ([], [], [])) = Inr (None, (s, w''))"
    unfolding w''_def by (rule stopped_iteration) (simp add: stopping_os_def)
  have "tui_drawable s" using s(2) drawable_states(1) by (simp add: tui_drawable_def)
  have small: "unat (nr_interactive (ds_metrics dashboard_default)) + unat (nr_compute (ds_metrics dashboard_default)) +
      unat (nr_iowait (ds_metrics dashboard_default)) + unat (nr_realtime (ds_metrics dashboard_default)) < 2 ^ 57"
    by (simp add: dashboard_default_def metrics_default_def)
  have v: "str_ok ''1.0''" "str_ok ''2.0''" by (simp_all add: str_ok_def)
  have l: "\<forall>dir cs r. length ((\<lambda>(dir :: direction) (cs :: constraint list) (r :: rect). map (\<lambda>_. r) cs) dir cs r) = length cs" by simp
  have "\<exists>frame. draw (\<lambda>dir cs r. map (\<lambda>_. r) cs) ''1.0'' ''2.0''
      \<lparr>rect_x = 0, rect_y = 0, width = 80, height = 25\<rparr> dashboard_default = Inr frame"
    by (rule loop_frames_can_be_drawn [OF reachable.start \<open>tui_drawable s\<close> run s(2) l small v])
  then show ?thesis using s run by blast
qed

end
