(* ===== verification/Topology_Export.thy ===== *)
theory Topology_Export
  imports Cognis_Prelude
begin

text \<open>
  \<open>TopologyExport::detect\<close> of \<open>src/bpf.rs\<close>: LLC and NUMA identifiers renumbered densely for the BPF side.
  The probe itself, \<open>scx_utils::Topology::new\<close>, is a library call: its result is an argument. The lemmas
  show that the exported indices describe the same partition of the CPUs as the probe.
\<close>

section \<open>Model\<close>

definition MAX_TOPO_CPUS :: nat where "MAX_TOPO_CPUS = 1024"
definition MAX_LLCS :: nat where "MAX_LLCS = 64"
definition MAX_NODES :: nat where "MAX_NODES = 64"

text \<open>What the code reads of the probe: the CPUs in the order of their identifiers.\<close>

record topo_cpu =
  cpu_id :: nat
  node_id :: nat
  llc_id :: nat

record topology =
  topo_smt :: bool
  topo_nr_llcs :: nat
  topo_nr_nodes :: nat
  all_cpus :: "topo_cpu list"

record topology_export =
  smt_enabled :: bool
  nr_llcs :: u32
  nr_nodes :: u32
  cpu_llc_idx_map :: "u16 list"
  cpu_node_idx_map :: "u16 list"
  llc_node_idx_map :: "u16 list"

definition export_default :: topology_export where
  "export_default = \<lparr>smt_enabled = False, nr_llcs = 1, nr_nodes = 1,
     cpu_llc_idx_map = replicate MAX_TOPO_CPUS 0, cpu_node_idx_map = replicate MAX_TOPO_CPUS 0,
     llc_node_idx_map = replicate MAX_LLCS 0\<rparr>"

text \<open>A key keeps the index it was given first; the next free index is used up otherwise.\<close>

type_synonym remap = "(nat \<rightharpoonup> u16) \<times> u16"

definition remap_idx :: "nat \<Rightarrow> remap \<Rightarrow> u16 \<times> remap" where
  "remap_idx key r = (case r of (m, n) \<Rightarrow>
     case m key of Some idx \<Rightarrow> (idx, (m, n)) | None \<Rightarrow> (n, (m(key \<mapsto> n), sat_add n 1)))"

definition set_at :: "'a list \<Rightarrow> nat \<Rightarrow> 'a \<Rightarrow> fault + 'a list" where
  "set_at xs i v = (if i < length xs then Inr (xs[i := v]) else Inl Panic)"

definition export_cpu :: "topo_cpu \<Rightarrow> remap \<times> remap \<times> topology_export \<Rightarrow> fault + (remap \<times> remap \<times> topology_export)" where
  "export_cpu c st = (case st of (nodes, llcs, e) \<Rightarrow>
     if MAX_TOPO_CPUS \<le> cpu_id c then Inr (nodes, llcs, e)
     else case remap_idx (node_id c) nodes of (node_idx, nodes) \<Rightarrow>
       case remap_idx (llc_id c) llcs of (llc_idx, llcs) \<Rightarrow>
         bindR (set_at (cpu_node_idx_map e) (cpu_id c) node_idx) (\<lambda>cn.
         bindR (set_at (cpu_llc_idx_map e) (cpu_id c) llc_idx) (\<lambda>cl.
         bindR (set_at (llc_node_idx_map e) (unat llc_idx) node_idx) (\<lambda>ln.
         Inr (nodes, llcs, e\<lparr>cpu_node_idx_map := cn, cpu_llc_idx_map := cl, llc_node_idx_map := ln\<rparr>)))))"

fun export_cpus :: "topo_cpu list \<Rightarrow> remap \<times> remap \<times> topology_export \<Rightarrow> fault + (remap \<times> remap \<times> topology_export)" where
  "export_cpus [] st = Inr st"
| "export_cpus (c # cs) st = bindR (export_cpu c st) (export_cpus cs)"

definition detect :: "'e + topology \<Rightarrow> fault + topology_export" where
  "detect probe =
     (case probe of
        Inl err \<Rightarrow> Inr export_default
      | Inr topo \<Rightarrow>
          let e = export_default\<lparr>smt_enabled := topo_smt topo\<rparr> in
            if topo_nr_llcs topo = 0 \<or> MAX_LLCS < topo_nr_llcs topo \<or> MAX_NODES < topo_nr_nodes topo then Inr e
            else bindR (export_cpus (all_cpus topo) ((Map.empty, 0), (Map.empty, 0), e))
              (\<lambda>((_, next_node), (_, next_llc), e).
                 Inr (e\<lparr>nr_nodes := max (ucast next_node) 1, nr_llcs := max (ucast next_llc) 1\<rparr>)))"

section \<open>Dense numbering\<close>

text \<open>The keys of \<open>K\<close> are numbered without gaps or repetition.\<close>

definition dense :: "nat set \<Rightarrow> remap \<Rightarrow> bool" where
  "dense K r \<longleftrightarrow> finite K \<and> dom (fst r) = K \<and> inj_on (fst r) K \<and> unat (snd r) = card K \<and>
     (\<forall>k \<in> K. unat (the (fst r k)) < card K)"

lemma dense_empty: "dense {} (Map.empty, 0)"
  by (simp add: dense_def)

lemma remap_dense:
  assumes d: "dense K r" and room: "card (insert k K) < 2 ^ 16" and idx: "remap_idx k r = (i, r')"
  shows "dense (insert k K) r'" and "fst r' k = Some i" and "\<forall>j \<in> K. fst r' j = fst r j"
    and "unat i < card (insert k K)"
proof -
  obtain m n where r: "r = (m, n)" by fastforce
  have fin: "finite K" and dom: "dom m = K" and inj: "inj_on m K" and n: "unat n = card K"
    and bound: "\<And>j. j \<in> K \<Longrightarrow> unat (the (m j)) < card K"
    using d by (auto simp: dense_def r)
  have all: "dense (insert k K) r' \<and> fst r' k = Some i \<and> (\<forall>j \<in> K. fst r' j = fst r j) \<and> unat i < card (insert k K)"
  proof (cases "m k")
    case None
    then have k: "k \<notin> K" using dom by auto
    have card: "card (insert k K) = Suc (card K)" using fin k by simp
    have r': "i = n" "r' = (m(k \<mapsto> n), sat_add n 1)" using idx None by (auto simp: remap_idx_def r)
    have "unat (sat_add n 1) = Suc (card K)"
      using room n card by (simp add: unat_sat_add)
    moreover have "m j \<noteq> Some n" if "j \<in> K" for j using bound [OF that] n by auto
    then have "inj_on (m(k \<mapsto> n)) (insert k K)"
      using inj k by (auto simp: inj_on_def) metis+
    moreover have "unat (the ((m(k \<mapsto> n)) j)) < Suc (card K)" if "j \<in> insert k K" for j
      using bound [of j] that n by (cases "j = k") (auto simp: less_SucI)
    ultimately show ?thesis using fin dom card n k by (auto simp: dense_def r' r)
  next
    case (Some x)
    then have k: "k \<in> K" using dom by auto
    have "i = x" "r' = r" using idx Some by (auto simp: remap_idx_def r)
    then show ?thesis using d Some bound [OF k] k by (simp add: r insert_absorb)
  qed
  then show "dense (insert k K) r'" "fst r' k = Some i" "\<forall>j \<in> K. fst r' j = fst r j" "unat i < card (insert k K)"
    by simp_all
qed

lemma dense_same: "dense K r \<Longrightarrow> a \<in> K \<Longrightarrow> b \<in> K \<Longrightarrow> the (fst r a) = the (fst r b) \<longleftrightarrow> a = b"
  by (auto simp: dense_def inj_on_def dom_def)

section \<open>The exported maps\<close>

definition supported :: "topo_cpu list \<Rightarrow> topo_cpu list" where
  "supported cs = filter (\<lambda>c. cpu_id c < MAX_TOPO_CPUS) cs"

definition llcs_of :: "topo_cpu list \<Rightarrow> nat set" where "llcs_of cs = llc_id ` set (supported cs)"
definition nodes_of :: "topo_cpu list \<Rightarrow> nat set" where "nodes_of cs = node_id ` set (supported cs)"

text \<open>What the loop has established after the CPUs \<open>cs\<close>.\<close>

definition exported :: "topo_cpu list \<Rightarrow> remap \<times> remap \<times> topology_export \<Rightarrow> bool" where
  "exported cs = (\<lambda>(nodes, llcs, e). dense (nodes_of cs) nodes \<and> dense (llcs_of cs) llcs \<and>
     length (cpu_llc_idx_map e) = MAX_TOPO_CPUS \<and> length (cpu_node_idx_map e) = MAX_TOPO_CPUS \<and>
     length (llc_node_idx_map e) = MAX_LLCS \<and>
     (\<forall>c \<in> set (supported cs). cpu_llc_idx_map e ! cpu_id c = the (fst llcs (llc_id c)) \<and>
        cpu_node_idx_map e ! cpu_id c = the (fst nodes (node_id c)) \<and>
        llc_node_idx_map e ! unat (the (fst llcs (llc_id c))) = the (fst nodes (node_id c))))"

text \<open>What a probe reports: one entry per CPU, and an LLC lies within one node.\<close>

definition consistent :: "topo_cpu list \<Rightarrow> bool" where
  "consistent cs \<longleftrightarrow> distinct (map cpu_id cs) \<and>
     (\<forall>c \<in> set cs. \<forall>d \<in> set cs. llc_id c = llc_id d \<longrightarrow> node_id c = node_id d)"

lemma consistent_snoc:
  assumes "consistent (cs @ [c])"
  shows "consistent cs" and "d \<in> set cs \<Longrightarrow> cpu_id d \<noteq> cpu_id c"
    and "d \<in> set cs \<Longrightarrow> llc_id d = llc_id c \<Longrightarrow> node_id d = node_id c"
proof -
  have dis: "distinct (map cpu_id cs)" "cpu_id c \<notin> cpu_id ` set cs"
    using assms unfolding consistent_def by simp_all
  have near: "node_id a = node_id b" if "a \<in> set (cs @ [c])" "b \<in> set (cs @ [c])" "llc_id a = llc_id b" for a b
    using assms that unfolding consistent_def by blast
  show "consistent cs" unfolding consistent_def
    by (intro conjI ballI impI, rule dis(1), rule near) simp_all
  show "cpu_id d \<noteq> cpu_id c" if "d \<in> set cs" using dis(2) imageI [OF that, of cpu_id] by metis
  show "node_id d = node_id c" if "d \<in> set cs" "llc_id d = llc_id c"
    by (rule near) (use that in simp_all)
qed

lemma supported_snoc: "supported (cs @ [c]) = supported cs @ (if cpu_id c < MAX_TOPO_CPUS then [c] else [])"
  by (simp add: supported_def)

lemma exported_step:
  assumes ex: "exported cs (nodes, llcs, e)" and con: "consistent (cs @ [c])"
    and room: "card (llcs_of (cs @ [c])) \<le> MAX_LLCS" "card (nodes_of (cs @ [c])) \<le> MAX_NODES"
  shows "\<exists>st. export_cpu c (nodes, llcs, e) = Inr st \<and> exported (cs @ [c]) st \<and>
    smt_enabled (snd (snd st)) = smt_enabled e"
proof (cases "MAX_TOPO_CPUS \<le> cpu_id c")
  case True
  then have "exported (cs @ [c]) (nodes, llcs, e)"
    using ex by (simp add: exported_def supported_snoc nodes_of_def llcs_of_def)
  then show ?thesis using True by (simp add: export_cpu_def)
next
  case False
  then have id: "cpu_id c < MAX_TOPO_CPUS" by simp
  obtain ni nodes' where n: "remap_idx (node_id c) nodes = (ni, nodes')" by (cases "remap_idx (node_id c) nodes")
  obtain li llcs' where l: "remap_idx (llc_id c) llcs = (li, llcs')" by (cases "remap_idx (llc_id c) llcs")
  have sets: "nodes_of (cs @ [c]) = insert (node_id c) (nodes_of cs)" "llcs_of (cs @ [c]) = insert (llc_id c) (llcs_of cs)"
    using id by (simp_all add: nodes_of_def llcs_of_def supported_snoc)
  have dn: "dense (nodes_of cs) nodes" and dl: "dense (llcs_of cs) llcs" using ex by (simp_all add: exported_def)
  have cn: "card (insert (node_id c) (nodes_of cs)) < 2 ^ 16" and cl: "card (insert (llc_id c) (llcs_of cs)) < 2 ^ 16"
    using room unfolding sets by (simp_all add: MAX_NODES_def MAX_LLCS_def)
  note N = remap_dense [OF dn cn n] and L = remap_dense [OF dl cl l]
  have li: "unat li < MAX_LLCS" using L(4) room(1) unfolding sets by simp
  define e' where "e' = e\<lparr>cpu_node_idx_map := (cpu_node_idx_map e)[cpu_id c := ni],
    cpu_llc_idx_map := (cpu_llc_idx_map e)[cpu_id c := li], llc_node_idx_map := (llc_node_idx_map e)[unat li := ni]\<rparr>"
  have len: "length (cpu_llc_idx_map e) = MAX_TOPO_CPUS" "length (cpu_node_idx_map e) = MAX_TOPO_CPUS"
    "length (llc_node_idx_map e) = MAX_LLCS" using ex by (simp_all add: exported_def)
  have run: "export_cpu c (nodes, llcs, e) = Inr (nodes', llcs', e')"
    using False len id li by (simp add: export_cpu_def n l set_at_def e'_def)
  have here: "cpu_llc_idx_map e' ! cpu_id c = the (fst llcs' (llc_id c))"
    "cpu_node_idx_map e' ! cpu_id c = the (fst nodes' (node_id c))"
    "llc_node_idx_map e' ! unat (the (fst llcs' (llc_id c))) = the (fst nodes' (node_id c))"
    using len id li N(2) L(2) by (simp_all add: e'_def)
  have there: "cpu_llc_idx_map e' ! cpu_id d = the (fst llcs' (llc_id d))"
    "cpu_node_idx_map e' ! cpu_id d = the (fst nodes' (node_id d))"
    "llc_node_idx_map e' ! unat (the (fst llcs' (llc_id d))) = the (fst nodes' (node_id d))"
    if d: "d \<in> set (supported cs)" for d
  proof -
    have keys: "llc_id d \<in> llcs_of cs" "node_id d \<in> nodes_of cs" using d by (simp_all add: llcs_of_def nodes_of_def)
    have same: "fst llcs' (llc_id d) = fst llcs (llc_id d)" "fst nodes' (node_id d) = fst nodes (node_id d)"
      using keys N(3) L(3) by auto
    have set_d: "d \<in> set cs" using d by (simp add: supported_def)
    then have "cpu_id d \<noteq> cpu_id c" by (rule consistent_snoc(2) [OF con])
    moreover have old: "cpu_llc_idx_map e ! cpu_id d = the (fst llcs (llc_id d))"
      "cpu_node_idx_map e ! cpu_id d = the (fst nodes (node_id d))"
      "llc_node_idx_map e ! unat (the (fst llcs (llc_id d))) = the (fst nodes (node_id d))"
      using ex d by (simp_all add: exported_def)
    ultimately show "cpu_llc_idx_map e' ! cpu_id d = the (fst llcs' (llc_id d))"
      "cpu_node_idx_map e' ! cpu_id d = the (fst nodes' (node_id d))" using same by (simp_all add: e'_def)
    show "llc_node_idx_map e' ! unat (the (fst llcs' (llc_id d))) = the (fst nodes' (node_id d))"
    proof (cases "llc_id d = llc_id c")
      case True
      then have "node_id d = node_id c" by (rule consistent_snoc(3) [OF con set_d])
      then show ?thesis using True here(3) by simp
    next
      case False
      then have "the (fst llcs' (llc_id d)) \<noteq> li"
        using dense_same [OF L(1), of "llc_id d" "llc_id c"] keys L(2) by auto
      then have "unat (the (fst llcs' (llc_id d))) \<noteq> unat li" by (simp only: word_unat_eq_iff not_False_eq_True)
      then show ?thesis using old(3) same by (simp add: e'_def)
    qed
  qed
  have "exported (cs @ [c]) (nodes', llcs', e')"
    using N(1) L(1) len here there id
    by (simp add: exported_def sets supported_snoc) (simp add: e'_def)
  then show ?thesis using run by (simp add: e'_def)
qed

lemma export_cpus_snoc: "export_cpus (cs @ [c]) st = bindR (export_cpus cs st) (export_cpu c)"
proof (induction cs arbitrary: st)
  case Nil
  then show ?case by (cases "export_cpu c st") simp_all
next
  case (Cons d cs)
  then show ?case by (cases "export_cpu d st") simp_all
qed

lemma supported_mono: "set (supported cs) \<subseteq> set (supported (cs @ ds))"
  by (auto simp: supported_def)

lemma export_cpus_ok:
  assumes "consistent cs" and "card (llcs_of cs) \<le> MAX_LLCS" and "card (nodes_of cs) \<le> MAX_NODES"
    and "exported [] start"
  shows "\<exists>st. export_cpus cs start = Inr st \<and> exported cs st \<and>
    smt_enabled (snd (snd st)) = smt_enabled (snd (snd start))"
  using assms(1-3)
proof (induction cs rule: rev_induct)
  case Nil
  then show ?case using assms(4) by simp
next
  case (snoc c cs)
  have "card (llcs_of cs) \<le> card (llcs_of (cs @ [c]))" "card (nodes_of cs) \<le> card (nodes_of (cs @ [c]))"
    unfolding llcs_of_def nodes_of_def
    by (rule card_mono [OF _ image_mono [OF supported_mono]], simp)+
  then have "card (llcs_of cs) \<le> MAX_LLCS" "card (nodes_of cs) \<le> MAX_NODES"
    using snoc.prems(2,3) by linarith+
  moreover have "consistent cs" by (rule consistent_snoc(1) [OF snoc.prems(1)])
  ultimately obtain st where st: "export_cpus cs start = Inr st" "exported cs st"
    "smt_enabled (snd (snd st)) = smt_enabled (snd (snd start))" using snoc.IH by blast
  obtain nodes llcs e where "st = (nodes, llcs, e)" by (metis prod.exhaust)
  then show ?case
    using exported_step [of cs nodes llcs e c] snoc.prems st by (auto simp: export_cpus_snoc)
qed

lemma exported_start: "exported [] ((Map.empty, 0), (Map.empty, 0), export_default\<lparr>smt_enabled := b\<rparr>)"
  using dense_empty
  by (simp add: exported_def supported_def nodes_of_def llcs_of_def export_default_def)

lemma u32_of_count:
  fixes n :: u16
  assumes "unat n = k" shows "unat (max (ucast n) 1 :: u32) = max k 1"
proof -
  have "unat (ucast n :: u32) = unat n" by transfer (simp add: take_bit_eq_mod mod_pos_pos_trivial)
  then have "unat (ucast n :: u32) = k" using assms by simp
  then show ?thesis by (simp add: unat_max_word)
qed

section \<open>No panic\<close>

text \<open>
  What the probe promises: its lists of LLCs and of nodes hold at least those of the CPUs it lists, which is how
  \<open>scx_utils\<close> builds them.
\<close>

definition probe_counts :: "'e + topology \<Rightarrow> bool" where
  "probe_counts probe \<longleftrightarrow> (case probe of Inl _ \<Rightarrow> True
     | Inr t \<Rightarrow> card (llcs_of (all_cpus t)) \<le> topo_nr_llcs t \<and> card (nodes_of (all_cpus t)) \<le> topo_nr_nodes t)"

text \<open>What keeps the three writes of the loop in range; it does not matter how the CPUs are grouped.\<close>

definition in_range :: "topo_cpu list \<Rightarrow> remap \<times> remap \<times> topology_export \<Rightarrow> bool" where
  "in_range cs = (\<lambda>(nodes, llcs, e). dense (llcs_of cs) llcs \<and> length (cpu_llc_idx_map e) = MAX_TOPO_CPUS \<and>
     length (cpu_node_idx_map e) = MAX_TOPO_CPUS \<and> length (llc_node_idx_map e) = MAX_LLCS)"

lemma in_range_step:
  assumes ok: "in_range cs (nodes, llcs, e)" and room: "card (llcs_of (cs @ [c])) \<le> MAX_LLCS"
  shows "\<exists>st. export_cpu c (nodes, llcs, e) = Inr st \<and> in_range (cs @ [c]) st"
proof (cases "MAX_TOPO_CPUS \<le> cpu_id c")
  case True
  then show ?thesis using ok by (simp add: export_cpu_def in_range_def supported_snoc llcs_of_def)
next
  case False
  obtain ni nodes' where n: "remap_idx (node_id c) nodes = (ni, nodes')" by (cases "remap_idx (node_id c) nodes")
  obtain li llcs' where l: "remap_idx (llc_id c) llcs = (li, llcs')" by (cases "remap_idx (llc_id c) llcs")
  have sets: "llcs_of (cs @ [c]) = insert (llc_id c) (llcs_of cs)" using False by (simp add: llcs_of_def supported_snoc)
  have dl: "dense (llcs_of cs) llcs" using ok by (simp add: in_range_def)
  have "card (insert (llc_id c) (llcs_of cs)) < 2 ^ 16" using room unfolding sets by (simp add: MAX_LLCS_def)
  note L = remap_dense [OF dl this l]
  have "unat li < MAX_LLCS" using L(4) room unfolding sets by simp
  then show ?thesis using ok False L(1) by (simp add: export_cpu_def n l set_at_def in_range_def sets)
qed

lemma export_cpus_returns:
  assumes "card (llcs_of cs) \<le> MAX_LLCS" and "in_range [] start"
  shows "\<exists>st. export_cpus cs start = Inr st \<and> in_range cs st"
  using assms(1)
proof (induction cs rule: rev_induct)
  case Nil
  then show ?case using assms(2) by simp
next
  case (snoc c cs)
  have "card (llcs_of cs) \<le> card (llcs_of (cs @ [c]))"
    unfolding llcs_of_def by (rule card_mono [OF _ image_mono [OF supported_mono]], simp)
  then obtain st where st: "export_cpus cs start = Inr st" "in_range cs st" using snoc by auto
  obtain nodes llcs e where "st = (nodes, llcs, e)" by (metis prod.exhaust)
  then show ?case using in_range_step [of cs nodes llcs e c] snoc.prems st by (auto simp: export_cpus_snoc)
qed

lemma detect_returns:
  assumes "probe_counts probe" obtains e where "detect probe = Inr e"
proof (cases probe)
  case (Inl err)
  then show ?thesis using that by (simp add: detect_def)
next
  case (Inr t)
  show ?thesis
  proof (cases "topo_nr_llcs t = 0 \<or> MAX_LLCS < topo_nr_llcs t \<or> MAX_NODES < topo_nr_nodes t")
    case True
    then show ?thesis using that by (auto simp: detect_def Inr Let_def)
  next
    case False
    then have "card (llcs_of (all_cpus t)) \<le> MAX_LLCS" using assms by (auto simp: probe_counts_def Inr)
    moreover have "in_range [] ((Map.empty, 0), (Map.empty, 0), export_default\<lparr>smt_enabled := topo_smt t\<rparr>)"
      using dense_empty by (simp add: in_range_def llcs_of_def supported_def export_default_def)
    ultimately obtain st where "export_cpus (all_cpus t) ((Map.empty, 0), (Map.empty, 0), export_default\<lparr>smt_enabled := topo_smt t\<rparr>) = Inr st"
      using export_cpus_returns by blast
    then show ?thesis using that False by (cases st) (auto simp: detect_def Inr Let_def split: prod.splits)
  qed
qed

section \<open>Properties\<close>

text \<open>
  C23. The exported topology is the probed one, renumbered: with at most 64 LLCs and nodes the export does
  not panic; the counts are the numbers of LLCs and nodes of the supported CPUs; two CPUs get the same LLC
  index (node index) exactly when they share the LLC (node); all indices are below the counts; and the
  LLC's node index is the node index of its CPUs.
\<close>

theorem topology_export_faithful:
  assumes "consistent (all_cpus t)" and "topo_nr_llcs t \<noteq> 0" and "topo_nr_llcs t \<le> 64" and "topo_nr_nodes t \<le> 64"
    and "card (llcs_of (all_cpus t)) \<le> topo_nr_llcs t" and "card (nodes_of (all_cpus t)) \<le> topo_nr_nodes t"
    and "c \<in> set (all_cpus t)" and "cpu_id c < 1024" and "d \<in> set (all_cpus t)" and "cpu_id d < 1024"
  shows "\<exists>e. detect (Inr t) = Inr e \<and> smt_enabled e = topo_smt t \<and>
    unat (nr_llcs e) = max (card (llcs_of (all_cpus t))) 1 \<and>
    unat (nr_nodes e) = max (card (nodes_of (all_cpus t))) 1 \<and>
    (cpu_llc_idx_map e ! cpu_id c = cpu_llc_idx_map e ! cpu_id d \<longleftrightarrow> llc_id c = llc_id d) \<and>
    (cpu_node_idx_map e ! cpu_id c = cpu_node_idx_map e ! cpu_id d \<longleftrightarrow> node_id c = node_id d) \<and>
    unat (cpu_llc_idx_map e ! cpu_id c) < unat (nr_llcs e) \<and>
    unat (cpu_node_idx_map e ! cpu_id c) < unat (nr_nodes e) \<and>
    llc_node_idx_map e ! unat (cpu_llc_idx_map e ! cpu_id c) = cpu_node_idx_map e ! cpu_id c"
proof -
  let ?cs = "all_cpus t"
  let ?start = "((Map.empty, 0), (Map.empty, 0), export_default\<lparr>smt_enabled := topo_smt t\<rparr>)"
  have cards: "card (llcs_of ?cs) \<le> MAX_LLCS" "card (nodes_of ?cs) \<le> MAX_NODES"
    using assms(3-6) by (simp_all add: MAX_LLCS_def MAX_NODES_def)
  from export_cpus_ok [OF assms(1) cards exported_start, of "topo_smt t"] obtain nodes llcs e where
    run: "export_cpus ?cs ?start = Inr (nodes, llcs, e)" and ex: "exported ?cs (nodes, llcs, e)"
    and smt: "smt_enabled e = topo_smt t" by auto
  define e' where "e' = e\<lparr>nr_nodes := max (ucast (snd nodes)) 1, nr_llcs := max (ucast (snd llcs)) 1\<rparr>"
  have det: "detect (Inr t) = Inr e'"
    using assms(2-4) run by (simp add: detect_def Let_def MAX_LLCS_def MAX_NODES_def e'_def split: prod.splits)
  have dn: "dense (nodes_of ?cs) nodes" and dl: "dense (llcs_of ?cs) llcs" using ex by (simp_all add: exported_def)
  have sup: "c \<in> set (supported ?cs)" "d \<in> set (supported ?cs)"
    using assms(7-10) by (simp_all add: supported_def MAX_TOPO_CPUS_def)
  then have keys: "llc_id c \<in> llcs_of ?cs" "llc_id d \<in> llcs_of ?cs" "node_id c \<in> nodes_of ?cs" "node_id d \<in> nodes_of ?cs"
    by (simp_all add: llcs_of_def nodes_of_def)
  have nr: "unat (nr_llcs e') = max (card (llcs_of ?cs)) 1" "unat (nr_nodes e') = max (card (nodes_of ?cs)) 1"
    using u32_of_count [of "snd llcs"] u32_of_count [of "snd nodes"] dn dl cards
    by (simp_all add: e'_def dense_def MAX_LLCS_def MAX_NODES_def)
  have maps: "cpu_llc_idx_map e' ! cpu_id x = the (fst llcs (llc_id x))"
    "cpu_node_idx_map e' ! cpu_id x = the (fst nodes (node_id x))"
    "llc_node_idx_map e' ! unat (the (fst llcs (llc_id x))) = the (fst nodes (node_id x))"
    if "x \<in> set (supported ?cs)" for x
    using ex that by (simp_all add: exported_def e'_def)
  have "unat (the (fst llcs (llc_id c))) < card (llcs_of ?cs)" "unat (the (fst nodes (node_id c))) < card (nodes_of ?cs)"
    using dn dl keys by (simp_all add: dense_def)
  then have bounds: "unat (cpu_llc_idx_map e' ! cpu_id c) < unat (nr_llcs e')"
    "unat (cpu_node_idx_map e' ! cpu_id c) < unat (nr_nodes e')"
    unfolding maps [OF sup(1)] nr by linarith+
  show ?thesis
    using det bounds nr dense_same [OF dl keys(1,2)] dense_same [OF dn keys(3,4)] maps [OF sup(1)] maps [OF sup(2)] smt
    by (intro exI [of _ e']) (simp add: e'_def)
qed

definition two_nodes :: topology where
  "two_nodes = \<lparr>topo_smt = True, topo_nr_llcs = 2, topo_nr_nodes = 2,
     all_cpus = [\<lparr>cpu_id = 0, node_id = 7, llc_id = 30\<rparr>, \<lparr>cpu_id = 1, node_id = 7, llc_id = 30\<rparr>,
       \<lparr>cpu_id = 2, node_id = 4, llc_id = 10\<rparr>]\<rparr>"

theorem topology_export_faithful_witness:
  "\<exists>e. detect (Inr two_nodes :: unit + topology) = Inr e \<and> unat (nr_llcs e) = 2 \<and>
     cpu_llc_idx_map e ! 0 = cpu_llc_idx_map e ! 1"
proof -
  let ?a = "\<lparr>cpu_id = 0, node_id = 7, llc_id = 30\<rparr>" and ?b = "\<lparr>cpu_id = 1, node_id = 7, llc_id = 30\<rparr>"
  have "supported (all_cpus two_nodes) = all_cpus two_nodes" by (simp add: supported_def two_nodes_def MAX_TOPO_CPUS_def)
  then have s: "llcs_of (all_cpus two_nodes) = {10, 30}" "nodes_of (all_cpus two_nodes) = {4, 7}"
    by (auto simp: llcs_of_def nodes_of_def two_nodes_def)
  have "consistent (all_cpus two_nodes)" by (simp add: consistent_def two_nodes_def)
  moreover have "?a \<in> set (all_cpus two_nodes)" "?b \<in> set (all_cpus two_nodes)" by (simp_all add: two_nodes_def)
  moreover have "topo_nr_llcs two_nodes = 2" "topo_nr_nodes two_nodes = 2" by (simp_all add: two_nodes_def)
  ultimately have "\<exists>e. detect (Inr two_nodes :: unit + topology) = Inr e \<and>
      unat (nr_llcs e) = max (card (llcs_of (all_cpus two_nodes))) 1 \<and>
      (cpu_llc_idx_map e ! cpu_id ?a = cpu_llc_idx_map e ! cpu_id ?b \<longleftrightarrow> llc_id ?a = llc_id ?b)"
    using topology_export_faithful [of two_nodes ?a ?b, where 'a = unit] s by auto
  then show ?thesis by (simp add: s numeral_2_eq_2)
qed

text \<open>
  The export falls back to one LLC and one node with all indices 0, and never panics, when the probe
  fails, reports no LLC, more than 64 LLCs or more than 64 nodes; the SMT flag is then the probe's, and off
  when the probe failed.
\<close>

theorem topology_export_fallback:
  assumes "\<forall>t. probe = Inr t \<longrightarrow> topo_nr_llcs t = 0 \<or> 64 < topo_nr_llcs t \<or> 64 < topo_nr_nodes t"
  shows "\<exists>e. detect probe = Inr e \<and> nr_llcs e = 1 \<and> nr_nodes e = 1 \<and> set (cpu_llc_idx_map e) = {0} \<and>
    set (cpu_node_idx_map e) = {0} \<and> set (llc_node_idx_map e) = {0} \<and>
    smt_enabled e = (case probe of Inl _ \<Rightarrow> False | Inr t \<Rightarrow> topo_smt t)"
  using assms
  by (cases probe) (auto simp: detect_def Let_def export_default_def MAX_LLCS_def MAX_NODES_def MAX_TOPO_CPUS_def)

theorem topology_export_fallback_witness:
  "\<exists>e. detect (Inl () :: unit + topology) = Inr e \<and> nr_llcs e = 1 \<and> \<not> smt_enabled e"
  using topology_export_fallback [of "Inl () :: unit + topology"] by auto

end
