(* ===== verification/Startup.thy ===== *)
theory Startup
  imports Housekeeping Topology_Export
begin

text \<open>
  Start-up and shutdown: \<open>BpfScheduler::init\<close> with the name of the struct_ops map, and \<open>wait_for_detach\<close> of
  \<open>src/bpf.rs\<close>; \<open>Scheduler::init\<close> of \<open>src/main.rs\<close>. Opening, loading and attaching are calls of libbpf and
  scx_utils: an oracle says which of them succeed, and the calls made are recorded in order.
\<close>

section \<open>The name of the scheduler\<close>

text \<open>
  \<open>set_scx_ops_name\<close>: the name, cut to leave room for a terminating 0, then a version suffix written from
  the first 0 on. Characters are bytes; the field is an array of \<open>i8\<close>.
\<close>

definition is_ascii :: "u8 list \<Rightarrow> bool" where "is_ascii src \<longleftrightarrow> (\<forall>b \<in> set src. b < 0x80)"

function append_suffix :: "u8 list \<Rightarrow> u8 list \<Rightarrow> nat \<Rightarrow> bool \<Rightarrow> u8 list \<times> nat" where
  "append_suffix field tag i found_null =
     (if i < length field - 1 then
        let found_null = (found_null \<or> field ! i = 0) in
          if \<not> found_null then append_suffix field tag (i + 1) found_null
          else case tag of
            b # rest \<Rightarrow> append_suffix (field[i := b]) rest (i + 1) found_null
          | [] \<Rightarrow> (field, i)
      else (field, i))"
  by pat_completeness auto
termination by (relation "measure (\<lambda>(field, _, i, _). length field - i)") auto

declare append_suffix.simps [simp del]

definition set_scx_ops_name :: "u8 list \<Rightarrow> u8 list \<Rightarrow> u8 list \<Rightarrow> fault + (unit + u8 list)" where
  "set_scx_ops_name tag field src =
     (if \<not> is_ascii src then Inr (Inl ())
      else if length field = 0 then Inl Panic
      else let n = min (length src) (length field - 1);
               field = take n src @ replicate (length field - n) 0
           in case append_suffix field tag 0 False of (field, i) \<Rightarrow> Inr (Inr (field[i := 0])))"

section \<open>What the name becomes\<close>

lemma append_suffix_skip:
  assumes "0 \<notin> set xs" and "field = xs @ ys" and "i \<le> length xs" and "length xs \<le> length field - 1"
  shows "append_suffix field tag i False = append_suffix field tag (length xs) False"
  using assms(3)
proof (induction "length xs - i" arbitrary: i)
  case (Suc d)
  then have i: "i < length xs" by linarith
  then have "xs ! i \<noteq> 0" using assms(1) nth_mem by metis
  then have "field ! i \<noteq> 0" using assms(2) i by (simp add: nth_append)
  then have "append_suffix field tag i False = append_suffix field tag (Suc i) False"
    using i assms(4) by (subst append_suffix.simps) simp
  also have "\<dots> = append_suffix field tag (length xs) False" using Suc i by (intro Suc.hyps) simp_all
  finally show ?case .
qed simp

lemma append_suffix_write:
  "append_suffix (xs @ replicate (Suc m) 0) tag (length xs) True =
     (xs @ take m tag @ replicate (Suc m - length (take m tag)) 0, length xs + length (take m tag))"
proof (induction m arbitrary: xs tag)
  case 0
  then show ?case by (subst append_suffix.simps) simp
next
  case (Suc m)
  show ?case
  proof (cases tag)
    case Nil
    then show ?thesis by (subst append_suffix.simps) simp
  next
    case (Cons b rest)
    have "(xs @ replicate (Suc (Suc m)) 0)[length xs := b] = (xs @ [b]) @ replicate (Suc m) 0" by simp
    then have "append_suffix (xs @ replicate (Suc (Suc m)) 0) tag (length xs) True =
        append_suffix ((xs @ [b]) @ replicate (Suc m) 0) rest (length (xs @ [b])) True"
      using Cons by (subst append_suffix.simps) simp
    then show ?thesis using Suc.IH [of "xs @ [b]" rest] Cons by simp
  qed
qed

lemma append_suffix_first:
  "append_suffix (xs @ replicate (Suc m) 0) tag (length xs) False =
     append_suffix (xs @ replicate (Suc m) 0) tag (length xs) True"
  by (subst (1 2) append_suffix.simps) (simp add: nth_append)

lemma terminated: "(zs @ replicate k 0)[length zs := 0] = zs @ replicate k (0 :: u8)"
  by (cases k) (simp_all add: list_update_beyond)

definition ops_name_spec :: "u8 list \<Rightarrow> nat \<Rightarrow> u8 list \<Rightarrow> u8 list" where
  "ops_name_spec tag n src =
     (let text = take (n - 1) (src @ tag) in text @ replicate (n - length text) 0)"

lemma set_scx_ops_name_eq:
  assumes ascii: "is_ascii src" and nul: "0 \<notin> set src" and field: "field \<noteq> []"
  shows "set_scx_ops_name tag field src = Inr (Inr (ops_name_spec tag (length field) src))"
proof -
  let ?L = "length field" let ?n = "min (length src) (?L - 1)" let ?xs = "take ?n src"
  define m where "m = ?L - 1 - ?n"
  have pos: "0 < ?L" using field by simp
  then have "?n < ?L" by linarith
  then have L: "?L - ?n = Suc m" by (simp add: m_def)
  have len: "length ?xs = ?n" by simp
  have "append_suffix (?xs @ replicate (Suc m) 0) tag 0 False =
      append_suffix (?xs @ replicate (Suc m) 0) tag (length ?xs) False"
    by (rule append_suffix_skip [OF _ refl]) (use nul pos in \<open>auto dest: in_set_takeD\<close>)
  also have "\<dots> = (?xs @ take m tag @ replicate (Suc m - length (take m tag)) 0, length ?xs + length (take m tag))"
    unfolding append_suffix_first by (rule append_suffix_write)
  finally have run: "append_suffix (?xs @ replicate (?L - ?n) 0) tag 0 False =
      (?xs @ take m tag @ replicate (Suc m - length (take m tag)) 0, length ?xs + length (take m tag))"
    by (simp only: L)
  have cut: "take (?L - 1) (src @ tag) = ?xs @ take m tag"
  proof (cases "length src \<le> ?L - 1")
    case True
    then show ?thesis by (simp add: m_def min_def)
  next
    case False
    then show ?thesis by (simp add: m_def min_def)
  qed
  have rest: "?L - length (?xs @ take m tag) = Suc m - length (take m tag)" using L len by simp
  have "(?xs @ take m tag @ replicate (Suc m - length (take m tag)) 0)[length ?xs + length (take m tag) := 0] =
      ?xs @ take m tag @ replicate (Suc m - length (take m tag)) 0"
    using terminated [of "?xs @ take m tag" "Suc m - length (take m tag)"] by simp
  moreover have "ops_name_spec tag ?L src = ?xs @ take m tag @ replicate (Suc m - length (take m tag)) 0"
    by (simp only: ops_name_spec_def Let_def cut rest append_assoc)
  ultimately show ?thesis
    using ascii field run by (simp add: set_scx_ops_name_def Let_def)
qed

section \<open>BpfScheduler::init\<close>

text \<open>The read-only data and the struct_ops map the BPF program is loaded with.\<close>

record rodata =
  ro_topology :: topology_export
  usersched_enabled :: bool
  usersched_pid :: u32
  builtin_idle :: bool
  ro_slice_ns :: u64
  ro_slice_min_ns :: u64
  ro_slice_lag_ns :: u64
  ro_no_wake_sync :: bool
  ro_sticky_tasks :: bool
  server_mode :: bool
  ro_debug :: bool

record struct_ops_map =
  ops_flags :: u64
  ops_exit_dump_len :: u32
  ops_name :: "u8 list"

text \<open>
  What libraries and the build provide: flag values, what \<open>pthread_setschedparam\<close> returns (0, or an error number,
  which is positive), the version suffix and the compiled-in name.
\<close>

record platform =
  SCX_OPS_ENQ_LAST :: u64
  SCX_OPS_ALLOW_QUEUED_WAKEUP :: u64
  SCX_OPS_SWITCH_PARTIAL :: u64
  process_id :: u32
  pthread_setschedparam :: i32
  version_suffix :: "u8 list"
  compiled_name :: "u8 list"

datatype boot_call =
    Launch_Stats | Open_Skel | Get_Rodata | Load_Skel rodata struct_ops_map | Get_Bss | Attach
  | Add_Queued_Ring | Build_Queued_Ring | Add_Exit_Ring | Build_Exit_Ring | New_User_Ring | Lock_Memory
  | Set_Sched_Class | Setup_Terminal | Alloc_Trust | Alloc_Lifetime_Table | Alloc_Lifetime_Pids | Detach | Unlock_Memory

text \<open>A call is recorded and answered by the oracle. An error value is the call that failed.\<close>

type_synonym 'a boot = "(boot_call list, 'a) action"

definition attempt :: "(boot_call \<Rightarrow> bool) \<Rightarrow> boot_call \<Rightarrow> bool boot" where
  "attempt works c = (\<lambda>calls. Inr (works c, calls @ [c]))"

text \<open>\<open>?\<close> after a call. Once the scheduler is attached, an early return drops the link and detaches it.\<close>

definition require :: "(boot_call \<Rightarrow> bool) \<Rightarrow> boot_call \<Rightarrow> (boot_call + 'a) boot \<Rightarrow> (boot_call + 'a) boot" where
  "require works c k = bindS (attempt works c) (\<lambda>ok. if ok then k else return (Inl c))"

definition require_attached :: "(boot_call \<Rightarrow> bool) \<Rightarrow> boot_call \<Rightarrow> (boot_call + 'a) boot \<Rightarrow> (boot_call + 'a) boot" where
  "require_attached works c k = bindS (attempt works c) (\<lambda>ok.
     if ok then k else bindS (attempt works Detach) (\<lambda>_. return (Inl c)))"

definition rodata_for :: "platform \<Rightarrow> opts \<Rightarrow> bpf_profile \<Rightarrow> topology_export \<Rightarrow> rodata" where
  "rodata_for pf cli p topo = \<lparr>ro_topology = topo, usersched_enabled = userspace_fallback cli,
     usersched_pid = (if userspace_fallback cli then process_id pf else 0), builtin_idle = True,
     ro_slice_ns = prof_slice_ns p, ro_slice_min_ns = prof_slice_min_ns p, ro_slice_lag_ns = prof_slice_lag_ns p,
     ro_no_wake_sync = no_wake_sync p, ro_sticky_tasks = sticky_tasks p, server_mode = is_server p,
     ro_debug = verbose cli\<rparr>"

definition struct_ops_for :: "platform \<Rightarrow> opts \<Rightarrow> (unit + u8 list) \<Rightarrow> struct_ops_map" where
  "struct_ops_for pf cli name =
     (let flags = or (SCX_OPS_ENQ_LAST pf) (SCX_OPS_ALLOW_QUEUED_WAKEUP pf)
      in \<lparr>ops_flags = (if opt_partial cli then or flags (SCX_OPS_SWITCH_PARTIAL pf) else flags),
          ops_exit_dump_len = exit_dump_len cli,
          ops_name = (case name of Inr n \<Rightarrow> n | Inl _ \<Rightarrow> compiled_name pf)\<rparr>)"

definition bpf_init ::
    "(boot_call \<Rightarrow> bool) \<Rightarrow> platform \<Rightarrow> (unit + topology) \<Rightarrow> opts \<Rightarrow> bpf_profile \<Rightarrow> (boot_call + bpf_scheduler) boot" where
  "bpf_init works pf probe cli p =
     require works Open_Skel (
     require works Get_Rodata (
     bindS (lift_fault (detect probe)) (\<lambda>topo.
     bindS (lift_fault (set_scx_ops_name (version_suffix pf) (compiled_name pf) (ascii ''cognis''))) (\<lambda>name.
     require works (Load_Skel (rodata_for pf cli p topo) (struct_ops_for pf cli name)) (
     require works Get_Bss (
     require works Attach (
     require_attached works Add_Queued_Ring (
     require_attached works Build_Queued_Ring (
     require_attached works Add_Exit_Ring (
     require_attached works Build_Exit_Ring (
     require_attached works New_User_Ring (
     bindS (attempt works Lock_Memory) (\<lambda>_.
     let bpf = \<lparr>bss_present = True, queued_slot = None, exited_pid_slot = None, struct_ops_attached = True\<rparr> in
       if opt_partial cli then require_attached works Set_Sched_Class (return (Inr bpf))
       else return (Inr bpf))))))))))))))"

text \<open>\<open>use_sched_ext\<close> returns the number; the code takes a negative one for a failure.\<close>

definition use_sched_ext :: "platform \<Rightarrow> i32" where "use_sched_ext pf = pthread_setschedparam pf"

definition answered :: "platform \<Rightarrow> (boot_call \<Rightarrow> bool) \<Rightarrow> boot_call \<Rightarrow> bool" where
  "answered pf works c = (if c = Set_Sched_Class then \<not> sint (use_sched_ext pf) < 0 else works c)"

section \<open>Scheduler::init\<close>

text \<open>An allocation that fails drops the scheduler handle, which detaches it and unlocks the memory.\<close>

definition require_alloc :: "(boot_call \<Rightarrow> bool) \<Rightarrow> boot_call \<Rightarrow> (boot_call + 'a) boot \<Rightarrow> (boot_call + 'a) boot" where
  "require_alloc works c k = bindS (attempt works c) (\<lambda>ok.
     if ok then k
     else bindS (attempt works Detach) (\<lambda>_. bindS (attempt works Unlock_Memory) (\<lambda>_. return (Inl c))))"

definition finish_init ::
    "(boot_call \<Rightarrow> bool) \<Rightarrow> opts \<Rightarrow> nat \<Rightarrow> bpf_scheduler \<Rightarrow> (boot_call + scheduler) boot" where
  "finish_init works cli now bpf =
     bindS (if tui cli then attempt works Setup_Terminal else return False) (\<lambda>term.
     require_alloc works Alloc_Trust (
     require_alloc works Alloc_Lifetime_Table (
     require_alloc works Alloc_Lifetime_Pids (
     bindS (lift_fault (scheduler_new cli bpf now)) (\<lambda>s. return (Inr (s\<lparr>tui_term := term\<rparr>)))))))"

definition scheduler_init ::
    "(boot_call \<Rightarrow> bool) \<Rightarrow> platform \<Rightarrow> (unit + topology) \<Rightarrow> opts \<Rightarrow> nat \<Rightarrow> (boot_call + scheduler) boot" where
  "scheduler_init works pf probe cli now =
    (let works = answered pf works in
     bindS (if should_launch_stats_server cli then attempt works Launch_Stats else return True) (\<lambda>ok.
     if \<not> ok then return (Inl Launch_Stats)
     else bindS (bpf_init works pf probe cli (from_opts cli)) (\<lambda>r. case r of
         Inl failed \<Rightarrow> return (Inl failed)
       | Inr bpf \<Rightarrow> finish_init works cli now bpf)))"

section \<open>Attached or not\<close>

fun attached :: "bool \<Rightarrow> boot_call list \<Rightarrow> bool" where
  "attached a [] = a"
| "attached a (Attach # cs) = attached True cs"
| "attached a (Detach # cs) = attached False cs"
| "attached a (c # cs) = attached a cs"

definition is_attached :: "(boot_call \<Rightarrow> bool) \<Rightarrow> boot_call list \<Rightarrow> bool" where
  "is_attached works cs = attached False (filter (\<lambda>c. c = Attach \<longrightarrow> works Attach) cs)"

lemma attached_append: "attached a (xs @ ys) = attached (attached a xs) ys"
  by (induction a xs rule: attached.induct) simp_all

lemma is_attached_snoc:
  "is_attached works (cs @ [c]) = (if c = Attach then works Attach \<or> is_attached works cs
     else if c = Detach then False else is_attached works cs)"
  by (cases c) (simp_all add: is_attached_def attached_append)

lemma wp_attempt [wp_simps]: "wp (attempt works c) Q cs \<longleftrightarrow> Q (works c) (cs @ [c])"
  by (simp add: wp_def attempt_def)

lemma wp_require [wp_simps]:
  "wp (require works c k) Q cs \<longleftrightarrow> (if works c then wp k Q (cs @ [c]) else Q (Inl c) (cs @ [c]))"
  by (simp add: require_def wp_simps)

lemma wp_require_attached [wp_simps]:
  "wp (require_attached works c k) Q cs \<longleftrightarrow>
     (if works c then wp k Q (cs @ [c]) else Q (Inl c) (cs @ [c, Detach]))"
  by (simp add: require_attached_def wp_simps)

lemma wp_require_alloc [wp_simps]:
  "wp (require_alloc works c k) Q cs \<longleftrightarrow>
     (if works c then wp k Q (cs @ [c]) else Q (Inl c) (cs @ [c, Detach, Unlock_Memory]))"
  by (simp add: require_alloc_def wp_simps)

lemma is_attached_two: "is_attached works (cs @ [c, Detach]) = False" "is_attached works (cs @ [c, Detach, Unlock_Memory]) = False"
  using is_attached_snoc [of works "cs @ [c]" Detach] is_attached_snoc [of works "cs @ [c, Detach]" Unlock_Memory]
  by simp_all

text \<open>The outcome of a stage: an error is a call that failed, with nothing left attached.\<close>

definition booted :: "(boot_call \<Rightarrow> bool) \<Rightarrow> ('a \<Rightarrow> boot_call list \<Rightarrow> bool) \<Rightarrow> boot_call + 'a \<Rightarrow> boot_call list \<Rightarrow> bool" where
  "booted works P r calls = (case r of
     Inl failed \<Rightarrow> \<not> works failed \<and> failed \<in> set calls \<and> \<not> is_attached works calls
   | Inr x \<Rightarrow> is_attached works calls \<and> P x calls)"

lemma booted_Inl: "booted works P (Inl c) calls \<longleftrightarrow> \<not> works c \<and> c \<in> set calls \<and> \<not> is_attached works calls"
  and booted_Inr: "booted works P (Inr x) calls \<longleftrightarrow> is_attached works calls \<and> P x calls"
  by (simp_all add: booted_def)

lemma cognis_name:
  assumes "compiled_name pf \<noteq> []"
  shows "set_scx_ops_name (version_suffix pf) (compiled_name pf) (ascii ''cognis'') =
    Inr (Inr (ops_name_spec (version_suffix pf) (length (compiled_name pf)) (ascii ''cognis'')))"
  by (rule set_scx_ops_name_eq [OF _ _ assms]) (simp_all add: ascii_def is_ascii_def word_less_nat_alt)

definition loaded :: "platform \<Rightarrow> opts \<Rightarrow> topology_export \<Rightarrow> boot_call" where
  "loaded pf cli topo = Load_Skel (rodata_for pf cli (from_opts cli) topo)
     (struct_ops_for pf cli (Inr (ops_name_spec (version_suffix pf) (length (compiled_name pf)) (ascii ''cognis''))))"

lemma loaded_other: "loaded pf cli topo \<noteq> Attach" "loaded pf cli topo \<noteq> Detach"
  by (simp_all add: loaded_def)

lemma wp_bpf_init:
  assumes topo: "detect probe = Inr topo" and name: "compiled_name pf \<noteq> []" and none: "\<not> is_attached works calls"
  shows "wp (bpf_init works pf probe cli (from_opts cli))
    (booted works (\<lambda>b calls. b = bpf_started \<and> loaded pf cli topo \<in> set calls \<and> (opt_partial cli \<longrightarrow> Set_Sched_Class \<in> set calls))) calls"
  unfolding bpf_init_def Let_def
  by (simp add: wp_bindS wp_require wp_require_attached wp_lift_fault wp_attempt wp_return topo cognis_name [OF name]
      booted_Inl booted_Inr is_attached_snoc is_attached_two none loaded_def [symmetric] loaded_other
      bpf_started_def del: append_assoc)

lemma wp_finish_init:
  assumes "is_attached works calls"
  shows "wp (finish_init works cli now bpf_started)
    (booted works (\<lambda>s calls'. set calls \<subseteq> set calls' \<and> sched_ok s \<and> backlog s = [] \<and> sch_opts s = cli \<and>
       profile s = from_opts cli \<and> (tui_term s \<longrightarrow> tui cli \<and> works Setup_Terminal))) calls"
proof -
  obtain s where s: "scheduler_new cli bpf_started now = Inr s" "lanes_ok s" "backlog s = []" "sch_bpf s = bpf_started"
    "sch_controller s = controller_new (prof_slice_ns (from_opts cli))" "trust s = trust_new"
    "sch_lifetimes s = lifetimes_zeroed" "sch_opts s = cli" "profile s = from_opts cli"
    using scheduler_new_ok [of cli bpf_started now] by auto
  have lanes: "lane_queue l (s\<lparr>tui_term := b\<rparr>) = lane_queue l s" for l b by (cases l) simp_all
  have "sched_ok (s\<lparr>tui_term := b\<rparr>)" for b
    using s lanes_ok_cong [OF lanes] calm_new [of "s\<lparr>tui_term := b\<rparr>"]
    by (simp add: sched_ok_def bpf_started_def controller_new_ok)
  moreover have "backlog (s\<lparr>tui_term := b\<rparr>) = []" for b using backlog_cong [OF lanes] s(3) by metis
  ultimately show ?thesis
    using assms s(1,8,9)
    by (auto simp: finish_init_def wp_bindS wp_require_alloc wp_lift_fault wp_attempt wp_return booted_Inl booted_Inr
        is_attached_snoc is_attached_two simp del: append_assoc)
qed



definition ready :: "(boot_call \<Rightarrow> bool) \<Rightarrow> platform \<Rightarrow> opts \<Rightarrow> topology_export \<Rightarrow> scheduler \<Rightarrow> boot_call list \<Rightarrow> bool" where
  "ready works pf cli topo s calls \<longleftrightarrow> loaded pf cli topo \<in> set calls \<and>
     (opt_partial cli \<longrightarrow> Set_Sched_Class \<in> set calls) \<and> sched_ok s \<and> backlog s = [] \<and> sch_opts s = cli \<and>
     profile s = from_opts cli \<and> (tui_term s \<longrightarrow> tui cli \<and> works Setup_Terminal)"

lemma wp_bpf_then_finish:
  assumes "detect probe = Inr topo" and "compiled_name pf \<noteq> []" and "\<not> is_attached works calls"
  shows "wp (bindS (bpf_init works pf probe cli (from_opts cli)) (\<lambda>r. case r of
         Inl failed \<Rightarrow> return (Inl failed)
       | Inr bpf \<Rightarrow> finish_init works cli now bpf)) (booted works (ready works pf cli topo)) calls"
  unfolding wp_bindS
proof (rule wp_mono [OF wp_bpf_init [OF assms]], goal_cases)
  case (1 r calls')
  show ?case
  proof (cases r)
    case (Inl c)
    then show ?thesis using 1 by (simp add: wp_return booted_Inl)
  next
    case (Inr b)
    then have b: "is_attached works calls'" "b = bpf_started" "loaded pf cli topo \<in> set calls'"
      "opt_partial cli \<longrightarrow> Set_Sched_Class \<in> set calls'"
      using 1 by (simp_all add: booted_Inr)
    have "wp (finish_init works cli now bpf_started) (booted works (ready works pf cli topo)) calls'"
      by (rule wp_mono [OF wp_finish_init [OF b(1)]])
        (use b(3,4) in \<open>auto simp: booted_def ready_def split: sum.splits\<close>)
    then show ?thesis using b(2) Inr by simp
  qed
qed

lemma wp_scheduler_init:
  assumes "detect probe = Inr topo" and "compiled_name pf \<noteq> []"
  shows "wp (scheduler_init works pf probe cli now) (booted (answered pf works) (ready (answered pf works) pf cli topo)) []"
  unfolding scheduler_init_def Let_def
  using wp_bpf_then_finish [OF assms(1,2), of "answered pf works" "[]" cli now] wp_bpf_then_finish [OF assms(1,2), of "answered pf works" "[Launch_Stats]" cli now]
  by (simp add: wp_bindS wp_attempt wp_return booted_Inl is_attached_def)

text \<open>
  C10. Start-up either gives a scheduler that is attached, with empty lanes, the profile of the options and the
  struct_ops map loaded with the topology that was probed, or it reports the call that failed, as the code reads its
  answer, and leaves nothing attached. It does not panic, the export of the topology included; the probe counts the
  LLCs and nodes of the CPUs it lists.
\<close>

theorem init_attaches_or_cleans_up:
  assumes "probe_counts probe" and "compiled_name pf \<noteq> []"
  shows "\<exists>topo r calls. detect probe = Inr topo \<and> scheduler_init works pf probe cli now [] = Inr (r, calls) \<and>
    (case r of
       Inl failed \<Rightarrow> \<not> answered pf works failed \<and> failed \<in> set calls \<and> \<not> is_attached works calls
     | Inr s \<Rightarrow> is_attached works calls \<and> loaded pf cli topo \<in> set calls \<and> sched_ok s \<and> backlog s = [] \<and>
         sch_opts s = cli \<and> profile s = from_opts cli \<and> (tui_term s \<longrightarrow> tui cli \<and> works Setup_Terminal))"
proof -
  obtain topo where topo: "detect probe = Inr topo" using detect_returns [OF assms(1)] .
  have same: "is_attached (answered pf works) calls = is_attached works calls" for calls
    by (simp add: is_attached_def answered_def)
  show ?thesis
    using wp_scheduler_init [OF topo assms(2), of works cli now]
    by (auto simp: topo wp_def booted_def ready_def same answered_def split: sum.splits if_splits)
qed

text \<open>A run on which everything but the user ring buffer can be made.\<close>

definition platform_example :: platform where
  "platform_example = \<lparr>SCX_OPS_ENQ_LAST = 2, SCX_OPS_ALLOW_QUEUED_WAKEUP = 32, SCX_OPS_SWITCH_PARTIAL = 8,
     process_id = 71, pthread_setschedparam = 1, version_suffix = ascii ''_1.0'', compiled_name = replicate 16 0\<rparr>"

theorem init_attaches_or_cleans_up_witness:
  "\<exists>calls. scheduler_init (\<lambda>c. c \<noteq> New_User_Ring) platform_example (Inl ()) opts_default 0 [] =
      Inr (Inl New_User_Ring, calls) \<and> \<not> is_attached (\<lambda>c. c \<noteq> New_User_Ring) calls"
proof -
  have "\<exists>topo. detect (Inl ()) = Inr topo" by (simp add: detect_def)
  then obtain topo where topo: "detect (Inl ()) = Inr topo" ..
  have name: "compiled_name platform_example \<noteq> []" by (simp add: platform_example_def)
  have "\<not> should_launch_stats_server opts_default" by (simp add: should_launch_stats_server_def opts_default_def)
  then have "wp (scheduler_init (\<lambda>c. c \<noteq> New_User_Ring) platform_example (Inl ()) opts_default 0)
      (\<lambda>r _. r = Inl New_User_Ring) []"
    by (simp add: scheduler_init_def answered_def bpf_init_def Let_def wp_simps wp_lift_fault topo cognis_name [OF name])
  then show ?thesis
    using init_attaches_or_cleans_up [of "Inl ()", OF _ name, of "\<lambda>c. c \<noteq> New_User_Ring" opts_default 0]
    by (auto simp: wp_def probe_counts_def)
qed

text \<open>
  With partial switching the scheduler asks for the SCHED_EXT class for itself. The call reports a failure by a
  positive number, which the code does not take for one: start-up goes on without the class.
\<close>

theorem sched_class_failure_unnoticed:
  assumes "detect probe = Inr topo" and "compiled_name pf \<noteq> []" and "0 < sint (pthread_setschedparam pf)"
    and "opt_partial cli" and "\<And>c. works c"
  shows "\<exists>s calls. scheduler_init works pf probe cli now [] = Inr (Inr s, calls) \<and> Set_Sched_Class \<in> set calls"
proof -
  have "answered pf works c" for c using assms(3,5) by (simp add: answered_def use_sched_ext_def)
  moreover obtain r calls where "scheduler_init works pf probe cli now [] = Inr (r, calls)"
    "booted (answered pf works) (ready (answered pf works) pf cli topo) r calls"
    using wp_scheduler_init [OF assms(1,2), of works cli now] by (auto simp: wp_iff)
  ultimately show ?thesis using assms(4) by (cases r) (simp_all add: booted_Inl booted_Inr ready_def)
qed

theorem sched_class_failure_unnoticed_witness:
  "\<exists>s calls. scheduler_init (\<lambda>_. True) platform_example (Inl ()) (opts_default\<lparr>opt_partial := True\<rparr>) 0 [] = Inr (Inr s, calls) \<and>
    Set_Sched_Class \<in> set calls"
proof -
  have "\<exists>topo. detect (Inl ()) = Inr topo" by (simp add: detect_def)
  then obtain topo where topo: "detect (Inl ()) = Inr topo" ..
  show ?thesis
    by (rule sched_class_failure_unnoticed [OF topo]) (simp_all add: platform_example_def)
qed

lemma takeWhile_padded: "takeWhile (\<lambda>b. b \<noteq> 0) (xs @ replicate k 0) = takeWhile (\<lambda>b. b \<noteq> (0 :: u8)) xs"
  by (induction xs; cases k) simp_all

text \<open>
  The name of the struct_ops map is the scheduler's name followed by the version suffix, cut so that the field
  ends with a 0, whatever the field held before.
\<close>

theorem ops_name_is_cut_and_terminated:
  assumes "is_ascii src" and "0 \<notin> set src" and "field \<noteq> []"
  shows "\<exists>name. set_scx_ops_name tag field src = Inr (Inr name) \<and> length name = length field \<and> last name = 0 \<and>
    takeWhile (\<lambda>b. b \<noteq> 0) name = takeWhile (\<lambda>b. b \<noteq> 0) (take (length field - 1) (src @ tag))"
proof -
  let ?text = "take (length field - 1) (src @ tag)"
  have short: "length ?text < length field" using assms(3) by (cases field) simp_all
  then obtain m where m: "length field - length ?text = Suc m" by (metis Suc_diff_Suc)
  have "set_scx_ops_name tag field src = Inr (Inr (?text @ replicate (Suc m) 0))"
    using set_scx_ops_name_eq [OF assms] m by (simp add: ops_name_spec_def Let_def)
  moreover have "length (?text @ replicate (Suc m) 0) = length field"
    using short m unfolding length_append length_replicate by linarith
  moreover have "takeWhile (\<lambda>b. b \<noteq> 0) (?text @ replicate (Suc m) 0) = takeWhile (\<lambda>b. b \<noteq> 0) ?text"
    by (rule takeWhile_padded)
  moreover have "last (?text @ replicate (Suc m) 0) = (0 :: u8)" by (simp add: last_append)
  ultimately show ?thesis by blast
qed

theorem ops_name_is_cut_and_terminated_witness:
  "\<exists>name. set_scx_ops_name (ascii ''_1.0_x86'') (replicate 9 7) (ascii ''cognis'') = Inr (Inr name) \<and>
    length name = 9 \<and> last name = 0"
  using ops_name_is_cut_and_terminated [of "ascii ''cognis''" "replicate 9 7" "ascii ''_1.0_x86''"]
  by (auto simp: ascii_def is_ascii_def word_less_nat_alt)

section \<open>Waiting for the detach\<close>

text \<open>Text is a list of Unicode scalars; white space is the property \<open>White_Space\<close> that \<open>str::trim\<close> removes.\<close>

type_synonym scalars = "u32 list"

definition as_text :: "string \<Rightarrow> scalars" where "as_text cs = map (\<lambda>c. of_nat (of_char c)) cs"

definition is_white :: "u32 \<Rightarrow> bool" where
  "is_white c \<longleftrightarrow> 0x9 \<le> c \<and> c \<le> 0xD \<or> c = 0x20 \<or> c = 0x85 \<or> c = 0xA0 \<or> c = 0x1680 \<or>
     0x2000 \<le> c \<and> c \<le> 0x200A \<or> c = 0x2028 \<or> c = 0x2029 \<or> c = 0x202F \<or> c = 0x205F \<or> c = 0x3000"

definition trim :: "scalars \<Rightarrow> scalars" where
  "trim s = rev (dropWhile is_white (rev (dropWhile is_white s)))"

lemma last_dropWhile_rev: "dropWhile P (rev xs) \<noteq> [] \<Longrightarrow> xs \<noteq> [] \<and> \<not> P (hd (dropWhile P (rev xs)))"
  by (metis dropWhile.simps(1) hd_dropWhile rev.simps(1))

lemma trim_clean:
  assumes "trim s \<noteq> []"
  shows "\<not> is_white (hd (trim s))" and "\<not> is_white (last (trim s))"
proof -
  let ?l = "dropWhile is_white s"
  have t: "dropWhile is_white (rev ?l) \<noteq> []" using assms by (simp add: trim_def)
  then show "\<not> is_white (last (trim s))" by (simp add: trim_def last_rev hd_dropWhile)
  have "?l = rev (takeWhile is_white (rev ?l) @ dropWhile is_white (rev ?l))" by simp
  then have "?l = trim s @ rev (takeWhile is_white (rev ?l))" unfolding rev_append by (simp add: trim_def)
  then have "hd ?l = hd (trim s)" and "?l \<noteq> []" using assms hd_append2 by (metis, metis append_is_Nil_conv)
  then show "\<not> is_white (hd (trim s))" by (metis hd_dropWhile)
qed

text \<open>What the shutdown path uses of the operating system.\<close>

record 'w sysfs =
  read_root_ops :: "'w \<Rightarrow> (unit + scalars) \<times> 'w"
  sys_instant :: "'w \<Rightarrow> nat \<times> 'w"
  sys_sleep :: "nat \<Rightarrow> 'w \<Rightarrow> 'w"
  sys_restore_terminal :: "'w \<Rightarrow> 'w"
  sys_detach :: "'w \<Rightarrow> 'w"
  sys_unlock_memory :: "'w \<Rightarrow> 'w"

definition DETACH_WAIT_TIMEOUT :: nat where "DETACH_WAIT_TIMEOUT = 500000000"
definition DETACH_WAIT_POLL :: nat where "DETACH_WAIT_POLL = 10000000"

definition current_root_ops_name :: "unit + scalars \<Rightarrow> scalars option" where
  "current_root_ops_name content = (case content of
     Inl _ \<Rightarrow> None
   | Inr s \<Rightarrow> let name = trim s in if name = [] then None else Some name)"

definition ours :: "scalars \<Rightarrow> bool" where "ours name = prefix (as_text ''cognis_'') name"

partial_function (option) wait_loop :: "'w sysfs \<Rightarrow> nat \<Rightarrow> 'w \<Rightarrow> (scalars option \<times> 'w) option" where
  "wait_loop sys started w =
     (let (content, w) = read_root_ops sys w in case current_root_ops_name content of
        None \<Rightarrow> Some (None, w)
      | Some name \<Rightarrow>
          if ours name then
            (let (now, w) = sys_instant sys w in
               if DETACH_WAIT_TIMEOUT \<le> now - started then Some (Some name, w)
               else wait_loop sys started (sys_sleep sys DETACH_WAIT_POLL w))
          else Some (None, w))"

definition wait_for_detach :: "'w sysfs \<Rightarrow> 'w \<Rightarrow> (scalars option \<times> 'w) option" where
  "wait_for_detach sys w = (let (started, w) = sys_instant sys w in wait_loop sys started w)"

text \<open>
  Dropping a \<open>Scheduler\<close>: its own \<open>drop\<close> runs first, its fields are dropped after it, the handle among them.
  The result is the name that is logged as still registered.
\<close>

definition bpf_scheduler_drop :: "'w sysfs \<Rightarrow> bpf_scheduler \<Rightarrow> 'w \<Rightarrow> 'w" where
  "bpf_scheduler_drop sys b w = sys_unlock_memory sys (if struct_ops_attached b then sys_detach sys w else w)"

definition scheduler_drop :: "'w sysfs \<Rightarrow> scheduler \<Rightarrow> 'w \<Rightarrow> (scalars option \<times> 'w) option" where
  "scheduler_drop sys s w =
     (let w = (if tui_term s then sys_restore_terminal sys w else w) in
      case wait_for_detach sys w of
        None \<Rightarrow> None
      | Some (left, w) \<Rightarrow> Some (left, bpf_scheduler_drop sys (sch_bpf s) w))"

text \<open>
  The clock of the operating system does not go back, a sleep takes its time, and only a read of the file counts
  as a read.
\<close>

definition clock_ok :: "'w sysfs \<Rightarrow> ('w \<Rightarrow> nat) \<Rightarrow> ('w \<Rightarrow> nat) \<Rightarrow> bool" where
  "clock_ok sys clock reads \<longleftrightarrow> (\<forall>w.
     clock w \<le> clock (snd (read_root_ops sys w)) \<and> reads (snd (read_root_ops sys w)) = Suc (reads w) \<and>
     clock w \<le> fst (sys_instant sys w) \<and> fst (sys_instant sys w) \<le> clock (snd (sys_instant sys w)) \<and>
     reads (snd (sys_instant sys w)) = reads w \<and>
     (\<forall>d. clock w + d \<le> clock (sys_sleep sys d w) \<and> reads (sys_sleep sys d w) = reads w) \<and>
     clock w \<le> clock (sys_restore_terminal sys w) \<and> reads (sys_restore_terminal sys w) = reads w \<and>
     clock w \<le> clock (sys_detach sys w) \<and> reads (sys_detach sys w) = reads w \<and>
     clock w \<le> clock (sys_unlock_memory sys w) \<and> reads (sys_unlock_memory sys w) = reads w)"

lemma clockD:
  assumes "clock_ok sys clock reads"
  shows "clock w \<le> clock (snd (read_root_ops sys w))" "reads (snd (read_root_ops sys w)) = Suc (reads w)"
    "clock w \<le> fst (sys_instant sys w)" "fst (sys_instant sys w) \<le> clock (snd (sys_instant sys w))"
    "reads (snd (sys_instant sys w)) = reads w"
    "clock w + d \<le> clock (sys_sleep sys d w)" "reads (sys_sleep sys d w) = reads w"
    "clock w \<le> clock (sys_restore_terminal sys w)" "reads (sys_restore_terminal sys w) = reads w"
    "clock w \<le> clock (sys_detach sys w)" "reads (sys_detach sys w) = reads w"
    "clock w \<le> clock (sys_unlock_memory sys w)" "reads (sys_unlock_memory sys w) = reads w"
  using assms unfolding clock_ok_def by blast+

text \<open>The scheduler stays registered as long as nothing detaches it.\<close>

definition stays_up :: "'w sysfs \<Rightarrow> ('w \<Rightarrow> bool) \<Rightarrow> bool" where
  "stays_up sys up \<longleftrightarrow> (\<forall>w. up w \<longrightarrow>
     (\<exists>name. current_root_ops_name (fst (read_root_ops sys w)) = Some name \<and> ours name) \<and>
     up (snd (read_root_ops sys w)) \<and> up (snd (sys_instant sys w)) \<and> (\<forall>d. up (sys_sleep sys d w)) \<and>
     up (sys_restore_terminal sys w))"

lemma current_root_ops_name_clean:
  "current_root_ops_name content = Some name \<Longrightarrow> name \<noteq> [] \<and> \<not> is_white (hd name) \<and> \<not> is_white (last name)"
  by (auto simp: current_root_ops_name_def Let_def trim_clean split: sum.splits if_splits)

definition waited :: "('w \<Rightarrow> nat) \<Rightarrow> nat \<Rightarrow> scalars option \<times> 'w \<Rightarrow> bool" where
  "waited clock t r \<longleftrightarrow> (\<forall>name. fst r = Some name \<longrightarrow>
     ours name \<and> \<not> is_white (last name) \<and> t + DETACH_WAIT_TIMEOUT \<le> clock (snd r))"

definition still_ours :: "'w sysfs \<Rightarrow> 'w \<Rightarrow> scalars \<Rightarrow> bool" where
  "still_ours sys w name \<longleftrightarrow> current_root_ops_name (fst (read_root_ops sys w)) = Some name \<and> ours name"

lemma wait_loop_gone:
  "\<nexists>name. still_ours sys w name \<Longrightarrow> wait_loop sys started w = Some (None, snd (read_root_ops sys w))"
  by (subst wait_loop.simps) (auto simp: still_ours_def split_beta Let_def split: option.split)

lemma wait_loop_ours:
  assumes "still_ours sys w name"
  shows "wait_loop sys started w = (let (now, w) = sys_instant sys (snd (read_root_ops sys w)) in
     if DETACH_WAIT_TIMEOUT \<le> now - started then Some (Some name, w)
     else wait_loop sys started (sys_sleep sys DETACH_WAIT_POLL w))"
  using assms by (subst wait_loop.simps) (simp add: still_ours_def split_beta Let_def)

lemma wait_loop_returns:
  assumes "clock_ok sys clock reads" and "started \<le> clock w"
    and "started + DETACH_WAIT_TIMEOUT \<le> clock w + n * DETACH_WAIT_POLL"
  shows "\<exists>left w'. wait_loop sys started w = Some (left, w') \<and> reads w' \<le> reads w + Suc n \<and> clock w \<le> clock w' \<and>
    waited clock started (left, w') \<and> (stays_up sys up \<and> up w \<longrightarrow> left \<noteq> None \<and> up w')"
  using assms(2,3)
proof (induction n arbitrary: w rule: less_induct)
  note clockD = clockD [OF assms(1)]
  case (less n w)
  define w1 where "w1 = snd (read_root_ops sys w)"
  define w2 where "w2 = snd (sys_instant sys w1)"
  define w3 where "w3 = sys_sleep sys DETACH_WAIT_POLL w2"
  have time: "clock w \<le> clock w1" "clock w1 \<le> fst (sys_instant sys w1)" "fst (sys_instant sys w1) \<le> clock w2"
    "clock w2 + DETACH_WAIT_POLL \<le> clock w3"
    using clockD(1) [of w] clockD(3,4) [of w1] clockD(6) [of w2 DETACH_WAIT_POLL] by (simp_all add: w1_def w2_def w3_def)
  have cnt: "reads w1 = Suc (reads w)" "reads w2 = Suc (reads w)" "reads w3 = Suc (reads w)"
    using clockD(2) clockD(5) clockD(7) by (simp_all add: w1_def w2_def w3_def)
  have up: "stays_up sys up \<and> up w \<Longrightarrow> up w2 \<and> up w3 \<and> (\<exists>name. still_ours sys w name)"
    unfolding stays_up_def still_ours_def w1_def w2_def w3_def by blast
  show ?case
  proof (cases "\<exists>name. still_ours sys w name")
    case False
    then show ?thesis using wait_loop_gone [of sys w started] time(1) cnt(1) up by (auto simp: w1_def [symmetric] waited_def)
  next
    case True
    then obtain name where name: "still_ours sys w name" ..
    then have clean: "ours name" "\<not> is_white (last name)"
      by (auto simp: still_ours_def dest: current_root_ops_name_clean)
    let ?late = "DETACH_WAIT_TIMEOUT \<le> fst (sys_instant sys w1) - started"
    have run: "wait_loop sys started w = (if ?late then Some (Some name, w2) else wait_loop sys started w3)"
      unfolding wait_loop_ours [OF name] by (simp add: split_beta Let_def w1_def w2_def w3_def)
    show ?thesis
    proof (cases ?late)
      case True
      then have "started + DETACH_WAIT_TIMEOUT \<le> clock w2"
        using time less.prems(1) by linarith
      then show ?thesis using run True clean up time cnt by (auto simp: waited_def)
    next
      case False
      then have "n \<noteq> 0" using less.prems time by (cases n) auto
      then obtain k where k: "n = Suc k" by (cases n) auto
      have "started \<le> clock w3" "started + DETACH_WAIT_TIMEOUT \<le> clock w3 + k * DETACH_WAIT_POLL"
        using less.prems time k by simp_all
      then obtain left w' where "wait_loop sys started w3 = Some (left, w')" "reads w' \<le> reads w3 + Suc k"
        "clock w3 \<le> clock w'" "waited clock started (left, w')" "stays_up sys up \<and> up w3 \<longrightarrow> left \<noteq> None \<and> up w'"
        using less.IH [of k w3] k by blast
      then show ?thesis using run False up cnt(3) time k by auto
    qed
  qed
qed

lemma polls: "DETACH_WAIT_TIMEOUT = 50 * DETACH_WAIT_POLL"
  by (simp add: DETACH_WAIT_TIMEOUT_def DETACH_WAIT_POLL_def)

lemma wait_for_detach_returns:
  assumes "clock_ok sys clock reads"
  shows "\<exists>left w'. wait_for_detach sys w = Some (left, w') \<and> reads w' \<le> reads w + 51 \<and> clock w \<le> clock w' \<and>
    waited clock (clock w) (left, w') \<and> (stays_up sys up \<and> up w \<longrightarrow> left \<noteq> None \<and> up w')"
proof -
  define w0 where "w0 = snd (sys_instant sys w)"
  let ?t = "fst (sys_instant sys w)"
  have t: "clock w \<le> ?t" "?t \<le> clock w0" "reads w0 = reads w"
    using clockD(3,4,5) [OF assms, of w] by (simp_all add: w0_def)
  have up: "stays_up sys up \<and> up w \<Longrightarrow> up w0" unfolding stays_up_def w0_def by blast
  obtain left w' where r: "wait_loop sys ?t w0 = Some (left, w')" "reads w' \<le> reads w0 + Suc 50" "clock w0 \<le> clock w'"
    "waited clock ?t (left, w')" "stays_up sys up \<and> up w0 \<longrightarrow> left \<noteq> None \<and> up w'"
    using wait_loop_returns [OF assms t(2), of 50 up] t(2) polls by auto
  then have "waited clock (clock w) (left, w')" using t(1) by (fastforce simp: waited_def)
  then show ?thesis using r t up by (auto simp: wait_for_detach_def split_beta Let_def w0_def [symmetric])
qed

lemma scheduler_drop_returns:
  assumes "clock_ok sys clock reads"
  shows "\<exists>left w'. scheduler_drop sys s w = Some (left, w') \<and> reads w' \<le> reads w + 51 \<and>
    (\<forall>name. left = Some name \<longrightarrow> ours name \<and> \<not> is_white (last name) \<and> clock w + 500000000 \<le> clock w')"
proof -
  define w0 where "w0 = (if tui_term s then sys_restore_terminal sys w else w)"
  have w0: "clock w \<le> clock w0" "reads w0 = reads w" using clockD(8,9) [OF assms, of w] by (simp_all add: w0_def)
  obtain left w1 where r: "wait_for_detach sys w0 = Some (left, w1)" "reads w1 \<le> reads w0 + 51"
    "waited clock (clock w0) (left, w1)" using wait_for_detach_returns [OF assms, of w0] by blast
  define w2 where "w2 = (if struct_ops_attached (sch_bpf s) then sys_detach sys w1 else w1)"
  have w2: "clock w1 \<le> clock (sys_unlock_memory sys w2)" "reads (sys_unlock_memory sys w2) = reads w1"
    using clockD(10,11) [OF assms, of w1] clockD(12,13) [OF assms, of w2] by (auto simp: w2_def)
  have "scheduler_drop sys s w = Some (left, sys_unlock_memory sys w2)"
    using r(1) by (simp add: scheduler_drop_def bpf_scheduler_drop_def Let_def w0_def [symmetric] w2_def)
  then show ?thesis using r w0 w2 by (auto simp: waited_def DETACH_WAIT_TIMEOUT_def)
qed

text \<open>
  C21. Dropping the scheduler ends whatever the system reports, after at most 51 reads of the file, and a name it
  reports as left over is one of this scheduler's, seen at least 500 ms after the drop began.
\<close>

theorem drop_waits_boundedly:
  assumes "clock_ok sys clock reads"
  shows "\<exists>left w'. scheduler_drop sys s w = Some (left, w') \<and> reads w' \<le> reads w + 51 \<and>
    (\<forall>name. left = Some name \<longrightarrow> ours name \<and> \<not> is_white (last name) \<and> clock w + 500000000 \<le> clock w')"
  by (rule scheduler_drop_returns [OF assms])

text \<open>
  A scheduler dropped while still attached, as unwinding from a panic does, waits for a detach that only happens
  after the wait: the whole timeout passes and the name is reported as left over.
\<close>

theorem drop_waits_before_detaching:
  assumes "clock_ok sys clock reads" and "stays_up sys up" and "up w"
  shows "\<exists>name w'. scheduler_drop sys s w = Some (Some name, w') \<and> ours name \<and> clock w + 500000000 \<le> clock w'"
proof -
  define w0 where "w0 = (if tui_term s then sys_restore_terminal sys w else w)"
  have "up w0" using assms(2,3) by (simp add: w0_def stays_up_def)
  then obtain left w1 where "wait_for_detach sys w0 = Some (left, w1)" "left \<noteq> None"
    using wait_for_detach_returns [OF assms(1), of w0 up] assms(2) by blast
  then obtain name w' where r: "scheduler_drop sys s w = Some (Some name, w')"
    by (auto simp: scheduler_drop_def Let_def w0_def [symmetric])
  then show ?thesis
    using scheduler_drop_returns [OF assms(1), of s w] by auto
qed

text \<open>A system that reports the scheduler until it is detached: the time, the reads made, and whether it is attached.\<close>

definition sysfs_example :: "(nat \<times> nat \<times> bool) sysfs" where
  "sysfs_example = \<lparr>
     read_root_ops = \<lambda>(t, n, up). (Inr (as_text (if up then ''cognis_1.0 '' else '' '')), (t + 1000, Suc n, up)),
     sys_instant = \<lambda>(t, n, up). (t, (t, n, up)), sys_sleep = \<lambda>d (t, n, up). (t + d, n, up),
     sys_restore_terminal = id, sys_detach = \<lambda>(t, n, up). (t, n, False), sys_unlock_memory = id\<rparr>"

lemma sysfs_example_ok: "clock_ok sysfs_example fst (\<lambda>w. fst (snd w))" "stays_up sysfs_example (\<lambda>w. snd (snd w))"
proof -
  show "clock_ok sysfs_example fst (\<lambda>w. fst (snd w))" by (simp add: clock_ok_def sysfs_example_def)
  have "current_root_ops_name (Inr (as_text ''cognis_1.0 '')) = Some (as_text ''cognis_1.0'')" by code_simp
  moreover have "ours (as_text ''cognis_1.0'')" by code_simp
  ultimately show "stays_up sysfs_example (\<lambda>w. snd (snd w))" by (simp add: stays_up_def sysfs_example_def)
qed

theorem drop_waits_boundedly_witness:
  "\<exists>s left w'. scheduler_new opts_default bpf_started 0 = Inr s \<and>
    scheduler_drop sysfs_example s (0, 0, False) = Some (left, w') \<and> fst (snd w') \<le> 51"
proof -
  obtain s where "scheduler_new opts_default bpf_started 0 = Inr s" using scheduler_new_ok [of opts_default bpf_started 0] by auto
  then show ?thesis using drop_waits_boundedly [OF sysfs_example_ok(1), of s "(0, 0, False)"] by auto
qed

theorem drop_waits_before_detaching_witness:
  "\<exists>s name w'. scheduler_new opts_default bpf_started 0 = Inr s \<and>
    scheduler_drop sysfs_example s (7, 0, True) = Some (Some name, w') \<and> 500000007 \<le> fst w'"
proof -
  obtain s where "scheduler_new opts_default bpf_started 0 = Inr s" using scheduler_new_ok [of opts_default bpf_started 0] by auto
  then show ?thesis
    using drop_waits_before_detaching [OF sysfs_example_ok, of "(7, 0, True)" s] by auto
qed

end
