(* ===== verification/Supervisor.thy ===== *)
theory Supervisor
  imports Startup
begin

text \<open>
  \<open>main\<close> of \<open>src/main.rs\<close>: what the options make the process do, and the loop that starts the scheduler, reads
  how it ended and decides between restarting, re-executing and exiting. One instance of the scheduler, from
  \<open>Scheduler::init\<close> to its drop, is one call of \<open>run_instance\<close>; its parts are modelled in the other theories.
\<close>

section \<open>How an instance ends\<close>

datatype payload = Static_Str scalars | Owned_String scalars | Other_Payload

text \<open>The result of \<open>catch_unwind\<close>: \<open>Ok(Ok(restart))\<close>, \<open>Ok(Err(message))\<close>, or the payload of a panic.\<close>

datatype outcome = Finished bool | Failed scalars | Panicked payload

definition panic_payload_to_string :: "payload \<Rightarrow> scalars" where
  "panic_payload_to_string p = (case p of
     Static_Str msg \<Rightarrow> msg | Owned_String msg \<Rightarrow> msg | Other_Payload \<Rightarrow> as_text ''unknown panic payload'')"

definition strip_prefix :: "scalars \<Rightarrow> scalars \<Rightarrow> scalars option" where
  "strip_prefix p s = (if prefix p s then Some (drop (length p) s) else None)"

definition runtime_exit_reason :: "scalars \<Rightarrow> scalars option" where
  "runtime_exit_reason msg = map_option trim (strip_prefix (as_text ''EXIT:'') msg)"

fun contains :: "scalars \<Rightarrow> scalars \<Rightarrow> bool" where
  "contains [] p = (p = [])"
| "contains (c # s) p = (prefix p (c # s) \<or> contains s p)"

definition is_watchdog_runtime_exit :: "scalars \<Rightarrow> bool" where
  "is_watchdog_runtime_exit reason \<longleftrightarrow>
     contains reason (as_text ''runnable task stall'') \<or> contains reason (as_text ''watchdog failed to check in'')"

section \<open>The process\<close>

text \<open>What is logged.\<close>

datatype warning =
    Watchdog_Exit scalars | Non_Restartable_Exit scalars | Panic_Detected u32 scalars | Reexec_Failed

datatype failure = Runtime_Exit scalars | Too_Many_Restarts scalars

text \<open>
  The process and the operating system. \<open>exec_self\<close> is True when the process image was replaced, which is the
  last thing this image does.
\<close>

record 'w process =
  shutdown_flag :: "'w \<Rightarrow> bool \<times> 'w"
  run_instance :: "'w \<Rightarrow> outcome \<times> 'w"
  wall_instant :: "'w \<Rightarrow> nat \<times> 'w"
  nap :: "nat \<Rightarrow> 'w \<Rightarrow> 'w"
  exec_self :: "'w \<Rightarrow> bool \<times> 'w"
  restore_terminal :: "'w \<Rightarrow> 'w"
  warn :: "warning \<Rightarrow> 'w \<Rightarrow> 'w"
  report_failure :: "failure \<Rightarrow> 'w \<Rightarrow> 'w"
  print_version :: "'w \<Rightarrow> 'w"
  describe_stats :: "'w \<Rightarrow> bool \<times> 'w"
  init_logger :: "'w \<Rightarrow> bool \<times> 'w"
  spawn_monitor :: "rat \<Rightarrow> 'w \<Rightarrow> 'w"
  join_monitor :: "'w \<Rightarrow> 'w"
  install_handlers :: "'w \<Rightarrow> bool \<times> 'w"

datatype main_end = Returned_Ok | Returned_Err | Exited "32 word" | Image_Replaced

definition RESTART_BACKOFF :: nat where "RESTART_BACKOFF = 250000000"
definition RAPID_FAILURE_WINDOW :: nat where "RAPID_FAILURE_WINDOW = 30000000000"
definition RAPID_FAILURE_LIMIT :: u32 where "RAPID_FAILURE_LIMIT = 20"
definition EXIT_CODE_SCHED_EXT_RUNTIME_FAILURE :: "32 word" where "EXIT_CODE_SCHED_EXT_RUNTIME_FAILURE = 86"

definition log_cognis_failure :: "'w process \<Rightarrow> failure \<Rightarrow> 'w \<Rightarrow> 'w" where
  "log_cognis_failure p reason w = report_failure p reason (restore_terminal p w)"

section \<open>The restart loop\<close>

record restarts =
  rapid_failures :: u32
  last_failure_at :: "nat option"

definition fresh :: restarts where "fresh = \<lparr>rapid_failures = 0, last_failure_at = None\<rparr>"

definition count_failure :: "restarts \<Rightarrow> nat \<Rightarrow> restarts" where
  "count_failure r now =
     \<lparr>rapid_failures = (case last_failure_at r of
        Some prev \<Rightarrow> if now - prev \<le> RAPID_FAILURE_WINDOW then sat_add (rapid_failures r) 1 else 1
      | None \<Rightarrow> 1),
      last_failure_at = Some now\<rparr>"

definition on_runtime_exit :: "'w process \<Rightarrow> scalars \<Rightarrow> 'w \<Rightarrow> main_end \<times> 'w" where
  "on_runtime_exit p reason w =
     (let w = restore_terminal p w;
          w = warn p (if is_watchdog_runtime_exit reason then Watchdog_Exit reason else Non_Restartable_Exit reason) w
      in (Exited EXIT_CODE_SCHED_EXT_RUNTIME_FAILURE, log_cognis_failure p (Runtime_Exit reason) w))"

definition on_panic :: "'w process \<Rightarrow> payload \<Rightarrow> restarts \<Rightarrow> 'w \<Rightarrow> (main_end + restarts) \<times> 'w" where
  "on_panic p pay r w =
     (let (now, w) = wall_instant p (restore_terminal p w);
          r = count_failure r now
      in if RAPID_FAILURE_LIMIT < rapid_failures r then
           (Inl (Exited 1), log_cognis_failure p (Too_Many_Restarts (panic_payload_to_string pay)) w)
         else
           let w = warn p (Panic_Detected (rapid_failures r) (panic_payload_to_string pay)) w;
               (replaced, w) = exec_self p (nap p RESTART_BACKOFF w)
           in if replaced then (Inl Image_Replaced, w) else (Inr r, warn p Reexec_Failed w))"

text \<open>One turn of the loop: an end of the process, or the state the loop goes on with.\<close>

definition supervise_step :: "'w process \<Rightarrow> restarts \<Rightarrow> 'w \<Rightarrow> (main_end + restarts) \<times> 'w" where
  "supervise_step p r w =
     (let (stop, w) = shutdown_flag p w in
      if stop then (Inl Returned_Ok, w)
      else let (ended, w) = run_instance p w in
        case ended of
          Finished restart \<Rightarrow> (if restart then Inr r else Inl Returned_Ok, w)
        | Failed msg \<Rightarrow>
            (case runtime_exit_reason msg of
               Some reason \<Rightarrow> (case on_runtime_exit p reason w of (e, w) \<Rightarrow> (Inl e, w))
             | None \<Rightarrow> (Inl Returned_Err, restore_terminal p w))
        | Panicked pay \<Rightarrow> on_panic p pay r w)"

partial_function (option) supervise :: "'w process \<Rightarrow> restarts \<Rightarrow> 'w \<Rightarrow> (main_end \<times> 'w) option" where
  "supervise p r w = (case supervise_step p r w of
     (Inl e, w) \<Rightarrow> Some (e, w)
   | (Inr r, w) \<Rightarrow> supervise p r w)"

text \<open>\<open>main\<close> after the options are parsed.\<close>

definition main_run :: "'w process \<Rightarrow> opts \<Rightarrow> 'w \<Rightarrow> (main_end \<times> 'w) option" where
  "main_run p cli w =
     (if version cli then Some (Returned_Ok, print_version p w)
      else if help_stats cli then
        (case describe_stats p w of (ok, w) \<Rightarrow> Some (if ok then Returned_Ok else Returned_Err, w))
      else case init_logger p w of (ok, w) \<Rightarrow>
        if \<not> ok then Some (Returned_Err, w)
        else let interval = (case monitor cli of Some i \<Rightarrow> Some i | None \<Rightarrow> stats cli);
                 w = (case interval of Some i \<Rightarrow> spawn_monitor p i w | None \<Rightarrow> w)
             in if monitor cli \<noteq> None then Some (Returned_Ok, join_monitor p w)
                else case install_handlers p w of (ok, w) \<Rightarrow>
                  if \<not> ok then Some (Returned_Err, w) else supervise p fresh w)"

section \<open>What the failure counter counts\<close>

text \<open>The length of the current burst: the latest failures, each within the window of the one before it.\<close>

fun burst :: "nat list \<Rightarrow> nat" where
  "burst [] = 0"
| "burst [t] = 1"
| "burst (t # prev # ts) = (if t - prev \<le> RAPID_FAILURE_WINDOW then Suc (burst (prev # ts)) else 1)"

text \<open>C28. The failure counter is the length of the current burst of failures, up to saturation.\<close>

theorem rapid_failures_counts_the_burst:
  "unat (rapid_failures (foldl count_failure fresh ts)) = min (burst (rev ts)) (2 ^ 32 - 1) \<and>
   last_failure_at (foldl count_failure fresh ts) = (if ts = [] then None else Some (last ts))"
proof (induction ts rule: rev_induct)
  case Nil
  show ?case by (simp add: fresh_def)
next
  case (snoc t ts)
  show ?case
  proof (cases "rev ts")
    case Nil
    then show ?thesis by (simp add: count_failure_def fresh_def)
  next
    case (Cons prev older)
    then have "ts \<noteq> []" "last ts = prev" by (auto simp: last_conv_nth rev_eq_Cons_iff)
    define r where "r = foldl count_failure fresh ts"
    have "unat (rapid_failures r) = min (burst (prev # older)) (2 ^ 32 - 1)" "last_failure_at r = Some prev"
      using snoc Cons \<open>ts \<noteq> []\<close> \<open>last ts = prev\<close> by (simp_all add: r_def)
    then have "unat (rapid_failures (count_failure r t)) = min (burst (t # prev # older)) (2 ^ 32 - 1)"
      by (auto simp: count_failure_def unat_sat_add min_def)
    then show ?thesis using Cons by (simp add: r_def) (simp add: count_failure_def)
  qed
qed

section \<open>Ends of the process\<close>

lemma supervise_ends: "supervise_step p r w = (Inl e, w') \<Longrightarrow> supervise p r w = Some (e, w')"
  by (subst supervise.simps) simp

lemma supervise_goes_on: "supervise_step p r w = (Inr r', w') \<Longrightarrow> supervise p r w = supervise p r' w'"
  by (subst supervise.simps) simp

lemma prefix_exit: "runtime_exit_reason (as_text ''EXIT:'' @ reason) = Some (trim reason)"
  by (simp add: runtime_exit_reason_def strip_prefix_def)

text \<open>
  C12. An exit that sched_ext reports is never followed by a restart: whatever failures came before, the process
  restores the terminal, reports the reason without its white space, and exits with code 86.
\<close>

theorem runtime_exit_never_restarts:
  assumes "\<not> fst (shutdown_flag p w)"
    and "run_instance p (snd (shutdown_flag p w)) = (Failed (as_text ''EXIT:'' @ reason), w1)"
  shows "\<exists>logged. supervise p r w = Some (Exited 86, report_failure p (Runtime_Exit (trim reason))
      (restore_terminal p (warn p logged (restore_terminal p w1)))) \<and>
    (logged = Watchdog_Exit (trim reason) \<longleftrightarrow> is_watchdog_runtime_exit (trim reason))"
proof -
  define logged where
    "logged = (if is_watchdog_runtime_exit (trim reason) then Watchdog_Exit (trim reason) else Non_Restartable_Exit (trim reason))"
  have "supervise_step p r w = (Inl (Exited 86), report_failure p (Runtime_Exit (trim reason))
      (restore_terminal p (warn p logged (restore_terminal p w1))))"
    using assms by (simp add: supervise_step_def split_beta Let_def prefix_exit on_runtime_exit_def logged_def
        log_cognis_failure_def EXIT_CODE_SCHED_EXT_RUNTIME_FAILURE_def)
  from supervise_ends [OF this] show ?thesis by (auto simp: logged_def)
qed

text \<open>A process whose instances end the way the list says; the world is the rest of the list, the time, the attempts.\<close>

definition scripted :: "bool \<Rightarrow> bool \<Rightarrow> (outcome list \<times> nat \<times> nat) process" where
  "scripted stop execs = \<lparr>
     shutdown_flag = \<lambda>w. (stop, w),
     run_instance = \<lambda>(os, t, n). (case os of [] \<Rightarrow> (Panicked Other_Payload, ([], t + 5, Suc n))
        | ended # os \<Rightarrow> (ended, (os, t + 5, Suc n))),
     wall_instant = \<lambda>(os, t, n). (t, (os, t, n)), nap = \<lambda>d (os, t, n). (os, t + d, n), exec_self = \<lambda>w. (execs, w),
     restore_terminal = id, warn = \<lambda>_. id, report_failure = \<lambda>_. id, print_version = id, describe_stats = \<lambda>w. (True, w),
     init_logger = \<lambda>w. (True, w), spawn_monitor = \<lambda>_. id, join_monitor = id, install_handlers = \<lambda>w. (True, w)\<rparr>"

theorem runtime_exit_never_restarts_witness:
  "supervise (scripted False False) fresh ([Failed (as_text ''EXIT: runnable task stall ''), Finished True], 0, 0) =
     Some (Exited 86, ([Finished True], 5, 1))"
proof -
  have "as_text ''EXIT: runnable task stall '' = as_text ''EXIT:'' @ as_text '' runnable task stall ''" by (simp add: as_text_def)
  then show ?thesis
    using runtime_exit_never_restarts [of "scripted False False"
        "([Failed (as_text ''EXIT: runnable task stall ''), Finished True], 0, 0)" "as_text '' runnable task stall ''"
        "([Finished True], 5, 1)" fresh]
    by (auto simp: scripted_def)
qed

section \<open>Repeated panics\<close>

definition only_panics :: "'w process \<Rightarrow> bool" where
  "only_panics p \<longleftrightarrow> (\<forall>w. \<exists>pay. fst (run_instance p w) = Panicked pay)"

text \<open>\<open>attempts\<close> counts the instances that were run.\<close>

definition counts_attempts :: "'w process \<Rightarrow> ('w \<Rightarrow> nat) \<Rightarrow> bool" where
  "counts_attempts p attempts \<longleftrightarrow> (\<forall>w.
     attempts (snd (run_instance p w)) = Suc (attempts w) \<and> attempts (snd (shutdown_flag p w)) = attempts w \<and>
     attempts (snd (wall_instant p w)) = attempts w \<and> attempts (snd (exec_self p w)) = attempts w \<and>
     attempts (restore_terminal p w) = attempts w \<and> (\<forall>d. attempts (nap p d w) = attempts w) \<and>
     (\<forall>m. attempts (warn p m w) = attempts w) \<and> (\<forall>m. attempts (report_failure p m w) = attempts w))"

lemma attemptsD:
  assumes "counts_attempts p attempts"
  shows "attempts (snd (run_instance p w)) = Suc (attempts w)" "attempts (snd (shutdown_flag p w)) = attempts w"
    "attempts (snd (wall_instant p w)) = attempts w" "attempts (snd (exec_self p w)) = attempts w"
    "attempts (restore_terminal p w) = attempts w" "attempts (nap p d w) = attempts w"
    "attempts (warn p m w) = attempts w" "attempts (report_failure p f w) = attempts w"
  using assms unfolding counts_attempts_def by blast+

text \<open>When a turn of the loop that starts here notes the panic.\<close>

definition fails_at :: "'w process \<Rightarrow> 'w \<Rightarrow> nat" where
  "fails_at p w = fst (wall_instant p (restore_terminal p (snd (run_instance p (snd (shutdown_flag p w))))))"

lemma panicking_step:
  assumes "only_panics p" and "counts_attempts p attempts"
  obtains (stopped) w' where "fst (shutdown_flag p w)" "supervise_step p r w = (Inl Returned_Ok, w')"
  | (gave_up) w' where "\<not> fst (shutdown_flag p w)" "RAPID_FAILURE_LIMIT < rapid_failures (count_failure r (fails_at p w))"
      "supervise_step p r w = (Inl (Exited 1), w')" "attempts w' = Suc (attempts w)"
  | (went_on) b w1 w' where "\<not> fst (shutdown_flag p w)" "rapid_failures (count_failure r (fails_at p w)) \<le> RAPID_FAILURE_LIMIT"
      "b = fst (exec_self p w1)" "attempts w' = Suc (attempts w)"
      "supervise_step p r w = (if b then Inl Image_Replaced else Inr (count_failure r (fails_at p w)), w')"
proof -
  note attemptsD = attemptsD [OF assms(2)]
  define w1 where "w1 = snd (run_instance p (snd (shutdown_flag p w)))"
  define w2 where "w2 = snd (wall_instant p (restore_terminal p w1))"
  obtain pay where pay: "run_instance p (snd (shutdown_flag p w)) = (Panicked pay, w1)"
    using assms(1) unfolding only_panics_def w1_def by (metis prod.collapse)
  have now: "wall_instant p (restore_terminal p w1) = (fails_at p w, w2)" by (simp add: fails_at_def w1_def w2_def)
  have n: "attempts w1 = Suc (attempts w)" "attempts w2 = attempts w1"
    using attemptsD(1,2,3,5) by (simp_all add: w1_def w2_def)
  let ?r = "count_failure r (fails_at p w)"
  define msg where "msg = panic_payload_to_string pay"
  show ?thesis
  proof (cases "fst (shutdown_flag p w)")
    case True
    then show ?thesis by (auto simp: supervise_step_def split_beta Let_def intro: stopped)
  next
    case False
    have step: "supervise_step p r w = on_panic p pay r w1"
      using False pay by (simp add: supervise_step_def split_beta Let_def)
    show ?thesis
    proof (cases "RAPID_FAILURE_LIMIT < rapid_failures ?r")
      case True
      show ?thesis
        by (rule gave_up [OF False True, of "log_cognis_failure p (Too_Many_Restarts msg) w2"])
          (use True n in \<open>simp_all add: step on_panic_def now Let_def msg_def log_cognis_failure_def attemptsD\<close>)
    next
      case within: False
      define w3 where "w3 = nap p RESTART_BACKOFF (warn p (Panic_Detected (rapid_failures ?r) msg) w2)"
      have n3: "attempts (snd (exec_self p w3)) = Suc (attempts w)" using n by (simp add: w3_def attemptsD)
      show ?thesis
        by (rule went_on [OF False, of "fst (exec_self p w3)" w3
              "if fst (exec_self p w3) then snd (exec_self p w3) else warn p Reexec_Failed (snd (exec_self p w3))"])
          (use within n3 in \<open>simp_all add: step on_panic_def now Let_def msg_def [symmetric] w3_def [symmetric]
              split_beta attemptsD not_less\<close>)
    qed
  qed
qed

definition rapid :: "'w process \<Rightarrow> restarts \<Rightarrow> 'w \<Rightarrow> bool" where
  "rapid p r w \<longleftrightarrow> (case last_failure_at r of
     None \<Rightarrow> rapid_failures r = 0 | Some prev \<Rightarrow> fails_at p w - prev \<le> RAPID_FAILURE_WINDOW)"

definition panics_in_quick_succession :: "'w process \<Rightarrow> bool" where
  "panics_in_quick_succession p \<longleftrightarrow> only_panics p \<and>
     (\<forall>r w r' w'. supervise_step p r w = (Inr r', w') \<longrightarrow> fails_at p w' \<le> fails_at p w + RAPID_FAILURE_WINDOW)"

lemma burst_ends:
  assumes "panics_in_quick_succession p" and "counts_attempts p attempts" and "\<And>w. \<not> fst (exec_self p w)"
    and "rapid p r w" and "unat (rapid_failures r) + n = 20"
  shows "\<exists>e w'. supervise p r w = Some (e, w') \<and> (e = Returned_Ok \<or> e = Exited 1 \<and> attempts w' = attempts w + Suc n)"
  using assms(4,5)
proof (induction n arbitrary: r w)
  let ?goes = "\<lambda>r w. count_failure r (fails_at p w)"
  have panics: "only_panics p" using assms(1) by (simp add: panics_in_quick_succession_def)
  have counted: "unat (rapid_failures (?goes r w)) = Suc (unat (rapid_failures r))"
    if "rapid p r w" "unat (rapid_failures r) \<le> 20" for r w
    using that by (auto simp: rapid_def count_failure_def unat_sat_add split: option.splits)
  {
    case (0 r w)
    from 0 counted [OF 0(1)] have "unat (rapid_failures (?goes r w)) = 21" by simp
    then have "RAPID_FAILURE_LIMIT < rapid_failures (?goes r w)" by (simp add: word_less_nat_alt RAPID_FAILURE_LIMIT_def)
    then show ?case
      by (cases rule: panicking_step [OF panics assms(2), of w r]) (auto dest: supervise_ends)
  next
    case (Suc n r w)
    have c: "unat (rapid_failures (?goes r w)) = Suc (unat (rapid_failures r))" using Suc.prems by (intro counted) simp_all
    then have low: "\<not> RAPID_FAILURE_LIMIT < rapid_failures (?goes r w)"
      using Suc.prems by (simp add: word_less_nat_alt RAPID_FAILURE_LIMIT_def)
    show ?case
    proof (rule panicking_step [OF panics assms(2), of w r], goal_cases)
      case went_on: (3 b w1 w')
      then have step: "supervise_step p r w = (Inr (?goes r w), w')" using assms(3) by simp
      then have "fails_at p w' \<le> fails_at p w + RAPID_FAILURE_WINDOW"
        using assms(1) by (simp add: panics_in_quick_succession_def)
      then have "rapid p (?goes r w) w'" by (simp add: rapid_def count_failure_def)
      moreover have "unat (rapid_failures (?goes r w)) + n = 20" using c Suc.prems by simp
      ultimately show ?thesis using Suc.IH [of "?goes r w" w'] went_on(4) supervise_goes_on [OF step] by auto
    qed (use low in \<open>auto dest: supervise_ends\<close>)
  }
qed

text \<open>
  C20. A scheduler that panics again and again, each time within 30 seconds of the last and with no way to re-execute,
  is given up after 21 attempts with exit code 1, unless a signal stops the process first.
\<close>

theorem restarts_in_place_are_bounded:
  assumes "panics_in_quick_succession p" and "counts_attempts p attempts" and "\<And>w. \<not> fst (exec_self p w)"
  shows "\<exists>e w'. supervise p fresh w = Some (e, w') \<and> (e = Returned_Ok \<or> e = Exited 1 \<and> attempts w' = attempts w + 21)"
  using burst_ends [OF assms, of fresh w 20] by (simp add: fresh_def rapid_def)

text \<open>A process whose scheduler always panics; the world is the time and the number of attempts.\<close>

definition crashing :: "bool \<Rightarrow> (nat \<times> nat) process" where
  "crashing execs = \<lparr>
     shutdown_flag = \<lambda>w. (False, w), run_instance = \<lambda>(t, n). (Panicked Other_Payload, (t + 5, Suc n)),
     wall_instant = \<lambda>(t, n). (t, (t, n)), nap = \<lambda>d (t, n). (t + d, n), exec_self = \<lambda>w. (execs, w),
     restore_terminal = id, warn = \<lambda>_. id, report_failure = \<lambda>_. id, print_version = id, describe_stats = \<lambda>w. (True, w),
     init_logger = \<lambda>w. (True, w), spawn_monitor = \<lambda>_. id, join_monitor = id, install_handlers = \<lambda>w. (True, w)\<rparr>"

lemma crashing_ok: "panics_in_quick_succession (crashing execs)" "counts_attempts (crashing execs) snd"
proof -
  show "panics_in_quick_succession (crashing execs)"
    by (auto simp: panics_in_quick_succession_def only_panics_def fails_at_def supervise_step_def on_panic_def
        crashing_def Let_def RAPID_FAILURE_WINDOW_def RESTART_BACKOFF_def split: if_splits)
qed (simp add: counts_attempts_def crashing_def)

theorem restarts_in_place_are_bounded_witness:
  "\<exists>e w'. supervise (crashing False) fresh (0, 0) = Some (e, w') \<and> (e = Returned_Ok \<or> e = Exited 1 \<and> snd w' = 21)"
  using restarts_in_place_are_bounded [OF crashing_ok, of False "(0, 0)"] by (simp add: crashing_def)

text \<open>Process images one after the other: each that replaces itself is followed by the next, with the same options.\<close>

fun images :: "nat \<Rightarrow> 'w process \<Rightarrow> opts \<Rightarrow> 'w \<Rightarrow> (main_end \<times> 'w) option" where
  "images 0 p cli w = Some (Image_Replaced, w)"
| "images (Suc n) p cli w = (case main_run p cli w of
     Some (e, w) \<Rightarrow> if e = Image_Replaced then images n p cli w else Some (e, w)
   | None \<Rightarrow> None)"

definition starts_supervisor :: "'w process \<Rightarrow> opts \<Rightarrow> ('w \<Rightarrow> nat) \<Rightarrow> bool" where
  "starts_supervisor p cli attempts \<longleftrightarrow> \<not> version cli \<and> \<not> help_stats cli \<and> monitor cli = None \<and>
     (\<forall>w. fst (init_logger p w) \<and> attempts (snd (init_logger p w)) = attempts w \<and>
       fst (install_handlers p w) \<and> attempts (snd (install_handlers p w)) = attempts w \<and>
       (\<forall>i. attempts (spawn_monitor p i w) = attempts w))"

lemma main_supervises:
  assumes "starts_supervisor p cli attempts"
  shows "\<exists>w1. main_run p cli w = supervise p fresh w1 \<and> attempts w1 = attempts w"
proof -
  define w1 where "w1 = snd (init_logger p w)"
  define w2 where "w2 = (case stats cli of Some i \<Rightarrow> spawn_monitor p i w1 | None \<Rightarrow> w1)"
  have "main_run p cli w = supervise p fresh (snd (install_handlers p w2))"
    using assms by (simp add: starts_supervisor_def main_run_def split_beta w1_def w2_def Let_def split: option.splits)
  moreover have "attempts (snd (install_handlers p w2)) = attempts w"
    using assms by (simp add: starts_supervisor_def w1_def w2_def split: option.splits)
  ultimately show ?thesis by blast
qed

text \<open>
  When re-executing works, the count of failures starts again at 0 in the new image: however fast and often the
  scheduler panics, the limit of 20 is never reached and the process never gives up.
\<close>

theorem reexec_defeats_the_limit:
  assumes "starts_supervisor p cli attempts" and "only_panics p" and "counts_attempts p attempts"
    and "\<And>w. \<not> fst (shutdown_flag p w)" and "\<And>w. fst (exec_self p w)"
  shows "\<exists>w'. images n p cli w = Some (Image_Replaced, w') \<and> attempts w' = attempts w + n"
proof (induction n arbitrary: w)
  case (Suc n)
  obtain w1 where w1: "main_run p cli w = supervise p fresh w1" "attempts w1 = attempts w"
    using main_supervises [OF assms(1)] by blast
  have first: "rapid_failures (count_failure fresh t) = 1" for t by (simp add: count_failure_def fresh_def)
  obtain w2 where "main_run p cli w = Some (Image_Replaced, w2)" "attempts w2 = Suc (attempts w)"
    by (rule panicking_step [OF assms(2,3), of w1 fresh])
      (use assms(4,5) first w1 in \<open>auto simp: RAPID_FAILURE_LIMIT_def dest!: supervise_ends\<close>)
  then show ?case using Suc.IH [of w2] by simp
qed simp

theorem reexec_defeats_the_limit_witness:
  "\<exists>w'. images 1000 (crashing True) opts_default (0, 0) = Some (Image_Replaced, w') \<and> snd w' = 1000"
proof -
  have "starts_supervisor (crashing True) opts_default snd"
    by (simp add: starts_supervisor_def crashing_def opts_default_def)
  moreover have "only_panics (crashing True)" using crashing_ok(1) by (simp add: panics_in_quick_succession_def)
  ultimately show ?thesis
    using reexec_defeats_the_limit [OF _ _ crashing_ok(2), of True opts_default 1000 "(0, 0)"] by (simp add: crashing_def)
qed

end
