(* ===== verification/Lifecycle.thy ===== *)
theory Lifecycle
  imports Main_Run Startup Supervisor
begin

text \<open>
  One instance of the scheduler as the closure in \<open>main\<close> of \<open>src/main.rs\<close> runs it: \<open>Scheduler::init\<close>, \<open>run\<close>
  with its exit report, and the drop. The lemmas compose those of the parts into what holds from start to end.
\<close>

record 'w machine =
  mc_os :: "'w os"
  mc_host :: "'w host"
  mc_sys :: "'w sysfs"
  mc_works :: "boot_call \<Rightarrow> bool"
  mc_platform :: platform
  mc_probe :: "unit + topology"
  mc_init_error :: "boot_call \<Rightarrow> scalars"
  mc_report :: "'w \<Rightarrow> outcome \<times> 'w"

text \<open>
  \<open>mc_report\<close> is \<open>uei_report\<close> with \<open>should_restart\<close>, \<open>mc_init_error\<close> the message of the error a failed call gives.
  A fault in the result is a panic, whose unwinding is not followed further here.
\<close>

definition run_one :: "'w machine \<Rightarrow> opts \<Rightarrow> nat \<Rightarrow> 'w \<Rightarrow> (fault + outcome \<times> 'w) option" where
  "run_one m cli now w =
     (case scheduler_init (mc_works m) (mc_platform m) (mc_probe m) cli now [] of
        Inl e \<Rightarrow> Some (Inl e)
      | Inr (Inl failed, calls) \<Rightarrow> Some (Inr (Failed (mc_init_error m failed), w))
      | Inr (Inr s, calls) \<Rightarrow>
          (case run (mc_os m) (mc_host m) (s, w) of
             None \<Rightarrow> None
           | Some (Inl e) \<Rightarrow> Some (Inl e)
           | Some (Inr (_, (s, w))) \<Rightarrow>
               (case mc_report m w of (ended, w) \<Rightarrow>
                case scheduler_drop (mc_sys m) s w of
                  None \<Rightarrow> None
                | Some (_, w) \<Rightarrow> Some (Inr (ended, w)))))"

text \<open>Shutting down touches neither task ring.\<close>

definition quiet_exit :: "'w machine \<Rightarrow> ('w \<Rightarrow> u8 list list) \<Rightarrow> ('w \<Rightarrow> u8 list list) \<Rightarrow> bool" where
  "quiet_exit m rx tx \<longleftrightarrow>
     silent rx tx (\<lambda>w. snd (mc_report m w)) \<and> silent rx tx (\<lambda>w. snd (read_root_ops (mc_sys m) w)) \<and>
     silent rx tx (\<lambda>w. snd (sys_instant (mc_sys m) w)) \<and> (\<forall>d. silent rx tx (sys_sleep (mc_sys m) d)) \<and>
     silent rx tx (sys_restore_terminal (mc_sys m)) \<and> silent rx tx (sys_detach (mc_sys m)) \<and>
     silent rx tx (sys_unlock_memory (mc_sys m))"

lemma quietD:
  assumes "quiet_exit m rx tx"
  shows "rx (snd (mc_report m w)) = rx w" "tx (snd (mc_report m w)) = tx w"
    "rx (snd (read_root_ops (mc_sys m) w)) = rx w" "tx (snd (read_root_ops (mc_sys m) w)) = tx w"
    "rx (snd (sys_instant (mc_sys m) w)) = rx w" "tx (snd (sys_instant (mc_sys m) w)) = tx w"
    "rx (sys_sleep (mc_sys m) d w) = rx w" "tx (sys_sleep (mc_sys m) d w) = tx w"
    "rx (sys_restore_terminal (mc_sys m) w) = rx w" "tx (sys_restore_terminal (mc_sys m) w) = tx w"
    "rx (sys_detach (mc_sys m) w) = rx w" "tx (sys_detach (mc_sys m) w) = tx w"
    "rx (sys_unlock_memory (mc_sys m) w) = rx w" "tx (sys_unlock_memory (mc_sys m) w) = tx w"
  using assms by (simp_all add: quiet_exit_def silent_def)

lemma wait_loop_quiet:
  assumes "quiet_exit m rx tx" and "wait_loop (mc_sys m) started w = Some r"
  shows "rx (snd r) = rx w \<and> tx (snd r) = tx w"
proof (rule wait_loop.raw_induct [where P = "\<lambda>sys started w r. sys = mc_sys m \<longrightarrow> rx (snd r) = rx w \<and> tx (snd r) = tx w",
      OF _ assms(2), rule_format, OF _ refl], goal_cases)
  case (1 f sys started w r)
  note quietD [OF assms(1)]
  then show ?case using 1
    by (auto simp: split_beta Let_def split: option.splits if_splits)
qed

lemma scheduler_drop_quiet:
  assumes "quiet_exit m rx tx" and "scheduler_drop (mc_sys m) s w = Some (left, w')"
  shows "rx w' = rx w \<and> tx w' = tx w"
  using assms(2) wait_loop_quiet [OF assms(1)] quietD [OF assms(1)]
  by (auto simp: scheduler_drop_def bpf_scheduler_drop_def wait_for_detach_def Let_def split_beta split: option.splits if_splits)

lemma scheduler_drop_unlocks:
  "scheduler_drop sys s w = Some (left, w') \<Longrightarrow> \<exists>w1. w' = sys_unlock_memory sys w1"
  by (auto simp: scheduler_drop_def bpf_scheduler_drop_def Let_def split: option.splits)

text \<open>
  The instance is ended at some time: from any well-formed scheduler with nothing queued, in the world \<open>w\<close>, the loop
  gets to an iteration that ends it, because the shutdown flag is set, because the kernel has exited the scheduler or
  because the user quits.
\<close>

definition is_ended :: "'w machine \<Rightarrow> 'w \<Rightarrow> bool" where
  "is_ended m w \<longleftrightarrow> (\<forall>s. sched_ok s \<and> backlog s = [] \<longrightarrow>
     (\<exists>s' w' hk' st. reachable (mc_os m) (mc_host m) (s, snd (os_instant (mc_os m) w), fst (os_instant (mc_os m) w)) (s', w', hk') \<and>
        run_iteration (mc_os m) (mc_host m) hk' (s', w') = Inr (None, st)))"

lemma instance_ends:
  assumes "libbpf_ok (mc_os m) rx tx" and "host_ok (mc_host m) rx tx" and "clock_ok (mc_sys m) clock reads"
    and "quiet_exit m rx tx" and "probe_counts (mc_probe m)" and "compiled_name (mc_platform m) \<noteq> []"
    and "is_ended m w"
  shows "\<exists>ended w'. run_one m cli now w = Some (Inr (ended, w')) \<and>
    ((\<exists>failed. ended = Failed (mc_init_error m failed) \<and> \<not> answered (mc_platform m) (mc_works m) failed \<and> w' = w) \<or>
     (\<exists>ins outs. rx w' = rx w @ ins \<and> tx w' = tx w @ outs \<and>
        mset (map dident (submitted outs)) \<subseteq># mset (map ident (received ins))) \<and>
     (\<exists>w1 w2. ended = fst (mc_report m w1) \<and> w' = sys_unlock_memory (mc_sys m) w2))"
proof -
  obtain topo where topo: "detect (mc_probe m) = Inr topo" using detect_returns [OF assms(5)] .
  obtain r calls where init: "scheduler_init (mc_works m) (mc_platform m) (mc_probe m) cli now [] = Inr (r, calls)"
    "booted (answered (mc_platform m) (mc_works m))
       (ready (answered (mc_platform m) (mc_works m)) (mc_platform m) cli topo) r calls"
    using wp_scheduler_init [OF topo assms(6), of "mc_works m" cli now] by (auto simp: wp_iff)
  show ?thesis
  proof (cases r)
    case (Inl failed)
    then show ?thesis using init by (auto simp: run_one_def booted_Inl)
  next
    case (Inr s)
    then have s: "sched_ok s" "backlog s = []" using init(2) by (simp_all add: booted_Inr ready_def)
    then obtain s' w' hk' st where reach: "reachable (mc_os m) (mc_host m)
        (s, snd (os_instant (mc_os m) w), fst (os_instant (mc_os m) w)) (s', w', hk')"
      "run_iteration (mc_os m) (mc_host m) hk' (s', w') = Inr (None, st)" using assms(7) unfolding is_ended_def by blast
    from run_ends [OF assms(1,2) s(1) reach] obtain s1 w1 ins outs where
      run: "run (mc_os m) (mc_host m) (s, w) = Some (Inr ((), (s1, w1)))" and
      log: "rx w1 = rx w @ ins" "tx w1 = tx w @ outs"
        "queued_idents s + mset (map ident (received ins)) = queued_idents s1 + mset (map dident (submitted outs))"
      by blast
    define w2 where "w2 = snd (mc_report m w1)"
    obtain left w3 where drop: "scheduler_drop (mc_sys m) s1 w2 = Some (left, w3)"
      using scheduler_drop_returns [OF assms(3), of s1 w2] by blast
    have "run_one m cli now w = Some (Inr (fst (mc_report m w1), w3))"
      using init(1) Inr run drop by (simp add: run_one_def w2_def split_beta)
    moreover have "rx w3 = rx w @ ins" "tx w3 = tx w @ outs"
      using scheduler_drop_quiet [OF assms(4) drop] quietD(1,2) [OF assms(4)] log by (simp_all add: w2_def)
    moreover have "mset (map dident (submitted outs)) \<subseteq># mset (map ident (received ins))"
      using log(3) s(2) by (simp add: queued_idents_def)
    moreover obtain w4 where "w3 = sys_unlock_memory (mc_sys m) w4" using scheduler_drop_unlocks [OF drop] ..
    ultimately show ?thesis by blast
  qed
qed

text \<open>
  C9. An instance runs to its end: when it is ended, by a stop request, by the kernel's exit or by the user, it returns
  without a panic, with its start-up error or with what the kernel reports on exit. In the latter case it handed back
  over its whole life only tasks it had received, each at most as often as it was received, and the last thing it did
  was to unlock its memory.
\<close>

theorem instance_runs_to_its_end:
  assumes "libbpf_ok (mc_os m) rx tx" and "host_ok (mc_host m) rx tx" and "clock_ok (mc_sys m) clock reads"
    and "quiet_exit m rx tx" and "probe_counts (mc_probe m)" and "compiled_name (mc_platform m) \<noteq> []"
    and "is_ended m w"
  shows "\<exists>ended w'. run_one m cli now w = Some (Inr (ended, w')) \<and>
    ((\<exists>failed. ended = Failed (mc_init_error m failed) \<and> \<not> answered (mc_platform m) (mc_works m) failed \<and> w' = w) \<or>
     (\<exists>ins outs. rx w' = rx w @ ins \<and> tx w' = tx w @ outs \<and>
        mset (map dident (submitted outs)) \<subseteq># mset (map ident (received ins))) \<and>
     (\<exists>w1 w2. ended = fst (mc_report m w1) \<and> w' = sys_unlock_memory (mc_sys m) w2))"
  by (rule instance_ends [OF assms])

text \<open>A machine on which nothing happens but that the kernel exits the scheduler; the world is the time and the number of reads.\<close>

definition idle_os :: "(nat \<times> nat) os" where
  "idle_os = \<lparr>os_now = \<lambda>w. (5000, w), os_instant = \<lambda>w. (fst w, w), os_counter = \<lambda>c w. (1, w),
     os_set_counter = \<lambda>c v w. w, os_consume_queued = \<lambda>w. ((None, \<lambda>c. 0), w),
     os_consume_exits = \<lambda>w. ((None, \<lambda>c. 0), w), os_reserve = \<lambda>n w. (Inl 12, w), os_submit = \<lambda>b w. (Inl 12, w),
     os_discard = \<lambda>b w. w, os_yield = \<lambda>w. w, os_shutdown = \<lambda>w. (False, w), os_uei_exited = \<lambda>w. (True, w)\<rparr>"

definition idle_machine :: "(nat \<times> nat) machine" where
  "idle_machine = \<lparr>mc_os = idle_os,
     mc_host = \<lparr>host_page_faults = \<lambda>w. (Inr 0, w), host_stats_request = \<lambda>w. (False, w), host_stats_send = \<lambda>m w. (True, w),
       host_events = \<lambda>w. ([], w), host_draw = \<lambda>d w. w, host_sleep = \<lambda>w. w\<rparr>,
     mc_sys = \<lparr>read_root_ops = \<lambda>(t, n). (Inl (), (t, Suc n)), sys_instant = \<lambda>w. (fst w, w), sys_sleep = \<lambda>d (t, n). (t + d, n),
       sys_restore_terminal = id, sys_detach = id, sys_unlock_memory = id\<rparr>,
     mc_works = \<lambda>_. True, mc_platform = platform_example, mc_probe = Inl (), mc_init_error = \<lambda>_. [],
     mc_report = \<lambda>w. (Finished True, w)\<rparr>"

lemma idle_machine_ok:
  "libbpf_ok (mc_os idle_machine) (\<lambda>_. []) (\<lambda>_. [])" "host_ok (mc_host idle_machine) (\<lambda>_. []) (\<lambda>_. [])"
  "clock_ok (mc_sys idle_machine) fst snd" "quiet_exit idle_machine (\<lambda>_. []) (\<lambda>_. [])"
  by (auto simp: idle_machine_def idle_os_def libbpf_ok_def silent_def consume_ok_def reserve_ok_def submit_ok_def
      host_ok_def clock_ok_def quiet_exit_def)

lemma idle_machine_starts: "probe_counts (mc_probe idle_machine)" "compiled_name (mc_platform idle_machine) \<noteq> []"
  by (simp_all add: probe_counts_def idle_machine_def platform_example_def)

lemma idle_machine_stops: "is_ended idle_machine w"
proof -
  have "wp (run_iteration (mc_os idle_machine) (mc_host idle_machine) hk) (\<lambda>r _. r = None) (s, w)" for s hk
    by (simp add: run_iteration_def bpf_exited_def wp_simps idle_machine_def idle_os_def)
  then have "\<exists>st. run_iteration (mc_os idle_machine) (mc_host idle_machine) hk (s, w) = Inr (None, st)" for s hk
    by (auto simp: wp_iff)
  moreover have "snd (os_instant (mc_os idle_machine) w) = w" by (simp add: idle_machine_def idle_os_def)
  ultimately show ?thesis unfolding is_ended_def using reachable.start by metis
qed

theorem instance_runs_to_its_end_witness:
  "\<exists>ended w'. run_one idle_machine opts_default 0 (0, 0) = Some (Inr (ended, w'))"
  using instance_runs_to_its_end [OF idle_machine_ok idle_machine_starts idle_machine_stops] by blast

section \<open>The process that supervises such instances\<close>

text \<open>A process whose instances are those of the machine. An instance that panics or does not return is a panic here.\<close>

definition supervising :: "'w machine \<Rightarrow> opts \<Rightarrow> nat \<Rightarrow> 'w process \<Rightarrow> 'w process" where
  "supervising m cli now p = p\<lparr>run_instance := \<lambda>w. case run_one m cli now w of
     Some (Inr r) \<Rightarrow> r
   | _ \<Rightarrow> (Panicked Other_Payload, w)\<rparr>"

definition reports_no_panic :: "'w machine \<Rightarrow> bool" where
  "reports_no_panic m \<longleftrightarrow> (\<forall>w pay. fst (mc_report m w) \<noteq> Panicked pay)"



end
