(* ===== verification/Terminal.thy ===== *)
theory Terminal
  imports Bpf_Scheduler
begin

text \<open>
  Setting up and restoring the terminal (\<open>src/tui/dashboard.rs\<close>): \<open>setup_terminal\<close>, \<open>restore_terminal\<close> and
  \<open>emergency_restore_terminal\<close> with the flag they share. Every terminal call can fail; a batch of commands that
  fails may have taken effect up to some point. The lemmas show when the terminal is left as it was found.
\<close>

section \<open>The terminal\<close>

record screen =
  raw_mode :: bool
  alternate_screen :: bool
  mouse_capture :: bool
  cursor_hidden :: bool
  TUI_TERMINAL_ACTIVE :: bool

definition untouched :: screen where
  "untouched = \<lparr>raw_mode = False, alternate_screen = False, mouse_capture = False, cursor_hidden = False,
     TUI_TERMINAL_ACTIVE = False\<rparr>"

datatype command = Enter_Alternate_Screen | Enable_Mouse | Leave_Alternate_Screen | Disable_Mouse | Show

fun effect :: "command \<Rightarrow> screen \<Rightarrow> screen" where
  "effect Enter_Alternate_Screen t = t\<lparr>alternate_screen := True\<rparr>"
| "effect Enable_Mouse t = t\<lparr>mouse_capture := True\<rparr>"
| "effect Leave_Alternate_Screen t = t\<lparr>alternate_screen := False\<rparr>"
| "effect Disable_Mouse t = t\<lparr>mouse_capture := False\<rparr>"
| "effect Show t = t\<lparr>cursor_hidden := False\<rparr>"

text \<open>\<open>tty_execute\<close> is None when the whole batch took effect, otherwise how many commands did.\<close>

record 'w tty =
  tty_enable_raw :: "'w \<Rightarrow> bool \<times> 'w"
  tty_disable_raw :: "'w \<Rightarrow> bool \<times> 'w"
  tty_execute :: "command list \<Rightarrow> 'w \<Rightarrow> nat option \<times> 'w"
  tty_new_terminal :: "'w \<Rightarrow> bool \<times> 'w"
  tty_flush :: "'w \<Rightarrow> bool \<times> 'w"
  tty_show_cursor :: "'w \<Rightarrow> bool \<times> 'w"

type_synonym ('w, 'a) on_screen = "(screen \<times> 'w, 'a) action"

definition enable_raw_mode :: "'w tty \<Rightarrow> ('w, bool) on_screen" where
  "enable_raw_mode tty = bindS (ask (tty_enable_raw tty)) (\<lambda>ok.
     bindS (modify_own (\<lambda>t. if ok then t\<lparr>raw_mode := True\<rparr> else t)) (\<lambda>_. return ok))"

definition disable_raw_mode :: "'w tty \<Rightarrow> ('w, bool) on_screen" where
  "disable_raw_mode tty = bindS (ask (tty_disable_raw tty)) (\<lambda>ok.
     bindS (modify_own (\<lambda>t. if ok then t\<lparr>raw_mode := False\<rparr> else t)) (\<lambda>_. return ok))"

definition execute :: "'w tty \<Rightarrow> command list \<Rightarrow> ('w, bool) on_screen" where
  "execute tty cs = bindS (ask (tty_execute tty cs)) (\<lambda>r. case r of
     None \<Rightarrow> bindS (modify_own (fold effect cs)) (\<lambda>_. return True)
   | Some n \<Rightarrow> bindS (modify_own (fold effect (take n cs))) (\<lambda>_. return False))"

section \<open>The operations\<close>

text \<open>A result is whether the function returned \<open>Ok\<close>.\<close>

definition restore_stdout_terminal :: "'w tty \<Rightarrow> ('w, bool) on_screen" where
  "restore_stdout_terminal tty =
     bindS (disable_raw_mode tty) (\<lambda>_.
     bindS (execute tty [Leave_Alternate_Screen, Disable_Mouse, Show]) (\<lambda>ok.
     if \<not> ok then return False
     else bindS (ask (tty_flush tty)) (\<lambda>ok.
       if \<not> ok then return False
       else bindS (modify_own (TUI_TERMINAL_ACTIVE_update (\<lambda>_. False))) (\<lambda>_. return True))))"

definition setup_terminal :: "'w tty \<Rightarrow> ('w, bool) on_screen" where
  "setup_terminal tty =
     bindS (enable_raw_mode tty) (\<lambda>ok.
     if \<not> ok then return False
     else bindS (execute tty [Enter_Alternate_Screen, Enable_Mouse]) (\<lambda>ok.
       if \<not> ok then bindS (disable_raw_mode tty) (\<lambda>_. return False)
       else bindS (ask (tty_new_terminal tty)) (\<lambda>ok.
         if \<not> ok then bindS (restore_stdout_terminal tty) (\<lambda>_. return False)
         else bindS (modify_own (TUI_TERMINAL_ACTIVE_update (\<lambda>_. True))) (\<lambda>_. return True))))"

definition restore_terminal :: "'w tty \<Rightarrow> ('w, bool) on_screen" where
  "restore_terminal tty =
     bindS (restore_stdout_terminal tty) (\<lambda>ok.
     if \<not> ok then return False
     else bindS (ask (tty_show_cursor tty)) (\<lambda>ok.
       bindS (modify_own (\<lambda>t. if ok then t\<lparr>cursor_hidden := False\<rparr> else t)) (\<lambda>_. return ok)))"

definition emergency_restore_terminal :: "'w tty \<Rightarrow> ('w, unit) on_screen" where
  "emergency_restore_terminal tty =
     bindS (gets_own TUI_TERMINAL_ACTIVE) (\<lambda>active.
     if active then bindS (restore_stdout_terminal tty) (\<lambda>_. return ()) else return ())"

section \<open>What they leave behind\<close>

text \<open>The dashboard owns the terminal between a setup that worked and a restore that worked; drawing hides the cursor.\<close>

inductive session :: "'w tty \<Rightarrow> screen \<Rightarrow> bool" for tty where
  found: "session tty untouched"
| set_up: "session tty t \<Longrightarrow> \<not> TUI_TERMINAL_ACTIVE t \<Longrightarrow> setup_terminal tty (t, w) = Inr (True, (t', w')) \<Longrightarrow> session tty t'"
| drawn: "session tty t \<Longrightarrow> TUI_TERMINAL_ACTIVE t \<Longrightarrow> session tty (t\<lparr>cursor_hidden := True\<rparr>)"
| restored: "session tty t \<Longrightarrow> restore_terminal tty (t, w) = Inr (ok, (t', w')) \<Longrightarrow> session tty t'"
| emergency: "session tty t \<Longrightarrow> emergency_restore_terminal tty (t, w) = Inr ((), (t', w')) \<Longrightarrow> session tty t'"

text \<open>
  As it was found, the raw mode apart: leaving the raw mode can fail, and the code ignores that error.
\<close>

definition as_found :: "screen \<Rightarrow> bool" where
  "as_found t \<longleftrightarrow> \<not> alternate_screen t \<and> \<not> mouse_capture t \<and> \<not> cursor_hidden t \<and> \<not> TUI_TERMINAL_ACTIVE t"

definition owned :: "screen \<Rightarrow> bool" where "owned t \<longleftrightarrow> TUI_TERMINAL_ACTIVE t \<or> as_found t"

lemma untouched_iff: "t = untouched \<longleftrightarrow> as_found t \<and> \<not> raw_mode t" for t :: screen
  by (auto simp: untouched_def as_found_def)

lemma wp_enable_raw [wp_simps]:
  "wp (enable_raw_mode tty) Q (t, w) \<longleftrightarrow> (case tty_enable_raw tty w of (ok, w') \<Rightarrow>
     Q ok (if ok then t\<lparr>raw_mode := True\<rparr> else t, w'))"
  by (simp add: enable_raw_mode_def wp_simps split_beta)

lemma wp_disable_raw [wp_simps]:
  "wp (disable_raw_mode tty) Q (t, w) \<longleftrightarrow> (case tty_disable_raw tty w of (ok, w') \<Rightarrow>
     Q ok (if ok then t\<lparr>raw_mode := False\<rparr> else t, w'))"
  by (simp add: disable_raw_mode_def wp_simps split_beta)

lemma wp_execute [wp_simps]:
  "wp (execute tty cs) Q (t, w) \<longleftrightarrow> (case tty_execute tty cs w of
     (None, w') \<Rightarrow> Q True (fold effect cs t, w') | (Some n, w') \<Rightarrow> Q False (fold effect (take n cs) t, w'))"
  by (cases "tty_execute tty cs w") (simp add: execute_def wp_simps split: option.split)

lemma fold_effect_active: "TUI_TERMINAL_ACTIVE (fold effect cs t) = TUI_TERMINAL_ACTIVE t"
proof (induction cs arbitrary: t)
  case (Cons c cs)
  then show ?case by (cases c) simp_all
qed simp

lemma fold_effect_raw: "raw_mode (fold effect cs t) = raw_mode t"
proof (induction cs arbitrary: t)
  case (Cons c cs)
  then show ?case by (cases c) simp_all
qed simp

definition restoring :: "command list" where
  "restoring = [Leave_Alternate_Screen, Disable_Mouse, Show]"

lemma restoring_as_found:
  assumes "as_found t" shows "as_found (fold effect (take n restoring) t)"
proof -
  have "as_found (fold effect cs t)" if "set cs \<subseteq> set restoring" for cs
    using that assms
  proof (induction cs arbitrary: t)
    case (Cons c cs)
    then have "as_found (effect c t)" by (auto simp: restoring_def as_found_def)
    then show ?case using Cons by simp
  qed simp
  then show ?thesis by (meson set_take_subset)
qed

text \<open>The restoration by its calls: the raw mode, the batch and the flush. It succeeds when the last two do.\<close>

definition restored_by :: "'w tty \<Rightarrow> 'w \<Rightarrow> bool" where
  "restored_by tty w \<longleftrightarrow> (let w1 = snd (tty_disable_raw tty w);
      (r, w2) = tty_execute tty [Leave_Alternate_Screen, Disable_Mouse, Show] w1
    in r = None \<and> fst (tty_flush tty w2))"

lemma wp_restore_stdout:
  "wp (restore_stdout_terminal tty) (\<lambda>ok (t', w'). ok = restored_by tty w \<and>
    (raw_mode t' \<longleftrightarrow> raw_mode t \<and> \<not> fst (tty_disable_raw tty w)) \<and>
    (if ok then as_found t' else TUI_TERMINAL_ACTIVE t' = TUI_TERMINAL_ACTIVE t) \<and> (as_found t \<longrightarrow> as_found t')) (t, w)"
proof -
  define t1 where "t1 = (if fst (tty_disable_raw tty w) then t\<lparr>raw_mode := False\<rparr> else t)"
  have t1: "raw_mode t1 \<longleftrightarrow> raw_mode t \<and> \<not> fst (tty_disable_raw tty w)" "TUI_TERMINAL_ACTIVE t1 = TUI_TERMINAL_ACTIVE t"
    "as_found t \<Longrightarrow> as_found t1" by (simp_all add: t1_def as_found_def)
  have some: "as_found t \<Longrightarrow> as_found (fold effect (take n restoring) t1)" for n using t1(3) by (rule restoring_as_found)
  have all: "as_found (fold effect restoring t1\<lparr>TUI_TERMINAL_ACTIVE := False\<rparr>)" by (simp add: as_found_def restoring_def)
  have whole: "fold effect (take 3 restoring) = fold effect restoring" by (simp add: restoring_def)
  obtain r w2 where ex: "tty_execute tty restoring (snd (tty_disable_raw tty w)) = (r, w2)" by fastforce
  have restored: "restored_by tty w \<longleftrightarrow> r = None \<and> fst (tty_flush tty w2)"
    using ex unfolding restored_by_def restoring_def by simp
  show ?thesis
    unfolding restore_stdout_terminal_def restoring_def [symmetric] wp_bindS wp_disable_raw split_beta t1_def [symmetric] wp_execute
    using ex restored t1 some all some [of 3] unfolding whole
    by (cases r) (auto simp: wp_simps split_beta fold_effect_active fold_effect_raw)
qed

lemma wp_emergency:
  "wp (emergency_restore_terminal tty) (\<lambda>_ (t', w').
    if \<not> TUI_TERMINAL_ACTIVE t then t' = t
    else (if restored_by tty w then as_found t' else TUI_TERMINAL_ACTIVE t') \<and>
      (raw_mode t' \<longleftrightarrow> raw_mode t \<and> \<not> fst (tty_disable_raw tty w))) (t, w)"
  using wp_mono [OF wp_restore_stdout [of tty w t]]
  by (auto simp: emergency_restore_terminal_def wp_simps split: if_splits)

lemma wp_restore_terminal:
  assumes "owned t" shows "wp (restore_terminal tty) (\<lambda>ok (t', w'). owned t') (t, w)"
  unfolding restore_terminal_def wp_bindS
proof (rule wp_mono [OF wp_restore_stdout], clarify, goal_cases)
  case (1 ok u w')
  then have "if restored_by tty w then as_found u else owned u" using assms by (auto simp: owned_def split: if_splits)
  then show ?case using 1 by (auto simp: wp_simps owned_def as_found_def)
qed

lemma setup_active:
  assumes "setup_terminal tty (t, w) = Inr (True, (t', w'))" shows "TUI_TERMINAL_ACTIVE t'"
proof -
  have "wp (bindS (restore_stdout_terminal tty) (\<lambda>_. return False)) (\<lambda>ok (t', w'). ok \<longrightarrow> TUI_TERMINAL_ACTIVE t') (u, w')" for u w'
    unfolding wp_bindS wp_return by (rule wp_mono [OF wp_restore_stdout]) auto
  then have "wp (setup_terminal tty) (\<lambda>ok (t', w'). ok \<longrightarrow> TUI_TERMINAL_ACTIVE t') (t, w)"
    by (auto simp: setup_terminal_def wp_simps split_beta split: option.split)
  then show ?thesis using assms by (simp add: wp_def)
qed

lemma session_owned:
  assumes "session tty t" shows "owned t"
  using assms
proof induction
  case (set_up t w t' w')
  then show ?case using setup_active by (auto simp: owned_def)
next
  case (restored t w ok t' w')
  then show ?case using wp_restore_terminal [of t tty w] by (simp add: wp_def)
next
  case (emergency t w t' w')
  then show ?case using wp_emergency [of tty t w] by (auto simp: wp_def owned_def split: if_splits)
qed (simp_all add: owned_def as_found_def untouched_def)

text \<open>
  C22. Whatever a dashboard session did and whichever terminal calls fail, an emergency restore takes the terminal out of
  the alternate screen with the mouse and the cursor as they were found and clears the flag, or, when the batch of
  commands or the flush fails, leaves the flag set so that the next one tries again. It does nothing to a terminal that
  is not set up. The raw mode is on afterwards only if it was on and the call that leaves it failed; that error is ignored.
\<close>

theorem emergency_restores_or_retries:
  assumes "session tty t"
  shows "\<exists>t' w'. emergency_restore_terminal tty (t, w) = Inr ((), (t', w')) \<and>
    (if \<not> TUI_TERMINAL_ACTIVE t then t' = t \<and> as_found t
     else (if restored_by tty w then as_found t' else TUI_TERMINAL_ACTIVE t') \<and>
       (raw_mode t' \<longleftrightarrow> raw_mode t \<and> \<not> fst (tty_disable_raw tty w)))"
  using wp_emergency [of tty t w] session_owned [OF assms] by (auto simp: wp_iff owned_def)

text \<open>A terminal on which batches stop after the given numbers of commands, then work; everything else works.\<close>

definition flaky :: "nat option list tty" where
  "flaky = \<lparr>tty_enable_raw = \<lambda>w. (True, w), tty_disable_raw = \<lambda>w. (True, w),
     tty_execute = \<lambda>cs w. (case w of [] \<Rightarrow> (None, []) | r # w \<Rightarrow> (r, w)),
     tty_new_terminal = \<lambda>w. (True, w), tty_flush = \<lambda>w. (True, w), tty_show_cursor = \<lambda>w. (True, w)\<rparr>"

theorem emergency_restores_or_retries_witness:
  "\<exists>t t' w'. setup_terminal flaky (untouched, [None, Some 1]) = Inr (True, (t, [Some 1])) \<and>
    emergency_restore_terminal flaky (t, [Some 1]) = Inr ((), (t', w')) \<and> TUI_TERMINAL_ACTIVE t' \<and> \<not> raw_mode t'"
proof -
  have "wp (setup_terminal flaky) (\<lambda>ok (t, w). ok \<and> w = [Some 1] \<and> TUI_TERMINAL_ACTIVE t) (untouched, [None, Some 1])"
    by (simp add: setup_terminal_def wp_simps flaky_def)
  then obtain t where t: "setup_terminal flaky (untouched, [None, Some 1]) = Inr (True, (t, [Some 1]))" "TUI_TERMINAL_ACTIVE t"
    by (auto simp: wp_iff)
  have "\<not> restored_by flaky [Some 1]" "fst (tty_disable_raw flaky [Some 1])" by (simp_all add: restored_by_def flaky_def)
  moreover have "session flaky t" by (rule session.set_up [OF session.found _ t(1)]) (simp add: untouched_def)
  ultimately show ?thesis using emergency_restores_or_retries [of flaky t "[Some 1]"] t by auto
qed

text \<open>
  When only the call that leaves the raw mode fails, the restore counts as done: the flag is cleared with the raw mode
  still on, and no later restore tries again.
\<close>

theorem raw_mode_is_given_up:
  assumes "TUI_TERMINAL_ACTIVE t" and "raw_mode t" and "\<not> fst (tty_disable_raw tty w)" and "restored_by tty w"
  shows "\<exists>t' w'. emergency_restore_terminal tty (t, w) = Inr ((), (t', w')) \<and> raw_mode t' \<and> \<not> TUI_TERMINAL_ACTIVE t' \<and>
    (\<forall>w. emergency_restore_terminal tty (t', w) = Inr ((), (t', w)))"
proof -
  obtain t' w' where t': "emergency_restore_terminal tty (t, w) = Inr ((), (t', w'))" "raw_mode t'" "as_found t'"
    using wp_emergency [of tty t w] assms by (auto simp: wp_iff)
  then have "\<not> TUI_TERMINAL_ACTIVE t'" by (simp add: as_found_def)
  moreover from this have "emergency_restore_terminal tty (t', w) = Inr ((), (t', w))" for w
    by (simp add: emergency_restore_terminal_def bindS_def gets_own_def gets_def return_def)
  ultimately show ?thesis using t'(1,2) by blast
qed

theorem raw_mode_is_given_up_witness:
  "\<exists>t' w'. emergency_restore_terminal (flaky\<lparr>tty_disable_raw := \<lambda>w. (False, w)\<rparr>)
      (untouched\<lparr>raw_mode := True, TUI_TERMINAL_ACTIVE := True\<rparr>, []) = Inr ((), (t', w')) \<and> raw_mode t'"
proof -
  have "restored_by (flaky\<lparr>tty_disable_raw := \<lambda>w. (False, w)\<rparr>) []" by (simp add: restored_by_def flaky_def)
  then show ?thesis
    using raw_mode_is_given_up [of "untouched\<lparr>raw_mode := True, TUI_TERMINAL_ACTIVE := True\<rparr>"
        "flaky\<lparr>tty_disable_raw := \<lambda>w. (False, w)\<rparr>" "[]"] by auto
qed

text \<open>
  A setup whose first batch fails after the alternate screen was entered undoes the raw mode only: the alternate
  screen stays, and neither later restore is run for it, since the flag was never set.
\<close>

theorem failed_setup_leaves_alternate_screen:
  "\<exists>t. setup_terminal flaky (untouched, [Some 1]) = Inr (False, (t, [])) \<and> alternate_screen t \<and> \<not> raw_mode t \<and>
    emergency_restore_terminal flaky (t, []) = Inr ((), (t, []))"
proof -
  have "wp (setup_terminal flaky) (\<lambda>ok (t, w). \<not> ok \<and> w = [] \<and> alternate_screen t \<and> \<not> raw_mode t \<and> \<not> TUI_TERMINAL_ACTIVE t)
      (untouched, [Some 1])"
    by (simp add: setup_terminal_def wp_simps flaky_def untouched_def)
  then obtain t where t: "setup_terminal flaky (untouched, [Some 1]) = Inr (False, (t, []))"
    "alternate_screen t" "\<not> raw_mode t" "\<not> TUI_TERMINAL_ACTIVE t" by (auto simp: wp_iff)
  moreover have "wp (emergency_restore_terminal flaky) (\<lambda>_ s. s = (t, [])) (t, [])"
    using t(4) by (simp add: emergency_restore_terminal_def wp_simps)
  ultimately show ?thesis by (auto simp: wp_iff)
qed

end
