(* ===== verification/Bpf_Kernel.thy ===== *)
theory Bpf_Kernel
  imports Startup
begin

text \<open>
  The state of the BPF program \<open>main.bpf.c\<close> and the kernel it runs in. The program's own globals and its
  per-task storage are the record \<open>bpf\<close>; the kernel's functions (\<open>scx_bpf_*\<close>, \<open>bpf_*\<close> and the headers
  of scx) are the fields of the record \<open>kern\<close>, over the memory of the \<open>task_struct\<close>s and a kernel
  state of any type \<open>'k\<close>, so that other CPUs may do anything between two calls. Every call that changes
  what runs where is recorded in \<open>requests\<close>, in order: this trace is what a callback does.
\<close>

section \<open>Data\<close>

type_synonym ptr = nat

text \<open>What the program reads and writes of a \<open>task_struct\<close>; \<open>ts_cpus_ptr\<close> is the answer of \<open>bpf_cpumask_test_cpu\<close>.\<close>

record task_struct =
  ts_pid :: i32
  ts_comm :: "u8 list"
  ts_flags :: u32
  ts_prio :: i32
  ts_nr_cpus_allowed :: i32
  ts_cpus_ptr :: "i32 \<Rightarrow> bool"
  ts_weight :: u32
  ts_scx_flags :: u32
  ts_dsq_vtime :: u64
  ts_slice :: u64

record task_ctx =
  tc_start_ts :: u64
  tc_stop_ts :: u64
  tc_exec_runtime :: u64
  tc_enq_cnt :: u64
  tc_awake_vtime :: u64
  tc_last_run_at :: u64
  tc_wakeup_freq :: u64
  tc_last_woke_at :: u64
  tc_avg_runtime :: u64

definition zero_ctx :: task_ctx where
  "zero_ctx = \<lparr>tc_start_ts = 0, tc_stop_ts = 0, tc_exec_runtime = 0, tc_enq_cnt = 0, tc_awake_vtime = 0,
     tc_last_run_at = 0, tc_wakeup_freq = 0, tc_last_woke_at = 0, tc_avg_runtime = 0\<rparr>"

text \<open>The effects on the scheduling of the machine, with the kernel's answer where there is one.\<close>

datatype request =
    Dsq_Insert ptr u64 u64 u64
  | Dsq_Insert_Vtime ptr u64 u64 u64 u64
  | Dispatch_Cancel
  | Move_To_Local u64 bool
  | Kick_Cpu i32
  | Create_Dsq u64 i32
  | Timer_Start i32
  | Publish_Exit u32
  | Scx_Exit u64
  | Scx_Error
  | Task_Get i32 "ptr option"
  | Task_Put ptr

record 'k bpf =
  counters :: "bss_counter \<Rightarrow> u64"
  g_nr_cpu_ids :: u64
  g_vtime_now :: u64
  g_usersched_last_run_at :: u64
  g_last_dispatch_at :: u64
  g_usersched_needed :: u32
  task_ctx_stor :: "ptr \<rightharpoonup> task_ctx"
  requests :: "request list"
  tasks :: "ptr \<Rightarrow> task_struct"
  kst :: 'k

section \<open>The kernel\<close>

type_synonym 'k mach = "(ptr \<Rightarrow> task_struct) \<times> 'k"

text \<open>Constants and pure functions of the headers; questions; and calls with an effect.\<close>

record abi =
  SCX_DSQ_LOCAL_ON :: u64
  SCX_WAKE_TTWU :: u64
  SCX_WAKE_SYNC :: u64
  SCX_TASK_QUEUED :: u32
  PF_KTHREAD :: u32
  PF_IDLE :: u32
  k_has_select_cpu_and :: bool
  k_enq_cpu_selected :: "u64 \<Rightarrow> bool"
  k_max_user_samples :: nat
  k_scale_by_weight :: "task_struct \<Rightarrow> u64 \<Rightarrow> u64"
  k_scale_by_weight_inverse :: "task_struct \<Rightarrow> u64 \<Rightarrow> u64"
  k_time_before :: "u64 \<Rightarrow> u64 \<Rightarrow> bool"
  k_time_after :: "u64 \<Rightarrow> u64 \<Rightarrow> bool"
  k_time_delta :: "u64 \<Rightarrow> u64 \<Rightarrow> u64"
  k_cpu_llc_id :: "i32 \<Rightarrow> u32"
  k_cpu_priority :: "i32 \<Rightarrow> u32"

record 'k queries = abi +
  k_now :: "'k mach \<Rightarrow> u64 \<times> 'k mach"
  k_ktime_get_ns :: "'k mach \<Rightarrow> u64 \<times> 'k mach"
  k_smp_processor_id :: "'k mach \<Rightarrow> i32 \<times> 'k mach"
  k_nr_cpu_ids :: "'k mach \<Rightarrow> u32 \<times> 'k mach"
  k_cpu_online :: "i32 \<Rightarrow> 'k mach \<Rightarrow> bool \<times> 'k mach"
  k_smt_idle :: "i32 \<Rightarrow> 'k mach \<Rightarrow> bool \<times> 'k mach"
  k_cpumask_first :: "ptr \<Rightarrow> 'k mach \<Rightarrow> i32 \<times> 'k mach"
  k_task_cpu :: "ptr \<Rightarrow> 'k mach \<Rightarrow> i32 \<times> 'k mach"
  k_task_running :: "ptr \<Rightarrow> 'k mach \<Rightarrow> bool \<times> 'k mach"
  k_cpu_curr :: "i32 \<Rightarrow> 'k mach \<Rightarrow> ptr option \<times> 'k mach"
  k_task_from_pid :: "i32 \<Rightarrow> 'k mach \<Rightarrow> ptr option \<times> 'k mach"
  k_dsq_nr_queued :: "u64 \<Rightarrow> 'k mach \<Rightarrow> i32 \<times> 'k mach"
  k_dsq_peek :: "u64 \<Rightarrow> 'k mach \<Rightarrow> ptr option \<times> 'k mach"
  k_ringbuf_avail :: "'k mach \<Rightarrow> u64 \<times> 'k mach"
  k_test_and_clear_idle :: "i32 \<Rightarrow> 'k mach \<Rightarrow> bool \<times> 'k mach"
  k_pick_idle :: "ptr \<Rightarrow> 'k mach \<Rightarrow> i32 \<times> 'k mach"
  k_select_cpu_dfl :: "ptr \<Rightarrow> i32 \<Rightarrow> u64 \<Rightarrow> 'k mach \<Rightarrow> (i32 \<times> bool) \<times> 'k mach"
  k_select_cpu_and :: "ptr \<Rightarrow> i32 \<Rightarrow> u64 \<Rightarrow> 'k mach \<Rightarrow> i32 \<times> 'k mach"

record 'k kern = "'k queries" +
  k_dispatch_nr_slots :: "'k mach \<Rightarrow> u32 \<times> 'k mach"
  k_next_user_sample :: "u64 \<Rightarrow> 'k mach \<Rightarrow> u8 list option option \<times> 'k mach"
  k_dsq_insert :: "ptr \<Rightarrow> u64 \<Rightarrow> u64 \<Rightarrow> u64 \<Rightarrow> 'k mach \<Rightarrow> unit \<times> 'k mach"
  k_dsq_insert_vtime :: "ptr \<Rightarrow> u64 \<Rightarrow> u64 \<Rightarrow> u64 \<Rightarrow> u64 \<Rightarrow> 'k mach \<Rightarrow> unit \<times> 'k mach"
  k_dispatch_cancel :: "'k mach \<Rightarrow> unit \<times> 'k mach"
  k_move_to_local :: "u64 \<Rightarrow> 'k mach \<Rightarrow> bool \<times> 'k mach"
  k_kick_cpu :: "i32 \<Rightarrow> 'k mach \<Rightarrow> unit \<times> 'k mach"
  k_create_dsq :: "u64 \<Rightarrow> 'k mach \<Rightarrow> i32 \<times> 'k mach"
  k_timer_lookup :: "'k mach \<Rightarrow> bool \<times> 'k mach"
  k_timer_start :: "'k mach \<Rightarrow> i32 \<times> 'k mach"
  k_reserve_exit :: "'k mach \<Rightarrow> bool \<times> 'k mach"
  k_submit_exit :: "u32 \<Rightarrow> 'k mach \<Rightarrow> unit \<times> 'k mach"
  k_scx_exit :: "u64 \<Rightarrow> 'k mach \<Rightarrow> unit \<times> 'k mach"
  k_scx_error :: "'k mach \<Rightarrow> unit \<times> 'k mach"
  k_storage_create :: "ptr \<Rightarrow> 'k mach \<Rightarrow> bool \<times> 'k mach"
  k_task_release :: "ptr \<Rightarrow> 'k mach \<Rightarrow> unit \<times> 'k mach"

text \<open>Asking the kernel, and asking it for an effect.\<close>

definition query :: "('k mach \<Rightarrow> 'a \<times> 'k mach) \<Rightarrow> ('k bpf, 'a) action" where
  "query f = (\<lambda>s. case f (tasks s, kst s) of (x, (m, k)) \<Rightarrow> Inr (x, s\<lparr>tasks := m, kst := k\<rparr>))"

definition ask_for :: "('k mach \<Rightarrow> 'a \<times> 'k mach) \<Rightarrow> ('a \<Rightarrow> request) \<Rightarrow> ('k bpf, 'a) action" where
  "ask_for f r = bindS (query f) (\<lambda>x. bindS (modify (\<lambda>s. s\<lparr>requests := requests s @ [r x]\<rparr>)) (\<lambda>_. return x))"

text \<open>Reading and writing the memory of a task, the per-task storage and a counter.\<close>

definition task_at :: "ptr \<Rightarrow> ('k bpf, task_struct) action" where "task_at p = gets (\<lambda>s. tasks s p)"

definition put_task :: "ptr \<Rightarrow> (task_struct \<Rightarrow> task_struct) \<Rightarrow> ('k bpf, unit) action" where
  "put_task p f = modify (\<lambda>s. s\<lparr>tasks := (tasks s)(p := f (tasks s p))\<rparr>)"

definition try_lookup_task_ctx :: "ptr \<Rightarrow> ('k bpf, task_ctx option) action" where
  "try_lookup_task_ctx p = gets (\<lambda>s. task_ctx_stor s p)"

definition put_ctx :: "ptr \<Rightarrow> (task_ctx \<Rightarrow> task_ctx) \<Rightarrow> ('k bpf, unit) action" where
  "put_ctx p f = modify (\<lambda>s. s\<lparr>task_ctx_stor := (task_ctx_stor s)(p := map_option f (task_ctx_stor s p))\<rparr>)"

definition bump :: "bss_counter \<Rightarrow> ('k bpf, unit) action" where
  "bump c = modify (\<lambda>s. s\<lparr>counters := (counters s)(c := counters s c + 1)\<rparr>)"

section \<open>Verification conditions\<close>

lemma wp_query [wp_simps]:
  "wp (query f) Q s \<longleftrightarrow> (case f (tasks s, kst s) of (x, (m, k)) \<Rightarrow> Q x (s\<lparr>tasks := m, kst := k\<rparr>))"
  by (simp add: wp_def query_def split: prod.splits)

lemma wp_ask_for:
  "wp (ask_for f r) Q s \<longleftrightarrow>
     (case f (tasks s, kst s) of (x, (m, k)) \<Rightarrow> Q x (s\<lparr>tasks := m, kst := k, requests := requests s @ [r x]\<rparr>))"
  by (simp add: ask_for_def wp_simps split: prod.splits)

lemmas memory_defs = task_at_def put_task_def try_lookup_task_ctx_def put_ctx_def bump_def

section \<open>Actions that only ask\<close>

text \<open>
  \<open>asks g m P\<close>: run from a state whose globals are \<open>g\<close>, \<open>m\<close> returns, leaves the program's globals, the
  per-task storage and the requests as they are, and its answer satisfies \<open>P\<close>, whatever the kernel does.
\<close>

definition no_task :: task_struct where
  "no_task = \<lparr>ts_pid = 0, ts_comm = [], ts_flags = 0, ts_prio = 120, ts_nr_cpus_allowed = 0,
     ts_cpus_ptr = (\<lambda>_. False), ts_weight = 100, ts_scx_flags = 0, ts_dsq_vtime = 0, ts_slice = 0\<rparr>"

definition globals :: "'k bpf \<Rightarrow> unit bpf" where
  "globals s = \<lparr>counters = counters s, g_nr_cpu_ids = g_nr_cpu_ids s, g_vtime_now = g_vtime_now s,
     g_usersched_last_run_at = g_usersched_last_run_at s, g_last_dispatch_at = g_last_dispatch_at s,
     g_usersched_needed = g_usersched_needed s, task_ctx_stor = task_ctx_stor s, requests = requests s,
     tasks = (\<lambda>_. no_task), kst = ()\<rparr>"

lemma globals_simps [simp]:
  "counters (globals s) = counters s" "g_nr_cpu_ids (globals s) = g_nr_cpu_ids s"
  "g_vtime_now (globals s) = g_vtime_now s" "task_ctx_stor (globals s) = task_ctx_stor s"
  "requests (globals s) = requests s" "g_last_dispatch_at (globals s) = g_last_dispatch_at s"
  "g_usersched_last_run_at (globals s) = g_usersched_last_run_at s"
  "g_usersched_needed (globals s) = g_usersched_needed s"
  "globals (s\<lparr>tasks := m, kst := k\<rparr>) = globals s" "globals (s\<lparr>tasks := m\<rparr>) = globals s"
  by (simp_all add: globals_def)

named_theorems asks_rules "actions that only ask the kernel"

definition asks :: "unit bpf \<Rightarrow> ('k bpf, 'a) action \<Rightarrow> ('a \<Rightarrow> bool) \<Rightarrow> bool" where
  "asks g m P \<longleftrightarrow> (\<forall>s. globals s = g \<longrightarrow> (\<exists>x ts k. m s = Inr (x, s\<lparr>tasks := ts, kst := k\<rparr>) \<and> P x))"

lemma unchanged: "s = s\<lparr>tasks := tasks s, kst := kst s\<rparr>"
  by simp

lemma asks_gets [asks_rules]: "(\<And>s. globals s = g \<Longrightarrow> P (f s)) \<Longrightarrow> asks g (gets f) P"
  unfolding asks_def gets_def using unchanged by blast

lemma asks_return [asks_rules]: "P x \<Longrightarrow> asks g (return x) P"
  unfolding asks_def return_def using unchanged by blast

lemma asks_query [asks_rules]: "(\<And>x. P x) \<Longrightarrow> asks g (query f) P"
  by (auto simp: asks_def query_def split: prod.splits)

lemma asks_bind:
  assumes "asks g m P" and "\<And>x. P x \<Longrightarrow> asks g (f x) Q"
  shows "asks g (bindS m f) Q"
  unfolding asks_def
proof (intro allI impI)
  fix s :: "'a bpf" assume s: "globals s = g"
  then obtain x ts k where m: "m s = Inr (x, s\<lparr>tasks := ts, kst := k\<rparr>)" "P x"
    using assms(1) by (auto simp: asks_def)
  have "globals (s\<lparr>tasks := ts, kst := k\<rparr>) = g" using s by simp
  with assms(2) [OF m(2)] obtain y us l where
    "f x (s\<lparr>tasks := ts, kst := k\<rparr>) = Inr (y, s\<lparr>tasks := ts, kst := k, tasks := us, kst := l\<rparr>)" "Q y"
    unfolding asks_def by blast
  then show "\<exists>x ts k. bindS m f s = Inr (x, s\<lparr>tasks := ts, kst := k\<rparr>) \<and> Q x"
    using m(1) by (auto simp: bindS_def)
qed

lemma asks_bind_any [asks_rules]:
  assumes "asks g m (\<lambda>_. True)" and "\<And>x. asks g (f x) Q" shows "asks g (bindS m f) Q"
  using asks_bind [OF assms(1)] assms(2) by blast

lemma asks_if [asks_rules]: "(b \<Longrightarrow> asks g m P) \<Longrightarrow> (\<not> b \<Longrightarrow> asks g n P) \<Longrightarrow> asks g (if b then m else n) P"
  by simp

lemma asks_option [asks_rules]:
  "asks g m P \<Longrightarrow> (\<And>y. asks g (f y) P) \<Longrightarrow> asks g (case x of None \<Rightarrow> m | Some y \<Rightarrow> f y) P"
  by (cases x) auto

lemma asks_prod [asks_rules]: "(\<And>a b. asks g (f a b) P) \<Longrightarrow> asks g (case x of (a, b) \<Rightarrow> f a b) P"
  by (cases x) auto

lemma asks_task_at [asks_rules]: "(\<And>t. P t) \<Longrightarrow> asks g (task_at p) P"
  unfolding task_at_def by (rule asks_gets)

lemma asks_mono: "asks g m P \<Longrightarrow> (\<And>x. P x \<Longrightarrow> Q x) \<Longrightarrow> asks g m Q"
  unfolding asks_def by blast

text \<open>An action that only asks, in the middle of one that acts.\<close>

lemma wp_asks:
  assumes "asks (globals s) m P" and "\<And>x ts k. P x \<Longrightarrow> Q x (s\<lparr>tasks := ts, kst := k\<rparr>)"
  shows "wp m Q s"
  using assms unfolding asks_def wp_iff by blast

section \<open>Conditions for any kernel\<close>

text \<open>Rules that leave the kernel's answers and what it does to its own state open, for proofs by introduction.\<close>

named_theorems vcg "verification conditions over all answers of the kernel"

lemma wp_bind_any [vcg]: "wp m (\<lambda>x. wp (f x) Q) s \<Longrightarrow> wp (bindS m f) Q s" by (simp add: wp_simps)
lemma wp_return_any [vcg]: "Q x s \<Longrightarrow> wp (return x) Q s" by (simp add: wp_simps)
lemma wp_gets_any [vcg]: "Q (f s) s \<Longrightarrow> wp (gets f) Q s" by (simp add: wp_simps)
lemma wp_modify_any [vcg]: "Q () (f s) \<Longrightarrow> wp (modify f) Q s" by (simp add: wp_simps)

lemma wp_query_any [vcg]: "(\<And>x m k. Q x (s\<lparr>tasks := m, kst := k\<rparr>)) \<Longrightarrow> wp (query f) Q s"
  by (simp add: wp_simps split: prod.splits)

lemma wp_ask_for_any [vcg]:
  "(\<And>x m k. Q x (s\<lparr>tasks := m, kst := k, requests := requests s @ [r x]\<rparr>)) \<Longrightarrow> wp (ask_for f r) Q s"
  by (simp add: wp_ask_for split: prod.splits)

lemma wp_if_any [vcg]: "(b \<Longrightarrow> wp m Q s) \<Longrightarrow> (\<not> b \<Longrightarrow> wp n Q s) \<Longrightarrow> wp (if b then m else n) Q s"
  by simp

lemma wp_option_any [vcg]:
  "(x = None \<Longrightarrow> wp m Q s) \<Longrightarrow> (\<And>y. x = Some y \<Longrightarrow> wp (f y) Q s) \<Longrightarrow>
    wp (case x of None \<Rightarrow> m | Some y \<Rightarrow> f y) Q s"
  by (cases x) auto

lemma wp_prod_any [vcg]: "(\<And>a b. x = (a, b) \<Longrightarrow> wp (f a b) Q s) \<Longrightarrow> wp (case x of (a, b) \<Rightarrow> f a b) Q s"
  by (cases x) auto

lemma wp_memory_any [vcg]:
  "P (tasks s p) s \<Longrightarrow> wp (task_at p) P s"
  "P' (task_ctx_stor s p) s \<Longrightarrow> wp (try_lookup_task_ctx p) P' s"
  "Q () (s\<lparr>tasks := (tasks s)(p := g (tasks s p))\<rparr>) \<Longrightarrow> wp (put_task p g) Q s"
  "Q () (s\<lparr>task_ctx_stor := (task_ctx_stor s)(p := map_option h (task_ctx_stor s p))\<rparr>) \<Longrightarrow> wp (put_ctx p h) Q s"
  "Q () (s\<lparr>counters := (counters s)(c := counters s c + 1)\<rparr>) \<Longrightarrow> wp (bump c) Q s"
  by (simp_all add: memory_defs wp_simps)

section \<open>A small machine\<close>

text \<open>
  A kernel for the witnesses: two CPUs, both busy, queues that are lists in the order of insertion, and the
  documented values of the flags. Its state gives the contents of every queue.
\<close>

definition bench :: "(u64 \<Rightarrow> ptr list) kern" where
  "bench = \<lparr>SCX_DSQ_LOCAL_ON = 0xC000000000000000, SCX_WAKE_TTWU = 8, SCX_WAKE_SYNC = 16, SCX_TASK_QUEUED = 1,
     PF_KTHREAD = 0x200000, PF_IDLE = 2, k_has_select_cpu_and = True, k_enq_cpu_selected = (\<lambda>_. False),
     k_max_user_samples = 131072,
     k_scale_by_weight = (\<lambda>t v. v * ucast (ts_weight t) div 100),
     k_scale_by_weight_inverse = (\<lambda>t v. v * 100 div ucast (ts_weight t)),
     k_time_before = (\<lambda>a b. sint (a - b) < 0), k_time_after = (\<lambda>a b. sint (b - a) < 0),
     k_time_delta = (\<lambda>a b. if 0 \<le> sint (a - b) then a - b else 0),
     k_cpu_llc_id = (\<lambda>_. 0), k_cpu_priority = (\<lambda>_. 0),
     k_now = (\<lambda>w. (5000, w)), k_ktime_get_ns = (\<lambda>w. (5000, w)), k_smp_processor_id = (\<lambda>w. (0, w)),
     k_nr_cpu_ids = (\<lambda>w. (2, w)), k_cpu_online = (\<lambda>_ w. (True, w)), k_smt_idle = (\<lambda>_ w. (False, w)),
     k_cpumask_first = (\<lambda>_ w. (0, w)), k_task_cpu = (\<lambda>_ w. (0, w)), k_task_running = (\<lambda>_ w. (False, w)),
     k_cpu_curr = (\<lambda>_ w. (None, w)), k_task_from_pid = (\<lambda>pid w. (if pid = 0 then None else Some (unat pid), w)),
     k_dsq_nr_queued = (\<lambda>d (m, q). (of_nat (length (q d)), (m, q))),
     k_dsq_peek = (\<lambda>d (m, q). (case q d of [] \<Rightarrow> None | p # _ \<Rightarrow> Some p, (m, q))),
     k_ringbuf_avail = (\<lambda>w. (0, w)), k_test_and_clear_idle = (\<lambda>_ w. (False, w)), k_pick_idle = (\<lambda>_ w. (- 16, w)),
     k_select_cpu_dfl = (\<lambda>_ _ _ w. ((- 16, False), w)), k_select_cpu_and = (\<lambda>_ _ _ w. (- 16, w)),
     k_dispatch_nr_slots = (\<lambda>w. (512, w)),
     k_next_user_sample = (\<lambda>ret w. (None, w)),
     k_dsq_insert = (\<lambda>p d x fl (m, q). ((), (m, q(d := q d @ [p])))),
     k_dsq_insert_vtime = (\<lambda>p d x v fl (m, q). ((), (m(p := (m p)\<lparr>ts_dsq_vtime := v\<rparr>), q(d := q d @ [p])))),
     k_dispatch_cancel = (\<lambda>w. ((), w)),
     k_move_to_local = (\<lambda>d (m, q). if q d = [] then (False, (m, q)) else (True, (m, q(d := tl (q d))))),
     k_kick_cpu = (\<lambda>_ w. ((), w)), k_create_dsq = (\<lambda>_ w. (0, w)), k_timer_lookup = (\<lambda>w. (True, w)),
     k_timer_start = (\<lambda>w. (0, w)), k_reserve_exit = (\<lambda>w. (True, w)), k_submit_exit = (\<lambda>_ w. ((), w)),
     k_scx_exit = (\<lambda>_ w. ((), w)), k_scx_error = (\<lambda>w. ((), w)), k_storage_create = (\<lambda>_ w. (True, w)),
     k_task_release = (\<lambda>_ w. ((), w))\<rparr>"

definition bench_task :: task_struct where
  "bench_task = no_task\<lparr>ts_pid := 7, ts_nr_cpus_allowed := 2, ts_cpus_ptr := (\<lambda>_. True)\<rparr>"

definition bench_boot :: "(u64 \<Rightarrow> ptr list) bpf" where
  "bench_boot = \<lparr>counters = (\<lambda>_. 0), g_nr_cpu_ids = 0, g_vtime_now = 0, g_usersched_last_run_at = 0,
     g_last_dispatch_at = 0, g_usersched_needed = 0, task_ctx_stor = Map.empty, requests = [],
     tasks = (\<lambda>_. bench_task), kst = (\<lambda>_. [])\<rparr>"

definition bench_up :: "(u64 \<Rightarrow> ptr list) bpf" where
  "bench_up = bench_boot\<lparr>g_nr_cpu_ids := 2, counters := (\<lambda>_. 0)(Nr_online_cpus := 2), task_ctx_stor := [7 \<mapsto> zero_ctx]\<rparr>"

definition bench_ro :: rodata where
  "bench_ro = \<lparr>ro_topology = export_default, usersched_enabled = False, usersched_pid = 0, builtin_idle = True,
     ro_slice_ns = 1000000, ro_slice_min_ns = 250000, ro_slice_lag_ns = 40000000, ro_no_wake_sync = False,
     ro_sticky_tasks = False, server_mode = False, ro_debug = False\<rparr>"

lemmas bench_defs = bench_def bench_task_def bench_boot_def bench_up_def bench_ro_def no_task_def

end
