(* ===== verification/Bpf_Routing.thy ===== *)
theory Bpf_Routing
  imports Bpf_Kernel
begin

text \<open>
  The routing of \<open>main.bpf.c\<close>: the identifiers of the dispatch queues, the domain of a CPU, the pressure
  on its queues, the queue a task overflows to, its slice and its deadline, and the search for an idle CPU.
  The lemmas say which queues a task can be put on, with which bounds, and what the counters count.
\<close>

section \<open>Dispatch queues\<close>

named_theorems dsq_defs "identifiers of the dispatch queues"

definition MAX_CPUS :: "'a::len word" where [dsq_defs]: "MAX_CPUS = 1024"
definition SHARED_DSQ :: "'a::len word" where [dsq_defs]: "SHARED_DSQ = MAX_CPUS"
definition SCHED_DSQ :: "'a::len word" where [dsq_defs]: "SCHED_DSQ = MAX_CPUS + 1"
definition LLC_DSQ_BASE :: "'a::len word" where [dsq_defs]: "LLC_DSQ_BASE = MAX_CPUS + 2"
definition NODE_DSQ_BASE :: "'a::len word" where [dsq_defs]: "NODE_DSQ_BASE = LLC_DSQ_BASE + of_nat MAX_LLCS"

declare MAX_LLCS_def [dsq_defs] MAX_NODES_def [dsq_defs] MAX_TOPO_CPUS_def [dsq_defs]

text \<open>\<open>n\<close> is \<open>nr_cpu_ids\<close>. A CPU number is converted to an unsigned 64-bit integer with its sign.\<close>

definition is_cpu_valid :: "u64 \<Rightarrow> i32 \<Rightarrow> bool" where
  "is_cpu_valid n cpu \<longleftrightarrow> \<not> (sint cpu < 0 \<or> min n MAX_CPUS \<le> scast cpu)"

definition cpu_to_dsq :: "u64 \<Rightarrow> i32 \<Rightarrow> u64" where
  "cpu_to_dsq n cpu = (if \<not> is_cpu_valid n cpu then SHARED_DSQ else scast cpu)"

text \<open>The addition is one of unsigned 32-bit integers.\<close>

definition llc_to_dsq :: "u32 \<Rightarrow> u64" where "llc_to_dsq llc_idx = ucast (LLC_DSQ_BASE + llc_idx)"
definition node_to_dsq :: "u32 \<Rightarrow> u64" where "node_to_dsq node_idx = ucast (NODE_DSQ_BASE + node_idx)"

definition cpu_llc_idx_for :: "rodata \<Rightarrow> u64 \<Rightarrow> i32 \<Rightarrow> u32" where
  "cpu_llc_idx_for R n cpu =
     (if \<not> is_cpu_valid n cpu then 0 else ucast (cpu_llc_idx_map (ro_topology R) ! unat cpu))"

definition cpu_node_idx_for :: "rodata \<Rightarrow> u64 \<Rightarrow> i32 \<Rightarrow> u32" where
  "cpu_node_idx_for R n cpu =
     (if \<not> is_cpu_valid n cpu then 0 else ucast (cpu_node_idx_map (ro_topology R) ! unat cpu))"

definition llc_node_idx_for :: "rodata \<Rightarrow> u32 \<Rightarrow> u32" where
  "llc_node_idx_for R llc_idx =
     (if of_nat MAX_LLCS \<le> llc_idx then 0 else ucast (llc_node_idx_map (ro_topology R) ! unat llc_idx))"

definition cpu_llc_dsq :: "rodata \<Rightarrow> u64 \<Rightarrow> i32 \<Rightarrow> u64" where
  "cpu_llc_dsq R n cpu = llc_to_dsq (cpu_llc_idx_for R n cpu)"

definition cpu_node_dsq :: "rodata \<Rightarrow> u64 \<Rightarrow> i32 \<Rightarrow> u64" where
  "cpu_node_dsq R n cpu = node_to_dsq (cpu_node_idx_for R n cpu)"

definition cpus_share_cache :: "'k kern \<Rightarrow> u64 \<Rightarrow> i32 \<Rightarrow> i32 \<Rightarrow> bool" where
  "cpus_share_cache K n this_cpu that_cpu \<longleftrightarrow>
     (if this_cpu = that_cpu then True
      else if \<not> is_cpu_valid n this_cpu \<or> \<not> is_cpu_valid n that_cpu then False
      else k_cpu_llc_id K this_cpu = k_cpu_llc_id K that_cpu)"

definition is_cpu_faster :: "'k kern \<Rightarrow> u64 \<Rightarrow> i32 \<Rightarrow> i32 \<Rightarrow> bool" where
  "is_cpu_faster K n this_cpu that_cpu \<longleftrightarrow>
     (if this_cpu = that_cpu then False
      else if \<not> is_cpu_valid n this_cpu \<or> \<not> is_cpu_valid n that_cpu then False
      else k_cpu_priority K that_cpu < k_cpu_priority K this_cpu)"

text \<open>The counter a placement on a kernel-routed queue adds to.\<close>

definition route_counter :: "u64 \<Rightarrow> bss_counter" where
  "route_counter dsq_id =
     (if dsq_id = SHARED_DSQ then Nr_shared_dispatches
      else if NODE_DSQ_BASE \<le> dsq_id \<and> dsq_id < NODE_DSQ_BASE + of_nat MAX_NODES then Nr_node_dispatches
      else if LLC_DSQ_BASE \<le> dsq_id \<and> dsq_id < LLC_DSQ_BASE + of_nat MAX_LLCS then Nr_llc_dispatches
      else Nr_local_dispatches)"

definition count_kernel_route :: "u64 \<Rightarrow> ('k bpf, unit) action" where
  "count_kernel_route dsq_id = bindS (bump (route_counter dsq_id)) (\<lambda>_. bump Nr_kernel_dispatches)"

definition direct_local_dispatch :: "'k kern \<Rightarrow> ptr \<Rightarrow> i32 \<Rightarrow> u64 \<Rightarrow> u64 \<Rightarrow> ('k bpf, unit) action" where
  "direct_local_dispatch K p cpu slice_ns enq_flags =
     (let dsq = or (SCX_DSQ_LOCAL_ON K) (scast cpu)
      in bindS (ask_for (k_dsq_insert K p dsq slice_ns enq_flags) (\<lambda>_. Dsq_Insert p dsq slice_ns enq_flags)) (\<lambda>_.
         count_kernel_route dsq))"

section \<open>Predicates on tasks\<close>

definition is_usersched_task :: "rodata \<Rightarrow> task_struct \<Rightarrow> bool" where
  "is_usersched_task R t \<longleftrightarrow> ts_pid t = usersched_pid R"

definition is_kthread :: "'k kern \<Rightarrow> task_struct \<Rightarrow> bool" where
  "is_kthread K t \<longleftrightarrow> and (ts_flags t) (PF_KTHREAD K) \<noteq> 0"

definition is_queued :: "'k kern \<Rightarrow> task_struct \<Rightarrow> bool" where
  "is_queued K t \<longleftrightarrow> and (ts_scx_flags t) (SCX_TASK_QUEUED K) \<noteq> 0"

definition is_wakeup :: "'k kern \<Rightarrow> u64 \<Rightarrow> bool" where
  "is_wakeup K wake_flags \<longleftrightarrow> and wake_flags (SCX_WAKE_TTWU K) \<noteq> 0"

definition rt_or_dl_task :: "task_struct \<Rightarrow> bool" where "rt_or_dl_task t \<longleftrightarrow> sint (ts_prio t) < 100"

definition is_ksoftirqd :: "task_struct \<Rightarrow> bool" where
  "is_ksoftirqd t \<longleftrightarrow> take 10 (ts_comm t) = ascii ''ksoftirqd/''"

definition is_task_sticky :: "rodata \<Rightarrow> task_ctx \<Rightarrow> bool" where
  "is_task_sticky R tctx \<longleftrightarrow> ro_sticky_tasks R \<and> tc_avg_runtime tctx < 10 * 1000"

definition calc_avg :: "u64 \<Rightarrow> u64 \<Rightarrow> u64" where
  "calc_avg old_val new_val = (old_val - drop_bit 2 old_val) + drop_bit 2 new_val"

definition update_freq :: "u64 \<Rightarrow> u64 \<Rightarrow> u64" where
  "update_freq freq interval = calc_avg freq ((100 * 1000000) div interval)"

definition task_should_migrate :: "'k kern \<Rightarrow> rodata \<Rightarrow> ptr \<Rightarrow> u64 \<Rightarrow> ('k bpf, bool) action" where
  "task_should_migrate K R p enq_flags =
     (if k_enq_cpu_selected K enq_flags then return False
      else if \<not> ro_sticky_tasks R then return True
      else bindS (query (k_task_running K p)) (\<lambda>running. return (\<not> running)))"

definition is_queued_wakeup :: "'k kern \<Rightarrow> ptr \<Rightarrow> u64 \<Rightarrow> ('k bpf, bool) action" where
  "is_queued_wakeup K p enq_flags =
     (if k_enq_cpu_selected K enq_flags then return False
      else bindS (query (k_task_running K p)) (\<lambda>running. return (\<not> running)))"

definition cpu_under_rt_pressure :: "'k kern \<Rightarrow> i32 \<Rightarrow> ('k bpf, bool) action" where
  "cpu_under_rt_pressure K cpu =
     bindS (gets g_nr_cpu_ids) (\<lambda>n.
     if \<not> is_cpu_valid n cpu then return False
     else bindS (query (k_cpu_curr K cpu)) (\<lambda>curr. case curr of
         None \<Rightarrow> return False
       | Some c \<Rightarrow> bindS (task_at c) (\<lambda>t.
           if and (ts_flags t) (PF_IDLE K) \<noteq> 0 then return False
           else return (rt_or_dl_task t \<or> is_ksoftirqd t))))"

section \<open>Pressure and overflow\<close>

text \<open>\<open>scx_bpf_dsq_nr_queued\<close> is a signed 32-bit number, negative for a queue that does not exist.\<close>

definition nr_waiting :: "'k kern \<Rightarrow> u64 \<Rightarrow> ('k bpf, u64) action" where
  "nr_waiting K dsq = bindS (query (k_dsq_nr_queued K dsq)) (\<lambda>n. return (scast n))"

definition queue_pressure :: "'k kern \<Rightarrow> rodata \<Rightarrow> i32 \<Rightarrow> ('k bpf, u64) action" where
  "queue_pressure K R cpu =
     bindS (nr_waiting K SHARED_DSQ) (\<lambda>shared.
     bindS (gets g_nr_cpu_ids) (\<lambda>n.
     if \<not> is_cpu_valid n cpu then return shared
     else bindS (nr_waiting K (cpu_to_dsq n cpu)) (\<lambda>local.
       bindS (nr_waiting K (cpu_llc_dsq R n cpu)) (\<lambda>llc.
       if 1 < nr_nodes (ro_topology R)
       then bindS (nr_waiting K (cpu_node_dsq R n cpu)) (\<lambda>node. return (shared + local + llc + node))
       else return (shared + local + llc)))))"

definition cpu_spill_threshold :: u64 where "cpu_spill_threshold = 1"

text \<open>\<open>domains\<close> is \<open>nr_llcs\<close> or \<open>nr_nodes\<close>, \<open>online\<close> the number of online CPUs.\<close>

definition llc_spill_threshold :: "rodata \<Rightarrow> u64 \<Rightarrow> u64" where
  "llc_spill_threshold R online =
     (let llcs = max (ucast (nr_llcs (ro_topology R))) 1;
          cpus_per_llc = max ((online + llcs - 1) div llcs) 1
      in if server_mode R then max (cpus_per_llc div 2) 1 else cpus_per_llc)"

definition node_spill_threshold :: "rodata \<Rightarrow> u64 \<Rightarrow> u64" where
  "node_spill_threshold R online =
     (let nodes = max (ucast (nr_nodes (ro_topology R))) 1;
          cpus_per_node = max ((online + nodes - 1) div nodes) 1
      in if server_mode R then max (cpus_per_node div 2) 1 else cpus_per_node)"

definition nr_online_cpus :: "('k bpf, u64) action" where
  "nr_online_cpus = gets (\<lambda>s. counters s Nr_online_cpus)"

definition overflow_dsq :: "'k kern \<Rightarrow> rodata \<Rightarrow> i32 \<Rightarrow> ('k bpf, u64) action" where
  "overflow_dsq K R prev_cpu =
     bindS (gets g_nr_cpu_ids) (\<lambda>n.
     if \<not> is_cpu_valid n prev_cpu then return SHARED_DSQ
     else bindS (nr_waiting K (cpu_to_dsq n prev_cpu)) (\<lambda>local_depth.
       if local_depth < cpu_spill_threshold then return (cpu_to_dsq n prev_cpu)
       else bindS (nr_waiting K (cpu_llc_dsq R n prev_cpu)) (\<lambda>llc_depth.
         bindS nr_online_cpus (\<lambda>online.
         if llc_depth < llc_spill_threshold R online then return (cpu_llc_dsq R n prev_cpu)
         else if 1 < nr_nodes (ro_topology R) then
           bindS (nr_waiting K (cpu_node_dsq R n prev_cpu)) (\<lambda>node_depth.
             if node_depth < node_spill_threshold R online then return (cpu_node_dsq R n prev_cpu)
             else return SHARED_DSQ)
         else return SHARED_DSQ))))"

section \<open>Slice and deadline\<close>

definition task_slice :: "'k kern \<Rightarrow> rodata \<Rightarrow> ptr \<Rightarrow> i32 \<Rightarrow> ('k bpf, u64) action" where
  "task_slice K R p cpu =
     bindS (queue_pressure K R cpu) (\<lambda>nr_wait.
     bindS (task_at p) (\<lambda>t.
     let slice_ns = k_scale_by_weight K t (ro_slice_ns R) div max nr_wait 1
     in return (max slice_ns (ro_slice_min_ns R))))"

definition STARVATION_NS :: u64 where "STARVATION_NS = 500 * 1000000"

text \<open>The scale of the wake-up credit: the frequency of the wake-ups, damped by the pressure.\<close>

definition lag_scale :: "rodata \<Rightarrow> u64 \<Rightarrow> u64 \<Rightarrow> u64" where
  "lag_scale R wakeup_freq nr_wait =
     (let q_thresh = max (STARVATION_NS div max (ro_slice_ns R) 1) 1
      in if STARVATION_NS \<le> nr_wait * ro_slice_ns R then 1
         else max (max wakeup_freq 1 * q_thresh div (q_thresh + nr_wait)) 1)"

definition task_dl :: "'k kern \<Rightarrow> rodata \<Rightarrow> ptr \<Rightarrow> i32 \<Rightarrow> task_ctx \<Rightarrow> ('k bpf, u64) action" where
  "task_dl K R p cpu tctx =
     bindS (queue_pressure K R cpu) (\<lambda>nr_wait.
     bindS (task_at p) (\<lambda>t.
     bindS (gets g_vtime_now) (\<lambda>vtime_now.
     let awake_max = k_scale_by_weight_inverse K t (ro_slice_lag_ns R);
         scale = lag_scale R (tc_wakeup_freq tctx) nr_wait;
         vtime_min = vtime_now - k_scale_by_weight K t (ro_slice_lag_ns R * scale);
         dsq_vtime = (if k_time_before K (ts_dsq_vtime t) vtime_min then vtime_min else ts_dsq_vtime t);
         awake_vtime = (if k_time_after K (tc_awake_vtime tctx) awake_max then awake_max else tc_awake_vtime tctx)
     in bindS (put_task p (\<lambda>t. t\<lparr>ts_dsq_vtime := dsq_vtime\<rparr>)) (\<lambda>_.
        bindS (put_ctx p (\<lambda>c. c\<lparr>tc_awake_vtime := awake_vtime\<rparr>)) (\<lambda>_.
        return (dsq_vtime + awake_vtime))))))"

section \<open>Idle CPUs\<close>

definition EBUSY :: i32 where "EBUSY = 16"

definition is_smt_idle :: "'k kern \<Rightarrow> rodata \<Rightarrow> i32 \<Rightarrow> ('k bpf, bool) action" where
  "is_smt_idle K R cpu =
     (if \<not> smt_enabled (ro_topology R) then return True else query (k_smt_idle K cpu))"

text \<open>A conjunction of C: the second operand is evaluated when the first holds.\<close>

definition and_then :: "('s, bool) action \<Rightarrow> ('s, bool) action \<Rightarrow> ('s, bool) action" where
  "and_then a b = bindS a (\<lambda>x. if x then b else return False)"

definition select_idle :: "'k kern \<Rightarrow> ptr \<Rightarrow> i32 \<Rightarrow> u64 \<Rightarrow> ('k bpf, i32) action" where
  "select_idle K p prev_cpu wake_flags =
     (if \<not> k_has_select_cpu_and K then
        if wake_flags = 0 then return (- EBUSY)
        else bindS (query (k_select_cpu_dfl K p prev_cpu wake_flags)) (\<lambda>(cpu, is_idle).
          return (if is_idle then cpu else - EBUSY))
      else query (k_select_cpu_and K p prev_cpu wake_flags))"

definition pick_idle_cpu :: "'k kern \<Rightarrow> rodata \<Rightarrow> ptr \<Rightarrow> i32 \<Rightarrow> u64 \<Rightarrow> ('k bpf, i32) action" where
  "pick_idle_cpu K R p prev_cpu wake_flags =
     bindS (query (k_smp_processor_id K)) (\<lambda>this_cpu.
     bindS (task_at p) (\<lambda>t.
     bindS (gets g_nr_cpu_ids) (\<lambda>n.
     let allowed = ts_cpus_ptr t this_cpu;
         wake_flags = (if ro_no_wake_sync R then and wake_flags (not (SCX_WAKE_SYNC K)) else wake_flags)
     in if ts_nr_cpus_allowed t = 1 then
          bindS (and_then (return (is_cpu_valid n prev_cpu \<and> ts_cpus_ptr t prev_cpu))
                          (query (k_test_and_clear_idle K prev_cpu))) (\<lambda>idle.
          return (if idle then prev_cpu else - EBUSY))
        else if is_wakeup K wake_flags \<and> is_cpu_faster K n this_cpu prev_cpu \<and> allowed then
          bindS (and_then (return (cpus_share_cache K n this_cpu prev_cpu))
                (and_then (is_smt_idle K R prev_cpu) (query (k_test_and_clear_idle K prev_cpu)))) (\<lambda>stay.
          if stay then return prev_cpu else select_idle K p this_cpu wake_flags)
        else select_idle K p prev_cpu wake_flags)))"

definition kick_cpu :: "'k kern \<Rightarrow> i32 \<Rightarrow> ('k bpf, unit) action" where
  "kick_cpu K cpu = ask_for (k_kick_cpu K cpu) (\<lambda>_. Kick_Cpu cpu)"

definition kick_task_cpu :: "'k kern \<Rightarrow> ptr \<Rightarrow> i32 \<Rightarrow> ('k bpf, unit) action" where
  "kick_task_cpu K p cpu =
     bindS (task_at p) (\<lambda>t.
     if \<not> ts_cpus_ptr t cpu then
       bindS (kick_cpu K cpu) (\<lambda>_.
       bindS (query (k_pick_idle K p)) (\<lambda>cpu.
       if sint cpu < 0 then return () else kick_cpu K cpu))
     else kick_cpu K cpu)"

section \<open>What only asks\<close>

lemma asks_nr_waiting [asks_rules]: "(\<And>x. P x) \<Longrightarrow> asks g (nr_waiting K d) P"
  unfolding nr_waiting_def by (intro asks_rules TrueI)

lemma asks_queue_pressure [asks_rules]: "(\<And>x. P x) \<Longrightarrow> asks g (queue_pressure K R cpu) P"
  unfolding queue_pressure_def by (intro asks_rules TrueI)

lemma asks_nr_online [asks_rules]: "(\<And>x. P x) \<Longrightarrow> asks g nr_online_cpus P"
  unfolding nr_online_cpus_def by (rule asks_gets)

lemma asks_rt_pressure [asks_rules]: "(\<And>x. P x) \<Longrightarrow> asks g (cpu_under_rt_pressure K cpu) P"
  unfolding cpu_under_rt_pressure_def by (intro asks_rules TrueI)

lemma asks_should_migrate [asks_rules]: "(\<And>x. P x) \<Longrightarrow> asks g (task_should_migrate K R p fl) P"
  unfolding task_should_migrate_def by (intro asks_rules TrueI)

lemma asks_queued_wakeup [asks_rules]: "(\<And>x. P x) \<Longrightarrow> asks g (is_queued_wakeup K p fl) P"
  unfolding is_queued_wakeup_def by (intro asks_rules TrueI)

lemma asks_smt_idle [asks_rules]: "(\<And>x. P x) \<Longrightarrow> asks g (is_smt_idle K R cpu) P"
  unfolding is_smt_idle_def by (intro asks_rules TrueI)

lemma asks_and_then [asks_rules]:
  "asks g a (\<lambda>_. True) \<Longrightarrow> asks g b (\<lambda>_. True) \<Longrightarrow> (\<And>x. P x) \<Longrightarrow> asks g (and_then a b) P"
  unfolding and_then_def by (rule asks_bind_any) (auto intro: asks_mono asks_return)

lemma asks_select_idle [asks_rules]: "(\<And>x. P x) \<Longrightarrow> asks g (select_idle K p cpu fl) P"
  unfolding select_idle_def by (intro asks_rules TrueI)

lemma asks_pick_idle_cpu [asks_rules]: "(\<And>x. P x) \<Longrightarrow> asks g (pick_idle_cpu K R p cpu fl) P"
  unfolding pick_idle_cpu_def Let_def by (intro asks_rules TrueI)

lemma asks_task_slice: "asks g (task_slice K R p cpu) (\<lambda>x. ro_slice_min_ns R \<le> x)"
  unfolding task_slice_def Let_def by (intro asks_rules TrueI) simp

text \<open>The queues a task can overflow to from \<open>cpu\<close>.\<close>

definition overflow_tiers :: "rodata \<Rightarrow> u64 \<Rightarrow> i32 \<Rightarrow> u64 set" where
  "overflow_tiers R n cpu =
     (if \<not> is_cpu_valid n cpu then {SHARED_DSQ}
      else {cpu_to_dsq n cpu, cpu_llc_dsq R n cpu, SHARED_DSQ} \<union>
        (if 1 < nr_nodes (ro_topology R) then {cpu_node_dsq R n cpu} else {}))"

lemma asks_overflow_dsq:
  "asks g (overflow_dsq K R cpu) (\<lambda>d. d \<in> overflow_tiers R (g_nr_cpu_ids g) cpu)"
  unfolding overflow_dsq_def
proof (rule asks_bind [where P = "\<lambda>n. n = g_nr_cpu_ids g"])
  show "asks g (gets g_nr_cpu_ids) (\<lambda>n. n = g_nr_cpu_ids g)" by (rule asks_gets) auto
next
  fix n assume n: "n = g_nr_cpu_ids g"
  show "asks g (if \<not> is_cpu_valid n cpu then return SHARED_DSQ else
      bindS (nr_waiting K (cpu_to_dsq n cpu)) (\<lambda>local_depth.
       if local_depth < cpu_spill_threshold then return (cpu_to_dsq n cpu)
       else bindS (nr_waiting K (cpu_llc_dsq R n cpu)) (\<lambda>llc_depth.
         bindS nr_online_cpus (\<lambda>online.
         if llc_depth < llc_spill_threshold R online then return (cpu_llc_dsq R n cpu)
         else if 1 < nr_nodes (ro_topology R) then
           bindS (nr_waiting K (cpu_node_dsq R n cpu)) (\<lambda>node_depth.
             if node_depth < node_spill_threshold R online then return (cpu_node_dsq R n cpu)
             else return SHARED_DSQ)
         else return SHARED_DSQ))))
    (\<lambda>d. d \<in> overflow_tiers R (g_nr_cpu_ids g) cpu)"
    by (intro asks_rules TrueI) (simp_all add: overflow_tiers_def n)
qed

section \<open>The identifiers\<close>

lemma valid_cpu_bounds:
  assumes "is_cpu_valid n cpu"
  shows "0 \<le> sint cpu" and "unat cpu < 1024" and "unat cpu < unat n" and "unat (scast cpu :: u64) = unat cpu"
proof -
  show pos: "0 \<le> sint cpu" using assms by (simp add: is_cpu_valid_def)
  moreover have "sint cpu < 2 ^ 31" using sint_less [of cpu] by simp
  ultimately have u: "uint cpu = sint cpu" unfolding uint_sint by (intro take_bit_int_eq_self) simp_all
  then have "uint (scast cpu :: u64) = uint cpu"
    unfolding scast_eq uint_word_of_int_eq u
    using pos \<open>sint cpu < 2 ^ 31\<close> by (intro take_bit_int_eq_self) simp_all
  then show v: "unat (scast cpu :: u64) = unat cpu" by (simp only: nat_uint_eq [symmetric])
  have "(scast cpu :: u64) < n" "(scast cpu :: u64) < 1024"
    using assms by (auto simp: is_cpu_valid_def MAX_CPUS_def min_le_iff_disj not_le)
  then show "unat cpu < 1024" "unat cpu < unat n" using v by (simp_all add: word_less_nat_alt)
qed

text \<open>The number of the queue of a tier, for indices in range.\<close>

lemma unat_cpu_to_dsq: "is_cpu_valid n cpu \<Longrightarrow> unat (cpu_to_dsq n cpu) = unat cpu"
  using valid_cpu_bounds(4) [of n cpu] by (simp add: cpu_to_dsq_def)

lemma unat_widened: "unat (ucast i :: u64) = unat i" for i :: u32
  by transfer (simp add: take_bit_eq_mod mod_pos_pos_trivial)

lemma unat_llc_to_dsq: "unat i < 64 \<Longrightarrow> unat (llc_to_dsq i) = 1026 + unat i"
  by (simp add: llc_to_dsq_def dsq_defs unat_widened unat_word_ariths)

lemma unat_node_to_dsq: "unat i < 64 \<Longrightarrow> unat (node_to_dsq i) = 1090 + unat i"
  by (simp add: node_to_dsq_def dsq_defs unat_widened unat_word_ariths)

lemma unat_special_dsq: "unat (SHARED_DSQ :: u64) = 1024" "unat (SCHED_DSQ :: u64) = 1025"
  by (simp_all add: dsq_defs)

lemmas unat_dsq = unat_cpu_to_dsq unat_llc_to_dsq unat_node_to_dsq unat_special_dsq

lemma dsq_eq_iff: "a = b \<longleftrightarrow> unat a = unat b" for a b :: "'a::len word"
  by (rule word_unat_eq_iff)

text \<open>
  The tiers do not overlap: no two of the queues of the CPUs, of the LLCs and of the nodes, the shared queue
  and the queue of the user-space scheduler share an identifier, and within a tier different domains have
  different queues.
\<close>

theorem dsq_ids_distinct:
  assumes "is_cpu_valid n cpu" and "is_cpu_valid n cpu'" and "unat llc < 64" and "unat llc' < 64"
    and "unat node < 64" and "unat node' < 64"
  shows "distinct [cpu_to_dsq n cpu, llc_to_dsq llc, node_to_dsq node, SHARED_DSQ, SCHED_DSQ]"
    and "cpu_to_dsq n cpu = cpu_to_dsq n cpu' \<longleftrightarrow> cpu = cpu'"
    and "llc_to_dsq llc = llc_to_dsq llc' \<longleftrightarrow> llc = llc'"
    and "node_to_dsq node = node_to_dsq node' \<longleftrightarrow> node = node'"
proof -
  have c: "unat cpu < 1024" using valid_cpu_bounds(2) [OF assms(1)] .
  show "distinct [cpu_to_dsq n cpu, llc_to_dsq llc, node_to_dsq node, SHARED_DSQ, SCHED_DSQ]"
    using assms c by (simp add: dsq_eq_iff unat_dsq del: word_unat_eq_iff)
qed (use assms in \<open>simp_all add: dsq_eq_iff unat_dsq del: word_unat_eq_iff\<close>)

section \<open>What the counters count\<close>

text \<open>The counter of a placement is the one of the tier the task is put on.\<close>

theorem route_counter_is_tier:
  assumes "unat llc < 64" and "unat node < 64" and "2 ^ 63 \<le> unat local_on"
  shows "is_cpu_valid n cpu \<Longrightarrow> route_counter (cpu_to_dsq n cpu) = Nr_local_dispatches"
    and "route_counter (or local_on (scast cpu)) = Nr_local_dispatches"
    and "route_counter (llc_to_dsq llc) = Nr_llc_dispatches"
    and "route_counter (node_to_dsq node) = Nr_node_dispatches"
    and "route_counter SHARED_DSQ = Nr_shared_dispatches"
proof -
  have bases: "unat (LLC_DSQ_BASE :: u64) = 1026" "unat (NODE_DSQ_BASE :: u64) = 1090"
    "unat (LLC_DSQ_BASE + of_nat MAX_LLCS :: u64) = 1090" "unat (NODE_DSQ_BASE + of_nat MAX_NODES :: u64) = 1154"
    by (simp_all add: dsq_defs)
  note arith = route_counter_def dsq_eq_iff [of _ SHARED_DSQ] word_le_nat_alt word_less_nat_alt bases
  show "route_counter SHARED_DSQ = Nr_shared_dispatches" by (simp add: route_counter_def)
  show "route_counter (llc_to_dsq llc) = Nr_llc_dispatches"
    using assms(1) by (simp add: arith unat_dsq)
  show "route_counter (node_to_dsq node) = Nr_node_dispatches"
    using assms(2) by (simp add: arith unat_dsq)
  show "route_counter (cpu_to_dsq n cpu) = Nr_local_dispatches" if "is_cpu_valid n cpu"
    using valid_cpu_bounds(2) [OF that] that by (simp add: arith unat_dsq)
  have "local_on \<le> or local_on (scast cpu)" by (rule le_word_or2)
  then have "2 ^ 63 \<le> unat (or local_on (scast cpu))" using assms(3) by (simp add: word_le_nat_alt)
  then show "route_counter (or local_on (scast cpu)) = Nr_local_dispatches"
    by (simp add: arith unat_dsq)
qed

section \<open>A moment when the queues do not change\<close>

text \<open>\<open>depths_are K depth s\<close>: asked in \<open>s\<close>, the kernel reports the length \<open>depth d\<close> for every queue and changes nothing.\<close>

definition depths_are :: "'k kern \<Rightarrow> (u64 \<Rightarrow> i32) \<Rightarrow> 'k bpf \<Rightarrow> bool" where
  "depths_are K depth s \<longleftrightarrow> (\<forall>d. k_dsq_nr_queued K d (tasks s, kst s) = (depth d, (tasks s, kst s)))"

text \<open>A full queue on the machine of the witnesses.\<close>

definition bench_full :: "(u64 \<Rightarrow> ptr list) bpf" where
  "bench_full = bench_up\<lparr>kst := (\<lambda>_. [])(0 := [9]), tasks := (\<lambda>_. bench_task)(9 := bench_task\<lparr>ts_dsq_vtime := 50\<rparr>)\<rparr>"

lemma bench_depths: "depths_are bench (\<lambda>d. of_nat (length (kst s d))) s"
  by (simp add: depths_are_def bench_def)

definition pressure_of :: "rodata \<Rightarrow> u64 \<Rightarrow> (u64 \<Rightarrow> i32) \<Rightarrow> i32 \<Rightarrow> u64" where
  "pressure_of R n depth cpu =
     (if is_cpu_valid n cpu then
        scast (depth SHARED_DSQ) + scast (depth (cpu_to_dsq n cpu)) + scast (depth (cpu_llc_dsq R n cpu)) +
        (if 1 < nr_nodes (ro_topology R) then scast (depth (cpu_node_dsq R n cpu)) else 0)
      else scast (depth SHARED_DSQ))"

lemma wp_nr_waiting:
  "depths_are K depth s \<Longrightarrow> wp (nr_waiting K d) Q s \<longleftrightarrow> Q (scast (depth d)) s"
  by (simp add: nr_waiting_def wp_simps depths_are_def)

lemma wp_queue_pressure:
  "depths_are K depth s \<Longrightarrow> wp (queue_pressure K R cpu) Q s \<longleftrightarrow> Q (pressure_of R (g_nr_cpu_ids s) depth cpu) s"
  by (simp add: queue_pressure_def wp_simps wp_nr_waiting pressure_of_def)

text \<open>The overflow queue by its specification: the first tier, from the nearest outwards, that has room.\<close>

definition tiers_with_room :: "rodata \<Rightarrow> u64 \<Rightarrow> u64 \<Rightarrow> i32 \<Rightarrow> (u64 \<times> u64) list" where
  "tiers_with_room R n online cpu =
     (if is_cpu_valid n cpu then
        [(cpu_to_dsq n cpu, cpu_spill_threshold), (cpu_llc_dsq R n cpu, llc_spill_threshold R online)] @
        (if 1 < nr_nodes (ro_topology R) then [(cpu_node_dsq R n cpu, node_spill_threshold R online)] else [])
      else [])"

definition first_with_room :: "(u64 \<Rightarrow> i32) \<Rightarrow> (u64 \<times> u64) list \<Rightarrow> u64" where
  "first_with_room depth tiers =
     (case find (\<lambda>(d, room). scast (depth d) < room) tiers of Some (d, _) \<Rightarrow> d | None \<Rightarrow> SHARED_DSQ)"

lemma wp_overflow_dsq:
  "depths_are K depth s \<Longrightarrow> wp (overflow_dsq K R cpu) Q s \<longleftrightarrow>
     Q (first_with_room depth (tiers_with_room R (g_nr_cpu_ids s) (counters s Nr_online_cpus) cpu)) s"
  by (simp add: overflow_dsq_def wp_simps wp_nr_waiting nr_online_cpus_def first_with_room_def tiers_with_room_def)

text \<open>
  C35. While the queues do not change, the queue chosen for a task that finds no idle CPU is the first tier with
  room, going from the queue of its CPU to its LLC, its node (on machines with several) and the shared queue;
  a tier has room below its threshold: one task for a CPU, and at least one for a domain.
\<close>

theorem overflow_takes_first_tier_with_room:
  assumes "depths_are K depth s"
  shows "overflow_dsq K R cpu s =
      Inr (first_with_room depth (tiers_with_room R (g_nr_cpu_ids s) (counters s Nr_online_cpus) cpu), s) \<and>
    (\<forall>(d, room) \<in> set (tiers_with_room R (g_nr_cpu_ids s) (counters s Nr_online_cpus) cpu). 1 \<le> room)"
proof
  show "overflow_dsq K R cpu s =
      Inr (first_with_room depth (tiers_with_room R (g_nr_cpu_ids s) (counters s Nr_online_cpus) cpu), s)"
    using wp_overflow_dsq [OF assms, of R cpu
      "\<lambda>x s'. s' = s \<and> x = first_with_room depth (tiers_with_room R (g_nr_cpu_ids s) (counters s Nr_online_cpus) cpu)"]
    by (auto simp: wp_iff)
  show "\<forall>(d, room) \<in> set (tiers_with_room R (g_nr_cpu_ids s) (counters s Nr_online_cpus) cpu). 1 \<le> room"
    by (auto simp: tiers_with_room_def cpu_spill_threshold_def llc_spill_threshold_def node_spill_threshold_def Let_def)
qed

theorem overflow_takes_first_tier_with_room_witness:
  "overflow_dsq bench bench_ro 0 bench_full = Inr (1026, bench_full)"
  using overflow_takes_first_tier_with_room [OF bench_depths [of bench_full], of bench_ro 0, THEN conjunct1]
  by (simp add: bench_full_def bench_up_def bench_boot_def first_with_room_def tiers_with_room_def is_cpu_valid_def dsq_defs
      cpu_to_dsq_def cpu_spill_threshold_def cpu_llc_dsq_def cpu_llc_idx_for_def llc_to_dsq_def llc_spill_threshold_def
      bench_ro_def export_default_def)

section \<open>Thresholds and slices\<close>

lemma half_threshold: "1 \<le> c \<Longrightarrow> max (c div 2) 1 \<le> c" for c :: u64
  by (auto simp: word_le_nat_alt unat_simps)

text \<open>The server profile leaves a tier no later than the desktop profile.\<close>

theorem server_spills_sooner:
  "llc_spill_threshold (R\<lparr>server_mode := True\<rparr>) online \<le> llc_spill_threshold (R\<lparr>server_mode := False\<rparr>) online \<and>
   node_spill_threshold (R\<lparr>server_mode := True\<rparr>) online \<le> node_spill_threshold (R\<lparr>server_mode := False\<rparr>) online"
  unfolding llc_spill_threshold_def node_spill_threshold_def Let_def
  by (simp del: max.bounded_iff add: half_threshold)

text \<open>The slice of a task when \<open>w\<close> tasks wait.\<close>

definition slice_under :: "'k kern \<Rightarrow> rodata \<Rightarrow> task_struct \<Rightarrow> u64 \<Rightarrow> u64" where
  "slice_under K R t w = max (k_scale_by_weight K t (ro_slice_ns R) div max w 1) (ro_slice_min_ns R)"

lemma slice_under_antitone: "w \<le> w' \<Longrightarrow> slice_under K R t w' \<le> slice_under K R t w"
proof -
  assume "w \<le> w'"
  then have "k div max w' 1 \<le> k div max w 1" for k :: u64
    by (simp add: word_le_nat_alt unat_simps) (intro div_le_mono2, auto simp: word_le_nat_alt max_def)
  then show ?thesis unfolding slice_under_def by (rule max.mono [OF _ order_refl])
qed

lemma wp_task_slice:
  "depths_are K depth s \<Longrightarrow> wp (task_slice K R p cpu) Q s \<longleftrightarrow>
     Q (slice_under K R (tasks s p) (pressure_of R (g_nr_cpu_ids s) depth cpu)) s"
  by (simp add: task_slice_def task_at_def wp_simps wp_queue_pressure slice_under_def Let_def)

text \<open>
  The slice is never below the minimum of the profile, whatever the kernel reports; while the queues do not
  change it is the weighted slice divided by the number of tasks waiting ahead, so that more pressure never
  makes it longer.
\<close>

theorem slice_shrinks_with_pressure:
  assumes "depths_are K depth s" and "depths_are K depth' s'" and "tasks s p = tasks s' p"
    and "pressure_of R (g_nr_cpu_ids s) depth cpu \<le> pressure_of R (g_nr_cpu_ids s') depth' cpu'"
  shows "\<exists>x x'. task_slice K R p cpu s = Inr (x, s) \<and> task_slice K R p cpu' s' = Inr (x', s') \<and>
    x' \<le> x \<and> ro_slice_min_ns R \<le> x'"
proof -
  let ?t = "tasks s p" and ?w = "pressure_of R (g_nr_cpu_ids s) depth cpu"
  let ?w' = "pressure_of R (g_nr_cpu_ids s') depth' cpu'"
  have "task_slice K R p cpu s = Inr (slice_under K R ?t ?w, s)"
    using wp_task_slice [OF assms(1), of R p cpu "\<lambda>x u. u = s \<and> x = slice_under K R ?t ?w"] by (auto simp: wp_iff)
  moreover have "task_slice K R p cpu' s' = Inr (slice_under K R ?t ?w', s')"
    using wp_task_slice [OF assms(2), of R p cpu' "\<lambda>x u. u = s' \<and> x = slice_under K R ?t ?w'"] assms(3)
    by (auto simp: wp_iff)
  ultimately show ?thesis using slice_under_antitone [OF assms(4)] by (simp add: slice_under_def)
qed

text \<open>The scale of the credit lies between 1 and the frequency of the wake-ups.\<close>

lemma lag_scale_bounds:
  assumes "freq \<le> 64" and "unat w < 2 ^ 40"
  shows "1 \<le> lag_scale R freq w \<and> lag_scale R freq w \<le> max freq 1"
proof -
  define q where "q = max (STARVATION_NS div max (ro_slice_ns R) 1) 1"
  define l where "l = max freq 1"
  have "unat (STARVATION_NS div max (ro_slice_ns R) 1) \<le> 500000000"
    by (simp add: unat_simps STARVATION_NS_def)
  then have q: "1 \<le> unat q" "unat q \<le> 500000000" by (simp_all add: q_def unat_simps)
  have l: "1 \<le> unat l" "unat l \<le> 64" using assms(1) by (simp_all add: l_def unat_simps word_le_nat_alt)
  have "unat l * unat q \<le> 64 * 500000000" using l q by (intro mult_le_mono) auto
  then have prod: "unat (l * q) = unat l * unat q" by (simp add: unat_word_ariths)
  have sum: "unat (q + w) = unat q + unat w" using q assms(2) by (simp add: unat_word_ariths)
  have "unat l * unat q div (unat q + unat w) \<le> unat l * (unat q + unat w) div (unat q + unat w)"
    by (intro div_le_mono mult_le_mono) auto
  then have "unat (l * q div (q + w)) \<le> unat l" using q by (simp add: unat_simps prod sum)
  then have "max (l * q div (q + w)) 1 \<le> l" using l by (simp add: word_le_nat_alt unat_max_word del: unat_div_word)
  moreover have "1 \<le> l" using l by (simp add: word_le_nat_alt)
  ultimately show ?thesis unfolding lag_scale_def Let_def q_def [symmetric] l_def [symmetric] by simp
qed

lemma wp_task_dl:
  "depths_are K depth s \<Longrightarrow> wp (task_dl K R p cpu tctx) Q s \<longleftrightarrow>
    (let t = tasks s p; awake_max = k_scale_by_weight_inverse K t (ro_slice_lag_ns R);
         scale = lag_scale R (tc_wakeup_freq tctx) (pressure_of R (g_nr_cpu_ids s) depth cpu);
         vtime_min = g_vtime_now s - k_scale_by_weight K t (ro_slice_lag_ns R * scale);
         dsq_vtime = (if k_time_before K (ts_dsq_vtime t) vtime_min then vtime_min else ts_dsq_vtime t);
         awake_vtime = (if k_time_after K (tc_awake_vtime tctx) awake_max then awake_max else tc_awake_vtime tctx)
     in Q (dsq_vtime + awake_vtime)
          (s\<lparr>tasks := (tasks s)(p := t\<lparr>ts_dsq_vtime := dsq_vtime\<rparr>),
             task_ctx_stor := (task_ctx_stor s)(p := map_option (tc_awake_vtime_update (\<lambda>_. awake_vtime)) (task_ctx_stor s p))\<rparr>))"
  by (simp add: task_dl_def memory_defs wp_simps wp_queue_pressure Let_def)

text \<open>The clock comparisons as the scx headers document them: the sign of the difference.\<close>

definition clocks_ok :: "'k kern \<Rightarrow> bool" where
  "clocks_ok K \<longleftrightarrow> (\<forall>a b. k_time_before K a b \<longleftrightarrow> sint (a - b) < 0) \<and> (\<forall>a b. k_time_after K a b \<longleftrightarrow> sint (b - a) < 0) \<and>
     (\<forall>a b. k_time_delta K a b = (if 0 \<le> sint (a - b) then a - b else 0))"

text \<open>
  C36. The credit of a sleeper is bounded: the virtual time of a task entering a queue is never before the front
  by more than the weighted lag scaled by a factor between 1 and its wake-up frequency (at most 64), the
  service since it woke that counts against it is capped, and its deadline is the sum of the two.
\<close>

theorem deadline_credit_bounded:
  assumes "depths_are K depth s" and "clocks_ok K" and "tc_wakeup_freq tctx \<le> 64"
    and "unat (pressure_of R (g_nr_cpu_ids s) depth cpu) < 2 ^ 40" and "task_ctx_stor s p = Some tctx"
  shows "\<exists>dl s' scale. task_dl K R p cpu tctx s = Inr (dl, s') \<and> 1 \<le> scale \<and> scale \<le> max (tc_wakeup_freq tctx) 1 \<and>
    0 \<le> sint (ts_dsq_vtime (tasks s' p) - (g_vtime_now s - k_scale_by_weight K (tasks s p) (ro_slice_lag_ns R * scale))) \<and>
    (\<exists>c. task_ctx_stor s' p = Some c \<and> dl = ts_dsq_vtime (tasks s' p) + tc_awake_vtime c \<and>
       0 \<le> sint (k_scale_by_weight_inverse K (tasks s p) (ro_slice_lag_ns R) - tc_awake_vtime c))"
proof -
  let ?scale = "lag_scale R (tc_wakeup_freq tctx) (pressure_of R (g_nr_cpu_ids s) depth cpu)"
  have "wp (task_dl K R p cpu tctx) (\<lambda>dl s'.
      0 \<le> sint (ts_dsq_vtime (tasks s' p) - (g_vtime_now s - k_scale_by_weight K (tasks s p) (ro_slice_lag_ns R * ?scale))) \<and>
      (\<exists>c. task_ctx_stor s' p = Some c \<and> dl = ts_dsq_vtime (tasks s' p) + tc_awake_vtime c \<and>
         0 \<le> sint (k_scale_by_weight_inverse K (tasks s p) (ro_slice_lag_ns R) - tc_awake_vtime c))) s"
    using assms(2,5) by (simp add: wp_task_dl [OF assms(1)] Let_def clocks_ok_def)
  then show ?thesis using lag_scale_bounds [OF assms(3,4), of R] unfolding wp_iff by blast
qed

theorem deadline_credit_bounded_witness:
  "\<exists>dl s'. task_dl bench bench_ro 7 0 zero_ctx bench_full = Inr (dl, s') \<and>
     (\<exists>c. task_ctx_stor s' 7 = Some c \<and> dl = ts_dsq_vtime (tasks s' 7) + tc_awake_vtime c)"
proof -
  have "clocks_ok bench" "tc_wakeup_freq zero_ctx \<le> 64" "task_ctx_stor bench_full 7 = Some zero_ctx"
    by (simp_all add: clocks_ok_def bench_def zero_ctx_def bench_full_def bench_up_def)
  moreover have "unat (pressure_of bench_ro (g_nr_cpu_ids bench_full) (\<lambda>d. of_nat (length (kst bench_full d))) 0) < 2 ^ 40"
    by (simp add: pressure_of_def bench_full_def bench_up_def bench_boot_def is_cpu_valid_def dsq_defs cpu_to_dsq_def cpu_llc_dsq_def
        cpu_llc_idx_for_def llc_to_dsq_def bench_ro_def export_default_def)
  ultimately show ?thesis
    using deadline_credit_bounded [OF bench_depths [of bench_full]] by blast
qed

section \<open>Averages\<close>

text \<open>The smoothed value lies between the old one and the sample: the average never overshoots or wraps.\<close>

theorem calc_avg_between:
  "min old_val new_val \<le> calc_avg old_val new_val \<and> calc_avg old_val new_val \<le> max old_val new_val"
proof -
  let ?o = "unat old_val" and ?n = "unat new_val"
  have bound: "?o < 2 ^ 64" "?n < 2 ^ 64" using unsigned_less [of old_val] unsigned_less [of new_val] by simp_all
  have quarter: "unat (drop_bit 2 w) = unat w div 4" for w :: u64
    by (simp add: drop_bit_eq_div unat_div_word)
  have "unat (old_val - drop_bit 2 old_val) = ?o - ?o div 4"
    by (simp add: unat_sub quarter word_le_nat_alt)
  then have "unat (calc_avg old_val new_val) = (?o - ?o div 4 + ?n div 4) mod 2 ^ 64"
    by (simp add: calc_avg_def unat_word_ariths quarter)
  also have "\<dots> = ?o - ?o div 4 + ?n div 4" using bound by (intro mod_less) linarith
  finally show ?thesis by (simp add: word_le_nat_alt unat_simps) linarith
qed

end
