(* ===== verification/Bpf_Dispatch.thy ===== *)
theory Bpf_Dispatch
  imports Bpf_Routing
begin

text \<open>
  \<open>ops.dispatch\<close> of \<open>main.bpf.c\<close>: the drain of the user ring buffer, the choice between the four queues of a
  CPU, and the steals from other CPUs, LLCs and nodes, in the order of the code.
\<close>

section \<open>Combinators\<close>

definition or_else :: "('s, bool) action \<Rightarrow> ('s, bool) action \<Rightarrow> ('s, bool) action" where
  "or_else a b = bindS a (\<lambda>x. if x then return True else b)"

text \<open>The calls \<open>if (a) return; if (b) return; \<dots>\<close>: whether one of them succeeded.\<close>

fun first_success :: "('s, bool) action list \<Rightarrow> ('s, bool) action" where
  "first_success [] = return False"
| "first_success (a # as) = or_else a (first_success as)"

definition move_to_local :: "'k kern \<Rightarrow> u64 \<Rightarrow> ('k bpf, bool) action" where
  "move_to_local K dsq = ask_for (k_move_to_local K dsq) (Move_To_Local dsq)"

section \<open>Tasks dispatched by user space\<close>

definition ops_dispatch_task :: "'k kern \<Rightarrow> dispatched_task \<Rightarrow> ('k bpf, unit) action" where
  "ops_dispatch_task K d =
     bindS (ask_for (k_task_from_pid K (dt_pid d)) (Task_Get (dt_pid d))) (\<lambda>found. case found of
       None \<Rightarrow> return ()
     | Some p \<Rightarrow>
         bindS (query (k_task_cpu K p)) (\<lambda>prev_cpu.
         bindS (task_at p) (\<lambda>t.
         bindS (gets g_nr_cpu_ids) (\<lambda>n.
         bindS (if dt_cpu d = RL_CPU_ANY then
             bindS (ask_for (k_dsq_insert_vtime K p SHARED_DSQ (dt_slice_ns d) (dt_vtime d) (dt_flags d))
               (\<lambda>_. Dsq_Insert_Vtime p SHARED_DSQ (dt_slice_ns d) (dt_vtime d) (dt_flags d))) (\<lambda>_.
             bindS (bump Nr_user_dispatches) (\<lambda>_.
             kick_task_cpu K p prev_cpu))
           else
             let usable = ts_cpus_ptr t (dt_cpu d);
                 cpu = (if usable then dt_cpu d else prev_cpu)
             in bindS (bump (if usable then Nr_user_dispatches else Nr_bounce_dispatches)) (\<lambda>_.
                bindS (ask_for (k_dsq_insert_vtime K p (cpu_to_dsq n cpu) (dt_slice_ns d) (dt_vtime d) (dt_flags d))
                  (\<lambda>_. Dsq_Insert_Vtime p (cpu_to_dsq n cpu) (dt_slice_ns d) (dt_vtime d) (dt_flags d))) (\<lambda>_.
                bindS (try_lookup_task_ctx p) (\<lambda>tctx.
                if (case tctx of None \<Rightarrow> True | Some c \<Rightarrow> dt_enq_cnt d < tc_enq_cnt c) then
                  bindS (ask_for (k_dispatch_cancel K) (\<lambda>_. Dispatch_Cancel)) (\<lambda>_. bump Nr_cancel_dispatches)
                else kick_cpu K cpu)))) (\<lambda>_.
         ask_for (k_task_release K p) (\<lambda>_. Task_Put p))))))"

text \<open>A sample too short for the message has no data.\<close>

definition handle_dispatched_task :: "'k kern \<Rightarrow> u8 list option \<Rightarrow> ('k bpf, u64) action" where
  "handle_dispatched_task K data =
     (case data of
        None \<Rightarrow> return 0
      | Some bytes \<Rightarrow> bindS (ops_dispatch_task K (read_dispatched_ctx bytes)) (\<lambda>_.
          bindS (query (k_dispatch_nr_slots K)) (\<lambda>slots. return (if slots \<noteq> 0 then 1 else 0))))"

text \<open>
  \<open>bpf_user_ringbuf_drain\<close> calls the handler for one sample after the other, at most \<open>k_max_user_samples\<close>
  times; the kernel decides, from what the handler returned, whether there is a next sample.
\<close>

fun drain :: "'k kern \<Rightarrow> nat \<Rightarrow> u64 \<Rightarrow> ('k bpf, unit) action" where
  "drain K 0 ret = return ()"
| "drain K (Suc left) ret =
     bindS (query (k_next_user_sample K ret)) (\<lambda>sample. case sample of
       None \<Rightarrow> return ()
     | Some data \<Rightarrow> bindS (handle_dispatched_task K data) (drain K left))"

section \<open>Pending work of the user-space scheduler\<close>

definition set_usersched_needed :: "('k bpf, unit) action" where
  "set_usersched_needed = modify (\<lambda>s. s\<lparr>g_usersched_needed := or (g_usersched_needed s) 1\<rparr>)"

definition test_and_clear_usersched_needed :: "('k bpf, bool) action" where
  "test_and_clear_usersched_needed = bindS (gets g_usersched_needed) (\<lambda>old.
     bindS (modify (\<lambda>s. s\<lparr>g_usersched_needed := 0\<rparr>)) (\<lambda>_. return (old = 1)))"

definition usersched_has_pending_tasks :: "'k kern \<Rightarrow> rodata \<Rightarrow> ('k bpf, bool) action" where
  "usersched_has_pending_tasks K R =
     (if \<not> usersched_enabled R then return False
      else or_else test_and_clear_usersched_needed
        (bindS (gets (\<lambda>s. counters s Nr_scheduled)) (\<lambda>nr_scheduled.
         if nr_scheduled \<noteq> 0 then return True
         else bindS (query (k_ringbuf_avail K)) (\<lambda>avail. return (0 < avail)))))"

section \<open>Stealing\<close>

type_synonym best_head = "ptr option \<times> u64 \<times> u64"

definition is_remote_head_better ::
    "(ptr \<Rightarrow> task_struct) \<Rightarrow> ptr option \<Rightarrow> u64 \<Rightarrow> ptr option \<Rightarrow> u64 \<Rightarrow> bool" where
  "is_remote_head_better m candidate candidate_depth best best_depth \<longleftrightarrow>
     (case candidate of None \<Rightarrow> False
      | Some c \<Rightarrow> (case best of None \<Rightarrow> True
         | Some b \<Rightarrow> if ts_dsq_vtime (m c) \<noteq> ts_dsq_vtime (m b) then ts_dsq_vtime (m c) < ts_dsq_vtime (m b)
                   else best_depth < candidate_depth))"

text \<open>The body of the three loops, for the queue of one victim; \<open>fits\<close> is the affinity test of the CPU loop.\<close>

definition weigh :: "'k kern \<Rightarrow> (task_struct \<Rightarrow> bool) \<Rightarrow> u64 \<Rightarrow> best_head \<Rightarrow> ('k bpf, best_head) action" where
  "weigh K fits dsq best = (case best of (head, depth, _) \<Rightarrow>
     bindS (nr_waiting K dsq) (\<lambda>candidate_depth.
     if candidate_depth = 0 then return best
     else bindS (query (k_dsq_peek K dsq)) (\<lambda>candidate.
       bindS (gets tasks) (\<lambda>m.
       case candidate of
         None \<Rightarrow> return best
       | Some c \<Rightarrow>
           if \<not> fits (m c) then return best
           else return (if is_remote_head_better m candidate candidate_depth head depth
                        then (candidate, candidate_depth, dsq) else best)))))"

definition wrap_index :: "u32 \<Rightarrow> u32 \<Rightarrow> u32 \<Rightarrow> u32" where
  "wrap_index nr mine i = (if nr \<le> mine + i then mine + i - nr else mine + i)"

fun scan_llcs :: "'k kern \<Rightarrow> rodata \<Rightarrow> u32 \<Rightarrow> u32 \<Rightarrow> bool \<Rightarrow> u32 list \<Rightarrow> best_head \<Rightarrow> ('k bpf, best_head) action" where
  "scan_llcs K R my_llc my_node same_node_only [] best = return best"
| "scan_llcs K R my_llc my_node same_node_only (i # is) best =
     (if nr_llcs (ro_topology R) \<le> i then return best
      else let victim = wrap_index (nr_llcs (ro_topology R)) my_llc i in
        if same_node_only \<and> llc_node_idx_for R victim \<noteq> my_node
        then scan_llcs K R my_llc my_node same_node_only is best
        else bindS (weigh K (\<lambda>_. True) (llc_to_dsq victim) best)
               (scan_llcs K R my_llc my_node same_node_only is))"

fun scan_nodes :: "'k kern \<Rightarrow> rodata \<Rightarrow> u32 \<Rightarrow> u32 list \<Rightarrow> best_head \<Rightarrow> ('k bpf, best_head) action" where
  "scan_nodes K R my_node [] best = return best"
| "scan_nodes K R my_node (i # is) best =
     (if nr_nodes (ro_topology R) \<le> i then return best
      else bindS (weigh K (\<lambda>_. True) (node_to_dsq (wrap_index (nr_nodes (ro_topology R)) my_node i)) best)
             (scan_nodes K R my_node is))"

fun scan_cpus :: "'k kern \<Rightarrow> u64 \<Rightarrow> i32 \<Rightarrow> bool \<Rightarrow> i32 list \<Rightarrow> best_head \<Rightarrow> ('k bpf, best_head) action" where
  "scan_cpus K n cpu same_llc_only [] best = return best"
| "scan_cpus K n cpu same_llc_only (victim # vs) best =
     (if victim = cpu then scan_cpus K n cpu same_llc_only vs best
      else if same_llc_only \<and> \<not> cpus_share_cache K n cpu victim then scan_cpus K n cpu same_llc_only vs best
      else bindS (weigh K (\<lambda>t. ts_cpus_ptr t cpu) (cpu_to_dsq n victim) best)
             (scan_cpus K n cpu same_llc_only vs))"

text \<open>\<open>best && scx_bpf_dsq_move_to_local(best_dsq)\<close>, counted when it succeeds.\<close>

definition take_best :: "'k kern \<Rightarrow> best_head \<Rightarrow> ('k bpf, bool) action" where
  "take_best K best = (case best of (head, _, dsq) \<Rightarrow> if head = None then return False else move_to_local K dsq)"

definition steal_counted :: "'k kern \<Rightarrow> bss_counter \<Rightarrow> best_head \<Rightarrow> ('k bpf, bool) action" where
  "steal_counted K c best = bindS (take_best K best) (\<lambda>ok.
     if ok then bindS (bump c) (\<lambda>_. return True) else return False)"

definition steal_remote_llc :: "'k kern \<Rightarrow> rodata \<Rightarrow> i32 \<Rightarrow> bool \<Rightarrow> ('k bpf, bool) action" where
  "steal_remote_llc K R cpu same_node_only =
     bindS (gets g_nr_cpu_ids) (\<lambda>n.
     if \<not> is_cpu_valid n cpu \<or> nr_llcs (ro_topology R) \<le> 1 then return False
     else bindS (scan_llcs K R (cpu_llc_idx_for R n cpu) (cpu_node_idx_for R n cpu) same_node_only
                   (map of_nat [1..<MAX_LLCS]) (None, 0, 0))
            (steal_counted K Nr_xllc_steals))"

definition steal_remote_node :: "'k kern \<Rightarrow> rodata \<Rightarrow> i32 \<Rightarrow> ('k bpf, bool) action" where
  "steal_remote_node K R cpu =
     bindS (gets g_nr_cpu_ids) (\<lambda>n.
     if \<not> is_cpu_valid n cpu \<or> nr_nodes (ro_topology R) \<le> 1 then return False
     else bindS (scan_nodes K R (cpu_node_idx_for R n cpu) (map of_nat [1..<MAX_NODES]) (None, 0, 0))
            (steal_counted K Nr_xnode_steals))"

definition steal_remote_cpu :: "'k kern \<Rightarrow> i32 \<Rightarrow> bool \<Rightarrow> ('k bpf, bool) action" where
  "steal_remote_cpu K cpu same_llc_only =
     bindS (gets g_nr_cpu_ids) (\<lambda>n.
     if \<not> is_cpu_valid n cpu then return False
     else bindS (scan_cpus K n cpu same_llc_only (map of_nat [0..<unat n]) (None, 0, 0)) (take_best K))"

section \<open>ops.dispatch\<close>

definition is_deadline_min :: "(ptr \<Rightarrow> task_struct) \<Rightarrow> ptr option \<Rightarrow> ptr option \<Rightarrow> bool" where
  "is_deadline_min m p1 p2 \<longleftrightarrow>
     (case p1 of None \<Rightarrow> False
      | Some a \<Rightarrow> (case p2 of None \<Rightarrow> True | Some b \<Rightarrow> ts_dsq_vtime (m a) < ts_dsq_vtime (m b)))"

text \<open>A head with the queue it was seen in; \<open>keep_min\<close> is one of the three tests against the best so far.\<close>

definition keep_min :: "(ptr \<Rightarrow> task_struct) \<Rightarrow> ptr option \<times> u64 \<Rightarrow> ptr option \<times> u64 \<Rightarrow> ptr option \<times> u64" where
  "keep_min m new best = (if is_deadline_min m (fst new) (fst best) then new else best)"

definition earliest_head :: "(ptr \<Rightarrow> task_struct) \<Rightarrow> ptr option \<times> u64 \<Rightarrow> ptr option \<times> u64 \<Rightarrow> ptr option \<times> u64 \<Rightarrow>
    ptr option \<times> u64 \<Rightarrow> ptr option \<times> u64" where
  "earliest_head m local llc node shared =
     (let best = (fst local, if fst local = None then 0 else snd local)
      in keep_min m shared (keep_min m node (keep_min m llc best)))"

definition move_if :: "'k kern \<Rightarrow> bool \<Rightarrow> u64 \<Rightarrow> ('k bpf, bool) action" where
  "move_if K b dsq = (if b then move_to_local K dsq else return False)"

definition own_queues :: "'k kern \<Rightarrow> rodata \<Rightarrow> i32 \<Rightarrow> ('k bpf, bool) action" where
  "own_queues K R cpu =
     bindS (gets g_nr_cpu_ids) (\<lambda>n.
     let local_dsq = cpu_to_dsq n cpu; llc_dsq = cpu_llc_dsq R n cpu; node_dsq = cpu_node_dsq R n cpu in
     bindS (query (k_dsq_peek K local_dsq)) (\<lambda>local.
     bindS (query (k_dsq_peek K llc_dsq)) (\<lambda>llc.
     bindS (if 1 < nr_nodes (ro_topology R) then query (k_dsq_peek K node_dsq) else return None) (\<lambda>node.
     bindS (query (k_dsq_peek K SHARED_DSQ)) (\<lambda>shared.
     bindS (gets tasks) (\<lambda>m.
     case earliest_head m (local, local_dsq) (llc, llc_dsq) (node, node_dsq) (shared, SHARED_DSQ) of (best, best_dsq) \<Rightarrow>
       first_success
         [move_if K (best \<noteq> None) best_dsq,
          move_if K (local \<noteq> None \<and> best_dsq \<noteq> local_dsq) local_dsq,
          move_if K (llc \<noteq> None \<and> best_dsq \<noteq> llc_dsq) llc_dsq,
          move_if K (node \<noteq> None \<and> best_dsq \<noteq> node_dsq) node_dsq,
          move_if K (shared \<noteq> None \<and> best_dsq \<noteq> SHARED_DSQ) SHARED_DSQ]))))))"

definition steals :: "'k kern \<Rightarrow> rodata \<Rightarrow> i32 \<Rightarrow> ('k bpf, bool) action" where
  "steals K R cpu = first_success
     [steal_remote_cpu K cpu True, steal_remote_cpu K cpu False, steal_remote_llc K R cpu True,
      steal_remote_node K R cpu, steal_remote_llc K R cpu False]"

text \<open>When nothing else wants to run, the task that ran gets another slice.\<close>

definition replenish :: "'k kern \<Rightarrow> rodata \<Rightarrow> i32 \<Rightarrow> ptr option \<Rightarrow> ('k bpf, unit) action" where
  "replenish K R cpu prev =
     (case prev of
        None \<Rightarrow> return ()
      | Some p \<Rightarrow> bindS (task_at p) (\<lambda>t.
          bindS (and_then (return (is_queued K t))
                   (if \<not> is_usersched_task R t then return True else usersched_has_pending_tasks K R)) (\<lambda>again.
          if again then bindS (task_slice K R p cpu) (\<lambda>x. put_task p (\<lambda>t. t\<lparr>ts_slice := x\<rparr>))
          else return ())))"

definition cognis_dispatch :: "'k kern \<Rightarrow> rodata \<Rightarrow> i32 \<Rightarrow> ptr option \<Rightarrow> ('k bpf, unit) action" where
  "cognis_dispatch K R cpu prev =
     bindS (query (k_now K)) (\<lambda>now.
     bindS (modify (\<lambda>s. s\<lparr>g_last_dispatch_at := now\<rparr>)) (\<lambda>_.
     bindS (drain K (k_max_user_samples K) 0) (\<lambda>_.
     bindS (first_success
       [and_then (usersched_has_pending_tasks K R) (move_to_local K SCHED_DSQ), own_queues K R cpu, steals K R cpu]) (\<lambda>served.
     if served then return () else replenish K R cpu prev))))"

fun any_backlog :: "'k kern \<Rightarrow> u64 list \<Rightarrow> ('k bpf, bool) action" where
  "any_backlog K [] = return False"
| "any_backlog K (d # ds) = bindS (nr_waiting K d) (\<lambda>n. if n \<noteq> 0 then return True else any_backlog K ds)"

definition dsq_backlog_exists :: "'k kern \<Rightarrow> rodata \<Rightarrow> ('k bpf, bool) action" where
  "dsq_backlog_exists K R =
     bindS (gets g_nr_cpu_ids) (\<lambda>n.
     any_backlog K (SHARED_DSQ # map (\<lambda>c. cpu_to_dsq n (of_nat c)) [0..<unat n] @
       map (\<lambda>i. llc_to_dsq (of_nat i)) [0..<min MAX_LLCS (unat (nr_llcs (ro_topology R)))] @
       map (\<lambda>i. node_to_dsq (of_nat i)) [0..<min MAX_NODES (unat (nr_nodes (ro_topology R)))]))"

section \<open>The loops as one scan over a list of queues\<close>

fun weigh_all :: "'k kern \<Rightarrow> (task_struct \<Rightarrow> bool) \<Rightarrow> u64 list \<Rightarrow> best_head \<Rightarrow> ('k bpf, best_head) action" where
  "weigh_all K fits [] best = return best"
| "weigh_all K fits (d # ds) best = bindS (weigh K fits d best) (weigh_all K fits ds)"

definition other_indices :: "u32 \<Rightarrow> u32 \<Rightarrow> u32 list \<Rightarrow> u32 list" where
  "other_indices nr mine js = map (wrap_index nr mine) (takeWhile (\<lambda>i. i < nr) js)"

lemma scan_llcs_weigh:
  "scan_llcs K R mine node near js b = weigh_all K (\<lambda>_. True)
     (map llc_to_dsq (filter (\<lambda>v. near \<longrightarrow> llc_node_idx_for R v = node)
       (other_indices (nr_llcs (ro_topology R)) mine js))) b"
proof (induction js arbitrary: b)
  case (Cons i js)
  have "scan_llcs K R mine node near js = weigh_all K (\<lambda>_. True)
     (map llc_to_dsq (filter (\<lambda>v. near \<longrightarrow> llc_node_idx_for R v = node)
       (other_indices (nr_llcs (ro_topology R)) mine js)))" by (rule ext) (rule Cons.IH)
  then show ?case
    by (cases "nr_llcs (ro_topology R) \<le> i"; cases near) (auto simp: other_indices_def Let_def)
qed (simp add: other_indices_def)

lemma scan_nodes_weigh:
  "scan_nodes K R mine js b =
     weigh_all K (\<lambda>_. True) (map node_to_dsq (other_indices (nr_nodes (ro_topology R)) mine js)) b"
proof (induction js arbitrary: b)
  case (Cons i js)
  have "scan_nodes K R mine js =
     weigh_all K (\<lambda>_. True) (map node_to_dsq (other_indices (nr_nodes (ro_topology R)) mine js))"
    by (rule ext) (rule Cons.IH)
  then show ?case by (cases "nr_nodes (ro_topology R) \<le> i") (auto simp: other_indices_def)
qed (simp add: other_indices_def)

lemma scan_cpus_weigh:
  "scan_cpus K n cpu near vs b = weigh_all K (\<lambda>t. ts_cpus_ptr t cpu)
     (map (cpu_to_dsq n) (filter (\<lambda>v. v \<noteq> cpu \<and> (near \<longrightarrow> cpus_share_cache K n cpu v)) vs)) b"
proof (induction vs arbitrary: b)
  case (Cons v vs)
  have "scan_cpus K n cpu near vs = weigh_all K (\<lambda>t. ts_cpus_ptr t cpu)
     (map (cpu_to_dsq n) (filter (\<lambda>v. v \<noteq> cpu \<and> (near \<longrightarrow> cpus_share_cache K n cpu v)) vs))"
    by (rule ext) (rule Cons.IH)
  then show ?case by (cases near) simp_all
qed simp

lemma takeWhile_upt_less: "a \<le> n \<Longrightarrow> n \<le> b \<Longrightarrow> takeWhile (\<lambda>i. i < n) [a..<b] = [a..<n]"
proof -
  assume le: "a \<le> n" "n \<le> b"
  then have "[a..<b] = [a..<n] @ [n..<b]" by (metis le_add_diff_inverse upt_add_eq_append)
  moreover have "takeWhile (\<lambda>i. i < n) [n..<b] = []" by (cases "n < b") (auto simp: upt_conv_Cons)
  ultimately show ?thesis using takeWhile_append2 [of "[a..<n]" "\<lambda>i. i < n" "[n..<b]"] by simp
qed

text \<open>From the next index round to the one before: every other index exactly once and never the own one.\<close>

lemma other_indices_all:
  assumes "unat nr \<le> 64" and "mine < nr"
  shows "distinct (other_indices nr mine (map of_nat [1..<64])) \<and>
    set (other_indices nr mine (map of_nat [1..<64])) = {v. v < nr} - {mine}"
proof -
  let ?N = "unat nr" and ?m = "unat mine" and ?f = "\<lambda>i. (unat mine + i) mod unat nr"
  have m: "?m < ?N" using assms(2) by (simp add: word_less_nat_alt)
  have small: "(of_nat i :: u32) < nr \<longleftrightarrow> i < ?N" if "i < 64" for i
    using that by (simp add: word_less_nat_alt unsigned_of_nat take_bit_nat_eq_self)
  have "takeWhile (\<lambda>i. (of_nat i :: u32) < nr) [1..<64] = takeWhile (\<lambda>i. i < ?N) [1..<64]"
    by (rule takeWhile_cong) (auto simp: small)
  then have "takeWhile (\<lambda>i. i < nr) (map of_nat [1..<64]) = map of_nat (takeWhile (\<lambda>i. i < ?N) [1..<64])"
    by (simp only: takeWhile_map comp_def)
  also have "takeWhile (\<lambda>i. i < ?N) [1..<64] = [1..<?N]"
    using assms(1) m by (intro takeWhile_upt_less) auto
  finally have list: "other_indices nr mine (map of_nat [1..<64]) = map (\<lambda>i. wrap_index nr mine (of_nat i)) [1..<?N]"
    by (simp add: other_indices_def)
  have wrap: "unat (wrap_index nr mine (of_nat i)) = ?f i" if "i < ?N" for i
  proof -
    have i: "unat (of_nat i :: u32) = i" using that assms(1) by (simp add: unsigned_of_nat take_bit_nat_eq_self)
    then have "unat (mine + of_nat i) = ?m + i" using that m assms(1) by (simp add: unat_word_ariths)
    then show ?thesis using that m
      by (auto simp: wrap_index_def word_le_nat_alt unat_sub mod_if)
  qed
  have inj: "inj_on ?f {0..<?N}" using mod_shift_inj by (auto intro!: inj_onI)
  then have part: "inj_on ?f {1..<?N}" by (rule inj_on_subset) auto
  have "?f i \<noteq> ?m" if "i \<in> {1..<?N}" for i
    using mod_shift_inj [of i ?N 0 ?m] that m by auto
  then have sub: "?f ` {1..<?N} \<subseteq> {0..<?N} - {?m}" using m by auto
  have "card (?f ` {1..<?N}) = card ({0..<?N} - {?m})" using m card_image [OF part] by simp
  then have img: "?f ` {1..<?N} = {0..<?N} - {?m}" by (intro card_subset_eq sub) simp_all
  define xs where "xs = other_indices nr mine (map of_nat [1..<64])"
  have unats: "map unat xs = map ?f [1..<?N]" unfolding xs_def list using wrap by (simp add: comp_def)
  have "distinct (map unat xs)" unfolding unats using part by (simp add: distinct_map)
  then have dis: "distinct xs" by (simp add: distinct_map)
  have "set (map unat xs) = ?f ` {1..<?N}" unfolding unats by simp
  then have img': "unat ` set xs = {0..<?N} - {?m}" using img by simp
  have "x \<in> set xs \<longleftrightarrow> unat x \<in> unat ` set xs" for x
    by (auto dest!: word_unat_eq_iff [THEN iffD2])
  then have mem: "x \<in> set xs \<longleftrightarrow> x < nr \<and> x \<noteq> mine" for x
    unfolding img' word_less_nat_alt word_unat_eq_iff [of x mine] by simp
  have "set xs = {v. v < nr} - {mine}" by (rule set_eqI) (unfold mem, blast)
  with dis show ?thesis unfolding xs_def by blast
qed

section \<open>The best head\<close>

text \<open>
  \<open>standing K depth head s\<close>: in \<open>s\<close> the kernel reports the length \<open>depth d\<close> and the head \<open>head d\<close> of every
  queue, an empty queue has no head, and neither asking nor a move that fails changes anything.
\<close>

definition standing :: "'k kern \<Rightarrow> (u64 \<Rightarrow> i32) \<Rightarrow> (u64 \<Rightarrow> ptr option) \<Rightarrow> 'k bpf \<Rightarrow> bool" where
  "standing K depth head s \<longleftrightarrow> depths_are K depth s \<and>
     (\<forall>d. k_dsq_peek K d (tasks s, kst s) = (head d, (tasks s, kst s)) \<and> (depth d = 0 \<longleftrightarrow> head d = None) \<and>
        (\<not> fst (k_move_to_local K d (tasks s, kst s)) \<longrightarrow> snd (k_move_to_local K d (tasks s, kst s)) = (tasks s, kst s)))"

lemma standing_depths: "standing K depth head s \<Longrightarrow> depths_are K depth s" by (simp add: standing_def)

text \<open>What a scan may take from a queue: its head, if it passes the affinity test.\<close>

definition candidate :: "(ptr \<Rightarrow> task_struct) \<Rightarrow> (task_struct \<Rightarrow> bool) \<Rightarrow> (u64 \<Rightarrow> ptr option) \<Rightarrow> u64 \<Rightarrow> ptr option" where
  "candidate m fits head d = (case head d of None \<Rightarrow> None | Some c \<Rightarrow> if fits (m c) then Some c else None)"

definition weighed :: "(ptr \<Rightarrow> task_struct) \<Rightarrow> (task_struct \<Rightarrow> bool) \<Rightarrow> (u64 \<Rightarrow> i32) \<Rightarrow> (u64 \<Rightarrow> ptr option) \<Rightarrow> u64 \<Rightarrow> best_head \<Rightarrow> best_head" where
  "weighed m fits depth head d best =
     (if is_remote_head_better m (candidate m fits head d) (scast (depth d)) (fst best) (fst (snd best))
      then (candidate m fits head d, scast (depth d), d) else best)"

lemma scast_zero: "(scast (n :: i32) :: u64) = 0 \<longleftrightarrow> n = 0"
proof
  assume "(scast n :: u64) = 0"
  then have "uint (word_of_int (sint n) :: u64) = 0" by (simp only: scast_eq uint_0_eq)
  then have "take_bit 64 (sint n) = 0" by (simp only: uint_word_of_int_eq) simp
  then have "take_bit 32 (take_bit 64 (sint n)) = (0 :: int)" by simp
  then have "uint n = 0" by (simp add: uint_sint)
  then show "n = 0" by (simp add: unsigned_eq_0_iff)
qed simp

lemma wp_weigh:
  assumes "standing K depth head s"
  shows "wp (weigh K fits d b) Q s \<longleftrightarrow> Q (weighed (tasks s) fits depth head d b) s"
proof -
  obtain h n q where b: "b = (h, n, q)" by (cases b)
  have peek: "k_dsq_peek K d (tasks s, kst s) = (head d, (tasks s, kst s))" and none: "depth d = 0 \<longleftrightarrow> head d = None"
    using assms by (simp_all add: standing_def)
  show ?thesis
    by (cases "head d")
      (simp_all add: weigh_def b wp_simps wp_nr_waiting [OF standing_depths [OF assms]] scast_zero peek none weighed_def
        candidate_def is_remote_head_better_def)
qed

lemma wp_weigh_all:
  assumes "standing K depth head s"
  shows "wp (weigh_all K fits ds b) Q s \<longleftrightarrow> Q (fold (weighed (tasks s) fits depth head) ds b) s"
  by (induction ds arbitrary: b) (simp_all add: wp_simps wp_weigh [OF assms])

text \<open>After the queues \<open>D\<close>, the best is the earliest deadline among their candidates, if there is one.\<close>

definition best_of :: "(ptr \<Rightarrow> task_struct) \<Rightarrow> (u64 \<Rightarrow> ptr option) \<Rightarrow> u64 set \<Rightarrow> best_head \<Rightarrow> bool" where
  "best_of m cand D b \<longleftrightarrow>
     (case fst b of
        None \<Rightarrow> \<forall>d \<in> D. cand d = None
      | Some h \<Rightarrow> snd (snd b) \<in> D \<and> cand (snd (snd b)) = Some h \<and>
          (\<forall>d \<in> D. \<forall>c. cand d = Some c \<longrightarrow> ts_dsq_vtime (m h) \<le> ts_dsq_vtime (m c)))"

lemma best_of_step:
  assumes "best_of m (candidate m fits head) D b"
  shows "best_of m (candidate m fits head) (insert d D) (weighed m fits depth head d b)"
  using assms
  by (auto simp: best_of_def weighed_def is_remote_head_better_def split: option.splits if_splits)

lemma best_of_fold:
  "best_of m (candidate m fits head) D b \<Longrightarrow>
    best_of m (candidate m fits head) (set ds \<union> D) (fold (weighed m fits depth head) ds b)"
proof (induction ds arbitrary: D b)
  case (Cons d ds)
  then show ?case using Cons.IH [OF best_of_step [OF Cons.prems, of d depth]] by (simp add: insert_commute)
qed simp

lemma best_of_scan: "best_of m (candidate m fits head) (set ds) (fold (weighed m fits depth head) ds (None, 0, 0))"
  using best_of_fold [of m fits head "{}" "(None, 0, 0)" ds depth] by (simp add: best_of_def)

text \<open>With no affinity test, the best is a head with the earliest deadline and, among those, of the longest queue.\<close>

definition foremost :: "(ptr \<Rightarrow> task_struct) \<Rightarrow> (u64 \<Rightarrow> i32) \<Rightarrow> (u64 \<Rightarrow> ptr option) \<Rightarrow> u64 set \<Rightarrow> u64 \<Rightarrow> ptr \<Rightarrow> bool" where
  "foremost m depth head D d p \<longleftrightarrow> d \<in> D \<and> head d = Some p \<and>
     (\<forall>d' \<in> D. \<forall>p'. head d' = Some p' \<longrightarrow> ts_dsq_vtime (m p) < ts_dsq_vtime (m p') \<or>
        ts_dsq_vtime (m p) = ts_dsq_vtime (m p') \<and> (scast (depth d') :: u64) \<le> scast (depth d))"

definition leads :: "(ptr \<Rightarrow> task_struct) \<Rightarrow> (u64 \<Rightarrow> i32) \<Rightarrow> (u64 \<Rightarrow> ptr option) \<Rightarrow> u64 set \<Rightarrow> best_head \<Rightarrow> bool" where
  "leads m depth head D b \<longleftrightarrow> (case b of (None, _) \<Rightarrow> \<forall>d \<in> D. head d = None
     | (Some p, n, d) \<Rightarrow> foremost m depth head D d p \<and> n = scast (depth d))"

lemma candidate_any: "candidate m (\<lambda>_. True) head d = head d"
  by (simp add: candidate_def split: option.splits)

lemma leads_step:
  assumes "leads m depth head D b"
  shows "leads m depth head (insert d D) (weighed m (\<lambda>_. True) depth head d b)"
proof -
  obtain h n e where b: "b = (h, n, e)" by (cases b)
  show ?thesis
  proof (cases "is_remote_head_better m (head d) (scast (depth d)) h n")
    case True
    then show ?thesis using assms
      by (fastforce simp: b leads_def foremost_def weighed_def is_remote_head_better_def candidate_any split: option.splits if_splits)
  next
    case False
    then show ?thesis using assms
      by (fastforce simp: b leads_def foremost_def weighed_def is_remote_head_better_def candidate_any not_less split: option.splits if_splits)
  qed
qed

lemma leads_fold:
  "leads m depth head D b \<Longrightarrow> leads m depth head (set ds \<union> D) (fold (weighed m (\<lambda>_. True) depth head) ds b)"
proof (induction ds arbitrary: D b)
  case (Cons d ds)
  then show ?case using Cons.IH [OF leads_step [OF Cons.prems, of d]] by (simp add: insert_commute)
qed simp

lemma leads_scan: "leads m depth head (set ds) (fold (weighed m (\<lambda>_. True) depth head) ds (None, 0, 0))"
  using leads_fold [of m depth head "{}" "(None, 0, 0)" ds] by (simp add: leads_def)

section \<open>The earliest deadline among the queues of a CPU\<close>

lemma keep_min_best:
  assumes "\<And>h. h \<in> H \<Longrightarrow> fst h \<noteq> None \<Longrightarrow> fst best \<noteq> None \<and> \<not> is_deadline_min m (fst h) (fst best)"
    and "fst best \<noteq> None \<Longrightarrow> best \<in> H"
  shows "(\<forall>h \<in> insert new H. fst h \<noteq> None \<longrightarrow> fst (keep_min m new best) \<noteq> None \<and>
           \<not> is_deadline_min m (fst h) (fst (keep_min m new best))) \<and>
         (fst (keep_min m new best) \<noteq> None \<longrightarrow> keep_min m new best \<in> insert new H)"
proof (cases "is_deadline_min m (fst new) (fst best)")
  case True
  then have "\<not> is_deadline_min m (fst h) (fst new)" if "h \<in> insert new H" for h
    using assms(1) [of h] that
    by (auto simp: is_deadline_min_def split: option.splits)
  then show ?thesis using True by (auto simp: keep_min_def is_deadline_min_def split: option.splits)
next
  case False
  then show ?thesis using assms by (auto simp: keep_min_def is_deadline_min_def split: option.splits)
qed

lemma earliest_head_best:
  assumes "b = earliest_head m local llc node shared"
  shows "\<forall>h \<in> {local, llc, node, shared}. fst h \<noteq> None \<longrightarrow> fst b \<noteq> None \<and> \<not> is_deadline_min m (fst h) (fst b)"
    and "fst b \<noteq> None \<Longrightarrow> b \<in> {local, llc, node, shared}"
proof -
  define b0 where "b0 = (fst local, if fst local = None then 0 else snd local)"
  have b: "b = keep_min m shared (keep_min m node (keep_min m llc b0))"
    using assms by (simp add: earliest_head_def b0_def)
  have 0: "\<forall>h \<in> {local}. fst h \<noteq> None \<longrightarrow> fst b0 \<noteq> None \<and> \<not> is_deadline_min m (fst h) (fst b0)"
    "fst b0 \<noteq> None \<longrightarrow> b0 \<in> {local}"
    by (auto simp: b0_def is_deadline_min_def prod_eq_iff split: option.splits)
  note 1 = keep_min_best [of "{local}" b0 m llc, OF 0(1) [rule_format] 0(2) [rule_format]]
  note 2 = keep_min_best [of _ "keep_min m llc b0" m node, OF 1 [THEN conjunct1, rule_format] 1 [THEN conjunct2, rule_format]]
  note 3 = keep_min_best [of _ "keep_min m node (keep_min m llc b0)" m shared,
      OF 2 [THEN conjunct1, rule_format] 2 [THEN conjunct2, rule_format]]
  have set: "insert shared (insert node (insert llc {local})) = {local, llc, node, shared}" by blast
  show "\<forall>h \<in> {local, llc, node, shared}. fst h \<noteq> None \<longrightarrow> fst b \<noteq> None \<and> \<not> is_deadline_min m (fst h) (fst b)"
    using 3 [THEN conjunct1] unfolding b set .
  show "fst b \<noteq> None \<Longrightarrow> b \<in> {local, llc, node, shared}"
    using 3 [THEN conjunct2] unfolding b set by (rule mp)
qed

text \<open>The queues \<open>cpu\<close> serves before it steals, and what it sees at their heads.\<close>

definition own_dsqs :: "rodata \<Rightarrow> u64 \<Rightarrow> i32 \<Rightarrow> u64 set" where
  "own_dsqs R n cpu = {cpu_to_dsq n cpu, cpu_llc_dsq R n cpu, SHARED_DSQ} \<union>
     (if 1 < nr_nodes (ro_topology R) then {cpu_node_dsq R n cpu} else {})"

lemma wp_or_else [wp_simps]:
  "wp (or_else a b) Q s \<longleftrightarrow> wp a (\<lambda>x s'. if x then Q True s' else wp b Q s') s"
  unfolding or_else_def wp_bindS by (rule arg_cong [of _ _ "\<lambda>P. wp a P s"]) (auto simp: wp_simps fun_eq_iff)

lemma wp_move_to_local:
  "wp (move_to_local K d) Q s \<longleftrightarrow> (case k_move_to_local K d (tasks s, kst s) of (ok, (m, k)) \<Rightarrow>
     Q ok (s\<lparr>tasks := m, kst := k, requests := requests s @ [Move_To_Local d ok]\<rparr>))"
  by (simp add: move_to_local_def wp_ask_for)

text \<open>
  C7. While the queues stand, \<open>ops.dispatch\<close> serves the earliest deadline: of the tasks at the heads of the queue
  of the CPU, of its LLC, of its node (on machines with several) and of the shared queue, the one it moves to
  the CPU has the smallest deadline, and nothing else is asked of the kernel.
\<close>

theorem dispatch_serves_earliest_deadline:
  assumes st: "standing K depth head s"
    and some: "\<exists>d \<in> own_dsqs R (g_nr_cpu_ids s) cpu. head d \<noteq> None"
    and moves: "\<forall>d \<in> own_dsqs R (g_nr_cpu_ids s) cpu. head d \<noteq> None \<longrightarrow> fst (k_move_to_local K d (tasks s, kst s))"
  shows "\<exists>d p s'. own_queues K R cpu s = Inr (True, s') \<and> requests s' = requests s @ [Move_To_Local d True] \<and>
    d \<in> own_dsqs R (g_nr_cpu_ids s) cpu \<and> head d = Some p \<and>
    (\<forall>d' \<in> own_dsqs R (g_nr_cpu_ids s) cpu. \<forall>p'. head d' = Some p' \<longrightarrow>
       ts_dsq_vtime (tasks s p) \<le> ts_dsq_vtime (tasks s p'))"
proof -
  let ?n = "g_nr_cpu_ids s"
  let ?local = "(head (cpu_to_dsq ?n cpu), cpu_to_dsq ?n cpu)" and ?llc = "(head (cpu_llc_dsq R ?n cpu), cpu_llc_dsq R ?n cpu)"
  let ?node = "(if 1 < nr_nodes (ro_topology R) then head (cpu_node_dsq R ?n cpu) else None, cpu_node_dsq R ?n cpu)"
  let ?shared = "(head SHARED_DSQ, SHARED_DSQ)"
  obtain q d where b: "earliest_head (tasks s) ?local ?llc ?node ?shared = (q, d)" by fastforce
  note best = earliest_head_best [OF b [symmetric]]
  have least: "q \<noteq> None \<and> \<not> is_deadline_min (tasks s) (head d') q" if "d' \<in> own_dsqs R ?n cpu" "head d' \<noteq> None" for d'
    using best(1) that by (auto simp: own_dsqs_def split: if_splits)
  then have "q \<noteq> None" using some by blast
  then obtain p where q: "q = Some p" by auto
  then have d: "d \<in> own_dsqs R ?n cpu" "head d = Some p" using best(2) by (auto simp: own_dsqs_def split: if_splits)
  have peek: "\<And>d. k_dsq_peek K d (tasks s, kst s) = (head d, (tasks s, kst s))" using st by (simp add: standing_def)
  obtain m k where move: "k_move_to_local K d (tasks s, kst s) = (True, (m, k))"
    using moves d by (metis option.distinct(1) prod.collapse)
  have "wp (own_queues K R cpu) (\<lambda>x s'. x \<and>
      s' = s\<lparr>tasks := m, kst := k, requests := requests s @ [Move_To_Local d True]\<rparr>) s"
    using b q by (cases "1 < nr_nodes (ro_topology R)")
      (simp_all add: own_queues_def wp_simps peek Let_def move_if_def wp_move_to_local move)
  then have "own_queues K R cpu s = Inr (True, s\<lparr>tasks := m, kst := k, requests := requests s @ [Move_To_Local d True]\<rparr>)"
    by (auto simp: wp_iff)
  moreover have "ts_dsq_vtime (tasks s p) \<le> ts_dsq_vtime (tasks s p')" if "d' \<in> own_dsqs R ?n cpu" "head d' = Some p'" for d' p'
    using least [OF that(1)] that(2) by (auto simp: q is_deadline_min_def)
  ultimately show ?thesis using d by fastforce
qed

definition bench_race :: "(u64 \<Rightarrow> ptr list) bpf" where
  "bench_race = bench_up\<lparr>kst := (\<lambda>_. [])(0 := [9], 1024 := [8]),
     tasks := (\<lambda>_. bench_task)(9 := bench_task\<lparr>ts_dsq_vtime := 50\<rparr>, 8 := bench_task\<lparr>ts_dsq_vtime := 40\<rparr>)\<rparr>"

definition bench_head :: "(u64 \<Rightarrow> ptr list) bpf \<Rightarrow> u64 \<Rightarrow> ptr option" where
  "bench_head s d = (case kst s d of [] \<Rightarrow> None | p # _ \<Rightarrow> Some p)"

lemma bench_standing:
  assumes "\<forall>d. length (kst s d) < 2 ^ 31" shows "standing bench (\<lambda>d. of_nat (length (kst s d))) (bench_head s) s"
proof -
  have "(of_nat (length (kst s d)) :: i32) = 0 \<longleftrightarrow> kst s d = []" for d
    using assms [rule_format, of d] by (simp add: word_unat_eq_iff unsigned_of_nat take_bit_nat_eq_self)
  then show ?thesis
    unfolding standing_def by (intro conjI bench_depths) (auto simp: bench_head_def bench_def split: list.splits)
qed

theorem dispatch_serves_earliest_deadline_witness:
  "\<exists>s'. own_queues bench bench_ro 0 bench_race = Inr (True, s') \<and> requests s' = [Move_To_Local 1024 True]"
proof -
  have own: "own_dsqs bench_ro (g_nr_cpu_ids bench_race) 0 = {0, 1026, 1024}"
    by (simp add: own_dsqs_def bench_race_def bench_up_def is_cpu_valid_def dsq_defs cpu_to_dsq_def cpu_llc_dsq_def
        cpu_llc_idx_for_def llc_to_dsq_def bench_ro_def export_default_def)
  have heads: "bench_head bench_race 0 = Some 9" "bench_head bench_race 1026 = None" "bench_head bench_race 1024 = Some 8"
    and vt: "ts_dsq_vtime (tasks bench_race 9) = 50" "ts_dsq_vtime (tasks bench_race 8) = 40" "requests bench_race = []"
    by (simp_all add: bench_head_def bench_race_def bench_up_def bench_boot_def)
  have "standing bench (\<lambda>d. of_nat (length (kst bench_race d))) (bench_head bench_race) bench_race"
    by (rule bench_standing) (simp add: bench_race_def)
  moreover have "bench_head bench_race d \<noteq> None \<longrightarrow> fst (k_move_to_local bench d (tasks bench_race, kst bench_race))" for d
    by (auto simp: bench_head_def bench_def)
  ultimately obtain d p s' where "own_queues bench bench_ro 0 bench_race = Inr (True, s')"
    "requests s' = requests bench_race @ [Move_To_Local d True]" "d \<in> {0, 1026, 1024}" "bench_head bench_race d = Some p"
    "\<forall>d' \<in> {0, 1026, 1024}. \<forall>p'. bench_head bench_race d' = Some p' \<longrightarrow>
       ts_dsq_vtime (tasks bench_race p) \<le> ts_dsq_vtime (tasks bench_race p')"
    using dispatch_serves_earliest_deadline [of bench _ "bench_head bench_race" bench_race bench_ro 0] unfolding own
    using heads by (metis insert_iff option.distinct(1))
  moreover from this have "d = 1024" using heads vt by auto
  ultimately show ?thesis using vt(3) by auto
qed

section \<open>Remote steals\<close>

text \<open>
  The specification of a steal from the queues \<open>D\<close> while they stand: with no task at their heads nothing happens;
  otherwise exactly one move is asked for, from a foremost queue, and \<open>c\<close> counts it if it succeeds.
\<close>

definition stolen_from ::
    "(u64 \<Rightarrow> i32) \<Rightarrow> (u64 \<Rightarrow> ptr option) \<Rightarrow> bss_counter \<Rightarrow> u64 set \<Rightarrow> 'k bpf \<Rightarrow> bool \<Rightarrow> 'k bpf \<Rightarrow> bool" where
  "stolen_from depth head c D s ok s' \<longleftrightarrow>
     (if \<forall>d \<in> D. head d = None then \<not> ok \<and> s' = s
      else (\<exists>d p. foremost (tasks s) depth head D d p \<and> requests s' = requests s @ [Move_To_Local d ok]) \<and>
        counters s' = (if ok then (counters s)(c := counters s c + 1) else counters s))"

lemma wp_steal_scan:
  assumes st: "standing K depth head s"
  shows "wp (bindS (weigh_all K (\<lambda>_. True) ds (None, 0, 0)) (steal_counted K c)) (stolen_from depth head c (set ds) s) s"
proof -
  obtain h n d where b: "fold (weighed (tasks s) (\<lambda>_. True) depth head) ds (None, 0, 0) = (h, n, d)" by (metis prod.exhaust)
  have lead: "leads (tasks s) depth head (set ds) (h, n, d)" using leads_scan [of "tasks s" depth head ds] unfolding b .
  have "wp (steal_counted K c (h, n, d)) (stolen_from depth head c (set ds) s) s"
  proof (cases h)
    case None
    then show ?thesis using lead by (simp add: steal_counted_def take_best_def wp_bindS wp_return leads_def stolen_from_def)
  next
    case (Some p)
    then have f: "foremost (tasks s) depth head (set ds) d p" using lead by (simp add: leads_def)
    then have some: "\<not> (\<forall>d \<in> set ds. head d = None)" by (auto simp: foremost_def)
    obtain ok m k where "k_move_to_local K d (tasks s, kst s) = (ok, (m, k))" by (metis prod.collapse)
    then show ?thesis using f some
      by (cases ok) (auto simp: steal_counted_def take_best_def Some wp_bindS wp_return wp_move_to_local bump_def wp_modify stolen_from_def)
  qed
  then show ?thesis by (simp only: wp_bindS wp_weigh_all [OF st] b)
qed

definition other_llcs :: "rodata \<Rightarrow> u64 \<Rightarrow> i32 \<Rightarrow> bool \<Rightarrow> u64 set" where
  "other_llcs R n cpu same_node_only = llc_to_dsq ` {v. v < nr_llcs (ro_topology R) \<and> v \<noteq> cpu_llc_idx_for R n cpu \<and>
     (same_node_only \<longrightarrow> llc_node_idx_for R v = cpu_node_idx_for R n cpu)}"

definition other_nodes :: "rodata \<Rightarrow> u64 \<Rightarrow> i32 \<Rightarrow> u64 set" where
  "other_nodes R n cpu = node_to_dsq ` {v. v < nr_nodes (ro_topology R) \<and> v \<noteq> cpu_node_idx_for R n cpu}"

text \<open>
  C37. The remote steals look at every other domain. While the queues stand, for a CPU whose LLC and node have exported
  indices: a steal between LLCs considers the queues of all LLCs but its own, of those of its node only when it is
  asked to stay there, and a steal between nodes those of all nodes but its own; it takes from the queue whose
  head has the earliest deadline, the longest such queue on a tie, by one request, counts what it got, and does
  nothing at all when all these queues are empty.
\<close>

theorem remote_steals_take_foremost:
  assumes st: "standing K depth head s" and cpu: "is_cpu_valid (g_nr_cpu_ids s) cpu"
    and llcs: "unat (nr_llcs (ro_topology R)) \<le> 64" "cpu_llc_idx_for R (g_nr_cpu_ids s) cpu < nr_llcs (ro_topology R)"
    and nodes: "unat (nr_nodes (ro_topology R)) \<le> 64" "cpu_node_idx_for R (g_nr_cpu_ids s) cpu < nr_nodes (ro_topology R)"
  shows "(\<exists>ok s'. steal_remote_llc K R cpu near s = Inr (ok, s') \<and>
      stolen_from depth head Nr_xllc_steals (other_llcs R (g_nr_cpu_ids s) cpu near) s ok s') \<and>
    (\<exists>ok s'. steal_remote_node K R cpu s = Inr (ok, s') \<and>
      stolen_from depth head Nr_xnode_steals (other_nodes R (g_nr_cpu_ids s) cpu) s ok s')"
proof -
  let ?n = "g_nr_cpu_ids s" and ?L = "nr_llcs (ro_topology R)" and ?N = "nr_nodes (ro_topology R)"
  define lv where "lv = filter (\<lambda>v. near \<longrightarrow> llc_node_idx_for R v = cpu_node_idx_for R ?n cpu)
      (other_indices ?L (cpu_llc_idx_for R ?n cpu) (map of_nat [1..<MAX_LLCS]))"
  define nv where "nv = other_indices ?N (cpu_node_idx_for R ?n cpu) (map of_nat [1..<MAX_NODES])"
  have lset: "set (map llc_to_dsq lv) = other_llcs R ?n cpu near"
    using other_indices_all [OF llcs] by (auto simp: lv_def other_llcs_def MAX_LLCS_def)
  have nset: "set (map node_to_dsq nv) = other_nodes R ?n cpu"
    using other_indices_all [OF nodes] by (auto simp: nv_def other_nodes_def MAX_NODES_def)
  have one: "v = mine" if "nr \<le> 1" "v < nr" "mine < nr" for v mine nr :: u32
    using that by (simp add: word_le_nat_alt word_less_nat_alt word_unat_eq_iff)
  have "wp (steal_remote_llc K R cpu near) (stolen_from depth head Nr_xllc_steals (other_llcs R ?n cpu near) s) s"
  proof (cases "?L \<le> 1")
    case True
    then have "other_llcs R ?n cpu near = {}" using one llcs(2) by (auto simp: other_llcs_def)
    then show ?thesis using True cpu by (simp add: steal_remote_llc_def wp_bindS wp_gets wp_return stolen_from_def)
  next
    case False
    then show ?thesis
      using wp_steal_scan [OF st, of "map llc_to_dsq lv" Nr_xllc_steals] cpu
      unfolding lset by (simp add: steal_remote_llc_def scan_llcs_weigh lv_def wp_bindS [of "gets g_nr_cpu_ids"] wp_gets)
  qed
  moreover have "wp (steal_remote_node K R cpu) (stolen_from depth head Nr_xnode_steals (other_nodes R ?n cpu) s) s"
  proof (cases "?N \<le> 1")
    case True
    then have "other_nodes R ?n cpu = {}" using one nodes(2) by (auto simp: other_nodes_def)
    then show ?thesis using True cpu by (simp add: steal_remote_node_def wp_bindS wp_gets wp_return stolen_from_def)
  next
    case False
    then show ?thesis
      using wp_steal_scan [OF st, of "map node_to_dsq nv" Nr_xnode_steals] cpu
      unfolding nset by (simp add: steal_remote_node_def scan_nodes_weigh nv_def wp_bindS [of "gets g_nr_cpu_ids"] wp_gets)
  qed
  ultimately show ?thesis by (simp add: wp_iff)
qed

text \<open>Two LLCs in one node, with a task on the queue of the other LLC.\<close>

definition two_llcs :: rodata where
  "two_llcs = bench_ro\<lparr>ro_topology := export_default\<lparr>nr_llcs := 2\<rparr>\<rparr>"

definition bench_far :: "(u64 \<Rightarrow> ptr list) bpf" where
  "bench_far = bench_up\<lparr>kst := (\<lambda>_. [])(llc_to_dsq 1 := [9])\<rparr>"

theorem remote_steals_take_foremost_witness:
  "\<exists>ok s'. steal_remote_llc bench two_llcs 0 False bench_far = Inr (ok, s') \<and> requests s' = [Move_To_Local (llc_to_dsq 1) ok]"
proof -
  have n: "g_nr_cpu_ids bench_far = 2" "requests bench_far = []" by (simp_all add: bench_far_def bench_up_def bench_boot_def)
  have idx: "cpu_llc_idx_for two_llcs 2 0 = 0" "cpu_node_idx_for two_llcs 2 0 = 0"
    by (simp_all add: cpu_llc_idx_for_def cpu_node_idx_for_def two_llcs_def bench_ro_def export_default_def MAX_TOPO_CPUS_def)
  have topo: "nr_llcs (ro_topology two_llcs) = 2" "nr_nodes (ro_topology two_llcs) = 1"
    by (simp_all add: two_llcs_def bench_ro_def export_default_def)
  have st: "standing bench (\<lambda>d. of_nat (length (kst bench_far d))) (bench_head bench_far) bench_far"
    by (rule bench_standing) (simp add: bench_far_def)
  have v: "{v :: u32. v < 2 \<and> v \<noteq> 0} = {1}" by (auto simp: word_less_nat_alt word_unat_eq_iff)
  have others: "other_llcs two_llcs 2 0 False = {llc_to_dsq 1}"
    by (simp only: other_llcs_def topo idx v simp_thms image_insert image_empty)
  have head: "bench_head bench_far (llc_to_dsq 1) = Some 9" by (simp add: bench_head_def bench_far_def)
  have hyp: "is_cpu_valid (g_nr_cpu_ids bench_far) 0" "unat (nr_llcs (ro_topology two_llcs)) \<le> 64"
    "cpu_llc_idx_for two_llcs (g_nr_cpu_ids bench_far) 0 < nr_llcs (ro_topology two_llcs)"
    "unat (nr_nodes (ro_topology two_llcs)) \<le> 64"
    "cpu_node_idx_for two_llcs (g_nr_cpu_ids bench_far) 0 < nr_nodes (ro_topology two_llcs)"
    by (simp_all add: n topo idx is_cpu_valid_def MAX_CPUS_def word_le_nat_alt)
  show ?thesis
    using remote_steals_take_foremost [OF st hyp, of False] head
    by (auto simp: n others stolen_from_def foremost_def)
qed

section \<open>Serving what can be served\<close>

text \<open>The kernel moves a task to the CPU when the head of the queue may run there.\<close>

definition grants :: "'k kern \<Rightarrow> (u64 \<Rightarrow> ptr option) \<Rightarrow> i32 \<Rightarrow> 'k bpf \<Rightarrow> bool" where
  "grants K head cpu s \<longleftrightarrow>
     (\<forall>d p. head d = Some p \<and> ts_cpus_ptr (tasks s p) cpu \<longrightarrow> fst (k_move_to_local K d (tasks s, kst s)))"

definition waits_for :: "(u64 \<Rightarrow> ptr option) \<Rightarrow> i32 \<Rightarrow> 'k bpf \<Rightarrow> u64 \<Rightarrow> bool" where
  "waits_for head cpu s d \<longleftrightarrow> (\<exists>p. head d = Some p \<and> ts_cpus_ptr (tasks s p) cpu)"

text \<open>
  \<open>attempts K depth head cpu D m\<close>: while the queues stand, \<open>m\<close> moves a task to the CPU, or it changes nothing
  but the record of its failed requests and none of the queues \<open>D\<close> has a head the CPU may run.
\<close>

definition service :: "(u64 \<Rightarrow> ptr option) \<Rightarrow> i32 \<Rightarrow> u64 set \<Rightarrow> 'k bpf \<Rightarrow> bool \<Rightarrow> 'k bpf \<Rightarrow> bool" where
  "service head cpu D s served s' \<longleftrightarrow> (\<exists>rs. requests s' = requests s @ rs \<and>
     (if served then \<exists>d. Move_To_Local d True \<in> set rs
      else s' = s\<lparr>requests := requests s @ rs\<rparr> \<and> (\<forall>d \<in> D. \<not> waits_for head cpu s d)))"

definition attempts :: "'k kern \<Rightarrow> (u64 \<Rightarrow> i32) \<Rightarrow> (u64 \<Rightarrow> ptr option) \<Rightarrow> i32 \<Rightarrow> (u64 \<Rightarrow> u64 set) \<Rightarrow> ('k bpf, bool) action \<Rightarrow> bool" where
  "attempts K depth head cpu D m \<longleftrightarrow> (\<forall>s. standing K depth head s \<longrightarrow> grants K head cpu s \<longrightarrow>
     wp m (service head cpu (D (g_nr_cpu_ids s)) s) s)"

lemma attemptsI:
  "(\<And>s. standing K depth head s \<Longrightarrow> grants K head cpu s \<Longrightarrow> wp m (service head cpu (D (g_nr_cpu_ids s)) s) s) \<Longrightarrow>
    attempts K depth head cpu D m"
  by (simp add: attempts_def)

lemma log_frame [simp]:
  "standing K depth head (s\<lparr>requests := rs\<rparr>) = standing K depth head s"
  "grants K head cpu (s\<lparr>requests := rs\<rparr>) = grants K head cpu s"
  "waits_for head cpu (s\<lparr>requests := rs\<rparr>) = waits_for head cpu s"
  by (simp_all add: standing_def depths_are_def grants_def waits_for_def fun_eq_iff)

lemma service_trans:
  assumes "service head cpu D s False s'" and "service head cpu E s' x s''"
  shows "service head cpu (D \<union> E) s x s''"
proof -
  obtain rs where s': "s' = s\<lparr>requests := requests s @ rs\<rparr>" "\<forall>d \<in> D. \<not> waits_for head cpu s d"
    using assms(1) by (auto simp: service_def)
  obtain rs' where "requests s'' = requests s' @ rs'" "if x then \<exists>d. Move_To_Local d True \<in> set rs'
      else s'' = s'\<lparr>requests := requests s' @ rs'\<rparr> \<and> (\<forall>d \<in> E. \<not> waits_for head cpu s' d)"
    using assms(2) by (auto simp: service_def)
  then show ?thesis unfolding service_def using s' by (intro exI [of _ "rs @ rs'"]) (auto split: if_splits)
qed

lemma attempts_or_else:
  assumes "attempts K depth head cpu D a" and "attempts K depth head cpu E b"
  shows "attempts K depth head cpu (\<lambda>n. D n \<union> E n) (or_else a b)"
proof (rule attemptsI)
  fix s assume s: "standing K depth head s" "grants K head cpu s"
  have a: "wp a (service head cpu (D (g_nr_cpu_ids s)) s) s" using assms(1) s by (simp add: attempts_def)
  have b: "wp b (service head cpu (D (g_nr_cpu_ids s) \<union> E (g_nr_cpu_ids s)) s) s'"
    if o: "service head cpu (D (g_nr_cpu_ids s)) s False s'" for s'
  proof -
    obtain rs where s': "s' = s\<lparr>requests := requests s @ rs\<rparr>" using o by (auto simp: service_def)
    have "standing K depth head s'" "grants K head cpu s'" "g_nr_cpu_ids s' = g_nr_cpu_ids s"
      using s by (simp_all add: s')
    then have e: "wp b (service head cpu (E (g_nr_cpu_ids s)) s') s'"
      using assms(2) unfolding attempts_def by metis
    show ?thesis by (rule wp_mono [OF e]) (rule service_trans [OF o])
  qed
  show "wp (or_else a b) (service head cpu (D (g_nr_cpu_ids s) \<union> E (g_nr_cpu_ids s)) s) s"
    unfolding wp_or_else
    by (rule wp_mono [OF a]) (auto simp: b service_def split: if_splits)
qed

lemma attempts_first_success:
  "list_all2 (attempts K depth head cpu) Ds as \<Longrightarrow> attempts K depth head cpu (\<lambda>n. \<Union>D \<in> set Ds. D n) (first_success as)"
proof (induction Ds as rule: list_all2_induct)
  case Nil
  show ?case by (rule attemptsI) (simp add: wp_simps service_def)
next
  case (Cons D Ds a as)
  then show ?case using attempts_or_else [of K depth head cpu D a "\<lambda>n. \<Union>D \<in> set Ds. D n"] by simp
qed

lemma service_mono:
  "service head cpu D s x s' \<Longrightarrow> (\<And>d. d \<in> E \<Longrightarrow> waits_for head cpu s d \<Longrightarrow> d \<in> D) \<Longrightarrow> service head cpu E s x s'"
  by (cases x) (auto simp: service_def)

lemma attempts_weaken:
  assumes "attempts K depth head cpu D m" shows "attempts K depth head cpu (\<lambda>_. {}) m"
proof (rule attemptsI)
  fix s assume "standing K depth head s" "grants K head cpu s"
  then have "wp m (service head cpu (D (g_nr_cpu_ids s)) s) s" using assms by (simp add: attempts_def)
  then show "wp m (service head cpu {} s) s" by (rule wp_mono) (erule service_mono, simp)
qed

lemma attempts_move: "attempts K depth head cpu (\<lambda>_. {d}) (move_to_local K d)"
proof (rule attemptsI)
  fix s assume s: "standing K depth head s" "grants K head cpu s"
  obtain ok m k where r: "k_move_to_local K d (tasks s, kst s) = (ok, (m, k))" by (metis prod.collapse)
  have "\<not> ok \<Longrightarrow> (m, k) = (tasks s, kst s)" using s(1) r by (simp add: standing_def) (metis fst_conv snd_conv)
  moreover have "waits_for head cpu s d \<Longrightarrow> ok" using s(2) r by (auto simp: grants_def waits_for_def)
  ultimately show "wp (move_to_local K d) (service head cpu {d} s) s"
    by (auto simp: wp_move_to_local r service_def)
qed

lemma attempts_False: "attempts K depth head cpu (\<lambda>_. {}) (return False)"
  by (rule attemptsI) (simp add: wp_simps service_def)

lemma attempts_move_if: "attempts K depth head cpu (\<lambda>_. if b then {d} else {}) (move_if K b d)"
  by (simp add: move_if_def attempts_move attempts_False)

text \<open>The attempts on the queues of \<open>cpu\<close> while they stand: whether each is made, and on which queue.\<close>

definition own_plan :: "rodata \<Rightarrow> u64 \<Rightarrow> (ptr \<Rightarrow> task_struct) \<Rightarrow> (u64 \<Rightarrow> ptr option) \<Rightarrow> i32 \<Rightarrow> (bool \<times> u64) list" where
  "own_plan R n m head cpu =
     (let local = cpu_to_dsq n cpu; llc = cpu_llc_dsq R n cpu; node = cpu_node_dsq R n cpu;
          nh = (if 1 < nr_nodes (ro_topology R) then head node else None);
          best = earliest_head m (head local, local) (head llc, llc) (nh, node) (head SHARED_DSQ, SHARED_DSQ)
      in [(fst best \<noteq> None, snd best), (head local \<noteq> None \<and> snd best \<noteq> local, local),
          (head llc \<noteq> None \<and> snd best \<noteq> llc, llc), (nh \<noteq> None \<and> snd best \<noteq> node, node),
          (head SHARED_DSQ \<noteq> None \<and> snd best \<noteq> SHARED_DSQ, SHARED_DSQ)])"

lemma own_queues_plan:
  assumes "standing K depth head s"
  shows "own_queues K R cpu s =
    first_success (map (\<lambda>(c, d). move_if K c d) (own_plan R (g_nr_cpu_ids s) (tasks s) head cpu)) s"
proof -
  have peek: "\<And>d. k_dsq_peek K d (tasks s, kst s) = (head d, (tasks s, kst s))" using assms by (simp add: standing_def)
  have ask: "bindS (query (k_dsq_peek K d)) f s = f (head d) s" for d and f :: "ptr option \<Rightarrow> ('a bpf, bool) action"
    by (simp add: bindS_def query_def peek)
  have ask_if: "bindS (if c then query (k_dsq_peek K d) else return None) f s = f (if c then head d else None) s"
    for c d and f :: "ptr option \<Rightarrow> ('a bpf, bool) action"
    by (cases c) (simp_all add: ask, simp add: bindS_def return_def)
  have look: "bindS (gets g) f s = f (g s) s" for g :: "'a bpf \<Rightarrow> 'b" and f :: "'b \<Rightarrow> ('a bpf, bool) action"
    by (simp add: bindS_def gets_def)
  show ?thesis
    by (simp only: own_queues_def own_plan_def look ask ask_if Let_def list.map prod.case case_prod_beta fst_conv snd_conv)
qed

lemma plan_covers:
  assumes "d \<in> own_dsqs R n cpu" and "head d \<noteq> None"
  shows "d \<in> (\<Union>c \<in> set (own_plan R n m head cpu). if fst c then {snd c} else {})"
proof -
  obtain q b where e: "earliest_head m (head (cpu_to_dsq n cpu), cpu_to_dsq n cpu) (head (cpu_llc_dsq R n cpu), cpu_llc_dsq R n cpu)
      (if 1 < nr_nodes (ro_topology R) then head (cpu_node_dsq R n cpu) else None, cpu_node_dsq R n cpu)
      (head SHARED_DSQ, SHARED_DSQ) = (q, b)" by fastforce
  have q: "q \<noteq> None" using assms earliest_head_best(1) [OF e [symmetric]] by (auto simp: own_dsqs_def split: if_splits)
  have plan: "own_plan R n m head cpu =
      [(q \<noteq> None, b), (head (cpu_to_dsq n cpu) \<noteq> None \<and> b \<noteq> cpu_to_dsq n cpu, cpu_to_dsq n cpu),
       (head (cpu_llc_dsq R n cpu) \<noteq> None \<and> b \<noteq> cpu_llc_dsq R n cpu, cpu_llc_dsq R n cpu),
       ((if 1 < nr_nodes (ro_topology R) then head (cpu_node_dsq R n cpu) else None) \<noteq> None \<and> b \<noteq> cpu_node_dsq R n cpu,
          cpu_node_dsq R n cpu),
       (head SHARED_DSQ \<noteq> None \<and> b \<noteq> SHARED_DSQ, SHARED_DSQ)]"
    by (simp only: own_plan_def Let_def e fst_conv snd_conv)
  have "\<exists>c \<in> set (own_plan R n m head cpu). fst c \<and> snd c = d"
  proof (cases "d = b")
    case True then show ?thesis using q by (simp add: plan)
  next
    case False
    from assms(1) consider "d = cpu_to_dsq n cpu" | "d = cpu_llc_dsq R n cpu" | "d = SHARED_DSQ"
      | "d = cpu_node_dsq R n cpu" "1 < nr_nodes (ro_topology R)" by (auto simp: own_dsqs_def split: if_splits)
    then show ?thesis using assms(2) False unfolding plan by cases simp_all
  qed
  then show ?thesis by force
qed

lemma attempts_own_queues: "attempts K depth head cpu (\<lambda>n. own_dsqs R n cpu) (own_queues K R cpu)"
proof (rule attemptsI)
  fix s assume s: "standing K depth head s" "grants K head cpu s"
  let ?plan = "own_plan R (g_nr_cpu_ids s) (tasks s) head cpu"
  have "attempts K depth head cpu (\<lambda>n. \<Union>D \<in> set (map (\<lambda>c n. if fst c then {snd c} else {}) plan). D n)
      (first_success (map (\<lambda>(c, d). move_if K c d) plan))" for plan
    by (intro attempts_first_success)
      (simp add: list_all2_map1 list_all2_map2 list_all2_same case_prod_beta attempts_move_if)
  then have "wp (first_success (map (\<lambda>(c, d). move_if K c d) ?plan))
      (service head cpu (\<Union>c \<in> set ?plan. if fst c then {snd c} else {}) s) s"
    using s by (simp add: attempts_def)
  then have "wp (first_success (map (\<lambda>(c, d). move_if K c d) ?plan)) (service head cpu (own_dsqs R (g_nr_cpu_ids s) cpu) s) s"
    by (rule wp_mono) (erule service_mono, erule plan_covers, auto simp: waits_for_def)
  then show "wp (own_queues K R cpu) (service head cpu (own_dsqs R (g_nr_cpu_ids s) cpu) s) s"
    by (simp add: wp_def own_queues_plan [OF s(1)])
qed

section \<open>Steals\<close>

text \<open>A scan followed by a move: it serves the CPU if any of the queues has a candidate it may run.\<close>

lemma attempts_take_best:
  assumes "standing K depth head s" and "grants K head cpu s"
  shows "wp (bindS (weigh_all K fits ds (None, 0, 0)) (take_best K))
    (service head cpu (if fits = (\<lambda>t. ts_cpus_ptr t cpu) then set ds else {}) s) s"
proof -
  let ?b = "fold (weighed (tasks s) fits depth head) ds (None, 0, 0)"
  have best: "best_of (tasks s) (candidate (tasks s) fits head) (set ds) ?b" by (rule best_of_scan)
  obtain h n d where b: "?b = (h, n, d)" by (cases ?b)
  show ?thesis
  proof (cases h)
    case None
    then have "candidate (tasks s) fits head e = None" if "e \<in> set ds" for e
      using best that by (simp add: best_of_def b)
    then have "\<not> waits_for head cpu s e" if "e \<in> set ds" "fits = (\<lambda>t. ts_cpus_ptr t cpu)" for e
      using that by (fastforce simp: candidate_def waits_for_def split: option.splits if_splits)
    then show ?thesis
      by (simp add: wp_simps wp_weigh_all [OF assms(1)] b None take_best_def service_def)
  next
    case (Some p)
    have "wp (move_to_local K d) (service head cpu {d} s) s"
      using attempts_move [of K depth head cpu d] assms by (simp add: attempts_def)
    moreover have "candidate (tasks s) fits head d = Some p" using best by (simp add: best_of_def b Some)
    then have "waits_for head cpu s d" if "fits = (\<lambda>t. ts_cpus_ptr t cpu)"
      using that by (auto simp: candidate_def waits_for_def split: option.splits if_splits)
    then have "service head cpu {d} s x s' \<Longrightarrow>
        service head cpu (if fits = (\<lambda>t. ts_cpus_ptr t cpu) then set ds else {}) s x s'" for x s'
      by (cases "fits = (\<lambda>t. ts_cpus_ptr t cpu)"; cases x) (auto simp: service_def)
    ultimately have "wp (move_to_local K d) (service head cpu (if fits = (\<lambda>t. ts_cpus_ptr t cpu) then set ds else {}) s) s"
      by (rule wp_mono)
    then show ?thesis by (simp add: wp_simps wp_weigh_all [OF assms(1)] b Some take_best_def)
  qed
qed

definition cpu_victims :: "'k kern \<Rightarrow> u64 \<Rightarrow> i32 \<Rightarrow> bool \<Rightarrow> i32 list" where
  "cpu_victims K n cpu same_llc_only =
     filter (\<lambda>v. v \<noteq> cpu \<and> (same_llc_only \<longrightarrow> cpus_share_cache K n cpu v)) (map of_nat [0..<unat n])"

lemma attempts_steal_cpu:
  "attempts K depth head cpu (\<lambda>n. if is_cpu_valid n cpu then cpu_to_dsq n ` set (cpu_victims K n cpu near) else {})
     (steal_remote_cpu K cpu near)"
proof (rule attemptsI)
  fix s assume "standing K depth head s" "grants K head cpu s"
  then show "wp (steal_remote_cpu K cpu near)
      (service head cpu (if is_cpu_valid (g_nr_cpu_ids s) cpu then cpu_to_dsq (g_nr_cpu_ids s) ` set (cpu_victims K (g_nr_cpu_ids s) cpu near) else {}) s) s"
    using attempts_take_best [of K depth head s cpu "\<lambda>t. ts_cpus_ptr t cpu"
        "map (cpu_to_dsq (g_nr_cpu_ids s)) (cpu_victims K (g_nr_cpu_ids s) cpu near)"]
    by (auto simp: steal_remote_cpu_def scan_cpus_weigh cpu_victims_def wp_gets wp_bindS [of "gets g_nr_cpu_ids"]
        wp_return service_def [of _ _ "{}"])
qed

lemma attempts_steal_counted:
  assumes "standing K depth head s" and "grants K head cpu s"
  shows "wp (bindS (weigh_all K fits ds (None, 0, 0)) (steal_counted K c)) (service head cpu {} s) s"
proof -
  have "wp (bindS (weigh_all K fits ds (None, 0, 0)) (take_best K)) (service head cpu {} s) s"
    by (rule wp_mono [OF attempts_take_best [OF assms]]) (erule service_mono, simp)
  then show ?thesis
    unfolding steal_counted_def wp_bindS
    by (elim wp_mono) (auto simp: wp_simps bump_def service_def split: if_splits)
qed

lemma attempts_steal_llc: "attempts K depth head cpu (\<lambda>_. {}) (steal_remote_llc K R cpu near)"
  by (rule attemptsI) (auto simp: steal_remote_llc_def scan_llcs_weigh wp_gets wp_bindS [of "gets g_nr_cpu_ids"] wp_return
      service_def [of _ _ "{}"] intro: attempts_steal_counted)

lemma attempts_steal_node: "attempts K depth head cpu (\<lambda>_. {}) (steal_remote_node K R cpu)"
  by (rule attemptsI) (auto simp: steal_remote_node_def scan_nodes_weigh wp_gets wp_bindS [of "gets g_nr_cpu_ids"] wp_return
      service_def [of _ _ "{}"] intro: attempts_steal_counted)

lemma attempts_steals:
  "attempts K depth head cpu
     (\<lambda>n. if is_cpu_valid n cpu then cpu_to_dsq n ` set (cpu_victims K n cpu False) else {}) (steals K R cpu)"
proof -
  let ?V = "\<lambda>near n. if is_cpu_valid n cpu then cpu_to_dsq n ` set (cpu_victims K n cpu near) else {}"
  have "list_all2 (attempts K depth head cpu) [?V True, ?V False, \<lambda>_. {}, \<lambda>_. {}, \<lambda>_. {}]
     [steal_remote_cpu K cpu True, steal_remote_cpu K cpu False, steal_remote_llc K R cpu True,
      steal_remote_node K R cpu, steal_remote_llc K R cpu False]"
    by (simp add: attempts_steal_cpu attempts_steal_llc attempts_steal_node)
  then have "attempts K depth head cpu (\<lambda>n. \<Union>D \<in> set [?V True, ?V False, \<lambda>_. {}, \<lambda>_. {}, \<lambda>_. {}]. D n) (steals K R cpu)"
    unfolding steals_def by (rule attempts_first_success)
  moreover have "(\<Union>D \<in> set [?V True, ?V False, \<lambda>_. {}, \<lambda>_. {}, \<lambda>_. {}]. D n) = ?V False n" for n
    by (auto simp: cpu_victims_def)
  ultimately show ?thesis by simp
qed

text \<open>The other CPUs: in range, each with its own queue.\<close>

lemma other_cpu_is_victim:
  assumes "is_cpu_valid n v" and "v \<noteq> cpu" and "unat n < 2 ^ 31"
  shows "v \<in> set (cpu_victims K n cpu False)"
proof -
  have "unat v < unat n" by (rule valid_cpu_bounds(3) [OF assms(1)])
  then have "v \<in> of_nat ` {0..<unat n}" by (intro image_eqI [of _ _ "unat v"]) auto
  then show ?thesis using assms(2) by (simp add: cpu_victims_def)
qed

text \<open>
  C6. In the default configuration (no user-space scheduling, nothing in the user ring buffer), while the queues
  stand: a CPU that asks for work is given a task whenever one of its own queues, or the queue of any other
  CPU, starts with a task it may run. Its slice is not extended instead.
\<close>

theorem dispatch_is_work_conserving:
  assumes st: "standing K depth head s" and gr: "grants K head cpu s"
    and off: "\<not> usersched_enabled R" and idle: "k_next_user_sample K 0 (tasks s, kst s) = (None, (tasks s, kst s))"
    and now: "k_now K (tasks s, kst s) = (now, (tasks s, kst s))"
    and work: "d \<in> own_dsqs R (g_nr_cpu_ids s) cpu \<or>
      (is_cpu_valid (g_nr_cpu_ids s) cpu \<and> is_cpu_valid (g_nr_cpu_ids s) v \<and> v \<noteq> cpu \<and> d = cpu_to_dsq (g_nr_cpu_ids s) v)"
    and few: "unat (g_nr_cpu_ids s) < 2 ^ 31" and head: "head d = Some p" "ts_cpus_ptr (tasks s p) cpu"
  shows "\<exists>s' rs e. cognis_dispatch K R cpu prev s = Inr ((), s') \<and> requests s' = requests s @ rs \<and>
    Move_To_Local e True \<in> set rs"
proof -
  let ?s = "s\<lparr>g_last_dispatch_at := now\<rparr>" and ?n = "g_nr_cpu_ids s"
  have drained: "wp (drain K m 0) Q ?s \<longleftrightarrow> Q () ?s" for m and Q :: "unit \<Rightarrow> 'a bpf \<Rightarrow> bool"
    by (cases m) (simp_all add: wp_simps idle)
  have s': "standing K depth head ?s" "grants K head cpu ?s" using st gr
    by (simp_all add: standing_def depths_are_def grants_def)
  have "attempts K depth head cpu (\<lambda>_. {}) (and_then (usersched_has_pending_tasks K R) (move_to_local K SCHED_DSQ))"
    using off by (intro attemptsI) (simp add: and_then_def usersched_has_pending_tasks_def wp_simps service_def)
  then have "list_all2 (attempts K depth head cpu)
      [\<lambda>_. {}, \<lambda>n. own_dsqs R n cpu, \<lambda>n. if is_cpu_valid n cpu then cpu_to_dsq n ` set (cpu_victims K n cpu False) else {}]
      [and_then (usersched_has_pending_tasks K R) (move_to_local K SCHED_DSQ), own_queues K R cpu, steals K R cpu]"
    by (simp add: attempts_own_queues attempts_steals)
  note all = attempts_first_success [OF this]
  define D where "D = own_dsqs R ?n cpu \<union> (if is_cpu_valid ?n cpu then cpu_to_dsq ?n ` set (cpu_victims K ?n cpu False) else {})"
  have run: "wp (first_success [and_then (usersched_has_pending_tasks K R) (move_to_local K SCHED_DSQ), own_queues K R cpu, steals K R cpu])
      (service head cpu D ?s) ?s"
    using all s' unfolding attempts_def D_def by (auto simp del: first_success.simps)
  have "d \<in> D" using work other_cpu_is_victim [of ?n v cpu K] few by (auto simp: D_def)
  moreover have "waits_for head cpu ?s d" using head by (simp add: waits_for_def)
  ultimately have "served \<and> (\<exists>rs e. requests s' = requests s @ rs \<and> Move_To_Local e True \<in> set rs)"
    if "service head cpu D ?s served s'" for served s'
    using that by (cases served) (auto simp: service_def)
  with run have "wp (first_success [and_then (usersched_has_pending_tasks K R) (move_to_local K SCHED_DSQ), own_queues K R cpu, steals K R cpu])
      (\<lambda>served s'. served \<and> (\<exists>rs e. requests s' = requests s @ rs \<and> Move_To_Local e True \<in> set rs)) ?s"
    by (rule wp_mono)
  then have "wp (cognis_dispatch K R cpu prev) (\<lambda>_ s'. \<exists>rs e. requests s' = requests s @ rs \<and> Move_To_Local e True \<in> set rs) s"
    unfolding cognis_dispatch_def wp_bindS wp_query now prod.case wp_modify
    by (simp add: drained del: first_success.simps) (erule wp_mono, simp add: wp_simps)
  then show ?thesis by (auto simp: wp_iff)
qed

theorem dispatch_is_work_conserving_witness:
  "\<exists>s' rs e. cognis_dispatch bench bench_ro 1 None bench_race = Inr ((), s') \<and> requests s' = rs \<and> Move_To_Local e True \<in> set rs"
proof -
  have "standing bench (\<lambda>d. of_nat (length (kst bench_race d))) (bench_head bench_race) bench_race"
    by (rule bench_standing) (simp add: bench_race_def)
  moreover have "grants bench (bench_head bench_race) 1 bench_race"
    by (auto simp: grants_def bench_head_def bench_def split: list.splits)
  moreover have "\<not> usersched_enabled bench_ro" "unat (g_nr_cpu_ids bench_race) < 2 ^ 31" "requests bench_race = []"
    "k_next_user_sample bench 0 (tasks bench_race, kst bench_race) = (None, (tasks bench_race, kst bench_race))"
    "k_now bench (tasks bench_race, kst bench_race) = (5000, (tasks bench_race, kst bench_race))"
    by (simp_all add: bench_def bench_ro_def bench_race_def bench_up_def bench_boot_def)
  moreover have "bench_head bench_race 0 = Some 9" "ts_cpus_ptr (tasks bench_race 9) 1"
    by (simp_all add: bench_head_def bench_race_def bench_task_def)
  moreover have "is_cpu_valid (g_nr_cpu_ids bench_race) 1 \<and> is_cpu_valid (g_nr_cpu_ids bench_race) 0 \<and> (0 :: i32) \<noteq> 1 \<and>
      (0 :: u64) = cpu_to_dsq (g_nr_cpu_ids bench_race) 0"
    by (simp add: is_cpu_valid_def cpu_to_dsq_def dsq_defs bench_race_def bench_up_def word_le_nat_alt)
  ultimately show ?thesis
    using dispatch_is_work_conserving [of bench _ "bench_head bench_race" bench_race 1 bench_ro 5000 0 0 9 None]
    by (metis append_Nil)
qed

section \<open>The drain of the user ring buffer\<close>

fun is_task_get :: "request \<Rightarrow> bool" where
  "is_task_get (Task_Get pid found) = True"
| "is_task_get r = False"

lemma dispatch_task_gets_once:
  "wp (ops_dispatch_task K d) (\<lambda>_ s'. length (filter is_task_get (requests s')) = Suc (length (filter is_task_get (requests s)))) s"
  unfolding ops_dispatch_task_def kick_task_cpu_def kick_cpu_def Let_def by (intro vcg) simp_all

lemma drain_handles_one:
  assumes stop: "\<And>r m. r \<noteq> 0 \<Longrightarrow> fst (k_next_user_sample K r m) = None"
    and slots: "\<And>m. fst (k_dispatch_nr_slots K m) \<noteq> 0"
  shows "wp (drain K left ret) (\<lambda>_ s'. length (filter is_task_get (requests s')) \<le>
    (if ret = 0 then 1 else 0) + length (filter is_task_get (requests s))) s"
proof (induction left arbitrary: ret s)
  case 0
  show ?case by (simp add: wp_simps)
next
  case (Suc left)
  obtain sample m k where ask: "k_next_user_sample K ret (tasks s, kst s) = (sample, (m, k))" by (metis prod.collapse)
  show ?case
  proof (cases sample)
    case None
    then show ?thesis by (simp add: wp_simps ask)
  next
    case (Some data)
    then have ret: "ret = 0" using stop [of ret "(tasks s, kst s)"] ask by auto
    let ?s = "s\<lparr>tasks := m, kst := k\<rparr>"
    show ?thesis
    proof (cases data)
      case None
      then show ?thesis using Suc.IH [of 0 ?s]
        by (simp add: wp_simps ask [unfolded ret] \<open>sample = Some data\<close> ret handle_dispatched_task_def)
    next
      case (Some bytes)
      have "wp (bindS (handle_dispatched_task K data) (drain K left)) (\<lambda>_ s'. length (filter is_task_get (requests s')) \<le>
          1 + length (filter is_task_get (requests ?s))) ?s"
        unfolding handle_dispatched_task_def Some option.case wp_bindS
      proof (rule wp_mono [OF dispatch_task_gets_once])
        fix u :: unit and s' :: "'a bpf" assume one: "length (filter is_task_get (requests s')) = Suc (length (filter is_task_get (requests ?s)))"
        obtain n m' k' where a: "k_dispatch_nr_slots K (tasks s', kst s') = (n, (m', k'))" by (metis prod.collapse)
        then have "n \<noteq> 0" using slots by (metis fst_conv)
        then show "wp (query (k_dispatch_nr_slots K)) (\<lambda>slots. wp (return (if slots \<noteq> 0 then 1 else 0)) (\<lambda>x. wp (drain K left x)
            (\<lambda>_ s'. length (filter is_task_get (requests s')) \<le> 1 + length (filter is_task_get (requests ?s))))) s'"
          using Suc.IH [of 1 "s'\<lparr>tasks := m', kst := k'\<rparr>"] one by (simp add: wp_simps a)
      qed
      then show ?thesis by (simp add: wp_simps ask [unfolded ret] \<open>sample = Some data\<close> ret)
    qed
  qed
qed

text \<open>
  The handler asks to stop when slots are left: one run of the drain, whatever the kernel has buffered, looks
  up the task of at most one message as long as the kernel has dispatch slots left and stops, as documented,
  once a handler returns a nonzero value.
\<close>

theorem drain_stops_while_slots_are_left:
  assumes "\<forall>r m. r \<noteq> 0 \<longrightarrow> fst (k_next_user_sample K r m) = None" and "\<forall>m. fst (k_dispatch_nr_slots K m) \<noteq> 0"
  shows "\<exists>s'. drain K (k_max_user_samples K) 0 s = Inr ((), s') \<and>
    length (filter is_task_get (requests s')) \<le> 1 + length (filter is_task_get (requests s))"
  using drain_handles_one [of K "k_max_user_samples K" 0 s] assms by (auto simp: wp_iff)

theorem drain_stops_while_slots_are_left_witness:
  "\<exists>s'. drain (bench\<lparr>k_next_user_sample := (\<lambda>ret w. (if ret = 0 then Some (Some (replicate 40 0)) else None, w)), k_max_user_samples := 3\<rparr>) 3 0 bench_up =
     Inr ((), s') \<and> length (filter is_task_get (requests s')) \<le> 1"
  using drain_stops_while_slots_are_left
    [of "bench\<lparr>k_next_user_sample := (\<lambda>ret w. (if ret = 0 then Some (Some (replicate 40 0)) else None, w)), k_max_user_samples := 3\<rparr>" bench_up]
  by (simp add: bench_def bench_up_def bench_boot_def)

end
