(* ===== verification/Bpf_Callbacks.thy ===== *)
theory Bpf_Callbacks
  imports Bpf_Dispatch
begin

text \<open>
  The other callbacks of \<open>main.bpf.c\<close>: the choice of a CPU, the enqueue of a task, the accounting of its runs,
  its entry into and exit from the class, the heartbeat timer, and the initialisation of the queues.
\<close>

section \<open>Choosing a CPU\<close>

definition cognis_select_cpu :: "'k kern \<Rightarrow> rodata \<Rightarrow> ptr \<Rightarrow> i32 \<Rightarrow> u64 \<Rightarrow> ('k bpf, i32) action" where
  "cognis_select_cpu K R p prev_cpu wake_flags =
     bindS (query (k_smp_processor_id K)) (\<lambda>this_cpu.
     bindS (task_at p) (\<lambda>t.
     bindS (if \<not> ts_cpus_ptr t prev_cpu then
              (if ts_cpus_ptr t this_cpu then return this_cpu else query (k_cpumask_first K p))
            else return prev_cpu) (\<lambda>prev_cpu.
     if is_usersched_task R t then return prev_cpu
     else if \<not> builtin_idle R then return prev_cpu
     else bindS (pick_idle_cpu K R p prev_cpu wake_flags) (\<lambda>cpu.
       if 0 \<le> sint cpu then
         bindS (task_slice K R p cpu) (\<lambda>x.
         bindS (direct_local_dispatch K p cpu x 0) (\<lambda>_. return cpu))
       else return prev_cpu))))"

text \<open>The system call user space makes to have a CPU chosen.\<close>

definition rs_select_cpu :: "'k kern \<Rightarrow> rodata \<Rightarrow> i32 \<Rightarrow> i32 \<Rightarrow> ('k bpf, i32) action" where
  "rs_select_cpu K R pid cpu =
     bindS (ask_for (k_task_from_pid K pid) (Task_Get pid)) (\<lambda>found. case found of
       None \<Rightarrow> return (- EINVAL)
     | Some p \<Rightarrow>
         bindS (if \<not> k_has_select_cpu_and K then
                  bindS (query (k_test_and_clear_idle K cpu)) (\<lambda>idle.
                  if idle then return cpu else query (k_pick_idle K p))
                else pick_idle_cpu K R p cpu (SCX_WAKE_TTWU K)) (\<lambda>cpu.
         bindS (ask_for (k_task_release K p) (\<lambda>_. Task_Put p)) (\<lambda>_. return cpu)))"

section \<open>Enqueueing\<close>

definition insert_vtime :: "'k kern \<Rightarrow> ptr \<Rightarrow> u64 \<Rightarrow> u64 \<Rightarrow> u64 \<Rightarrow> u64 \<Rightarrow> ('k bpf, unit) action" where
  "insert_vtime K p dsq slice_ns vtime enq_flags =
     ask_for (k_dsq_insert_vtime K p dsq slice_ns vtime enq_flags) (\<lambda>_. Dsq_Insert_Vtime p dsq slice_ns vtime enq_flags)"

text \<open>The deferred hierarchy, when no idle CPU took the task.\<close>

definition enqueue_deferred :: "'k kern \<Rightarrow> rodata \<Rightarrow> ptr \<Rightarrow> i32 \<Rightarrow> task_ctx \<Rightarrow> bool \<Rightarrow> u64 \<Rightarrow> ('k bpf, unit) action" where
  "enqueue_deferred K R p prev_cpu tctx share enq_flags =
     bindS (if share then return SHARED_DSQ else overflow_dsq K R prev_cpu) (\<lambda>target_dsq.
     bindS (task_slice K R p prev_cpu) (\<lambda>x.
     bindS (task_dl K R p prev_cpu tctx) (\<lambda>dl.
     bindS (insert_vtime K p target_dsq x dl enq_flags) (\<lambda>_.
     count_kernel_route target_dsq))))"

text \<open>An idle CPU takes the task: whether one did.\<close>

definition enqueue_idle :: "'k kern \<Rightarrow> rodata \<Rightarrow> ptr \<Rightarrow> i32 \<Rightarrow> u64 \<Rightarrow> ('k bpf, bool) action" where
  "enqueue_idle K R p prev_cpu enq_flags =
     bindS (pick_idle_cpu K R p prev_cpu 0) (\<lambda>cpu.
     if 0 \<le> sint cpu then
       bindS (task_slice K R p cpu) (\<lambda>x.
       bindS (direct_local_dispatch K p cpu x enq_flags) (\<lambda>_.
       bindS (if prev_cpu \<noteq> cpu then return True
              else bindS (query (k_task_running K p)) (\<lambda>running. return (\<not> running))) (\<lambda>kick.
       bindS (if kick then kick_cpu K cpu else return ()) (\<lambda>_. return True))))
     else return False)"

definition enqueue_local :: "'k kern \<Rightarrow> rodata \<Rightarrow> ptr \<Rightarrow> i32 \<Rightarrow> u64 \<Rightarrow> ('k bpf, unit) action" where
  "enqueue_local K R p prev_cpu enq_flags =
     bindS (task_slice K R p prev_cpu) (\<lambda>x. direct_local_dispatch K p prev_cpu x enq_flags)"

text \<open>The placement of a task with a context; \<open>True\<close> when the callback returns without the final kick.\<close>

definition enqueue_place ::
    "'k kern \<Rightarrow> rodata \<Rightarrow> ptr \<Rightarrow> i32 \<Rightarrow> bool \<Rightarrow> bool \<Rightarrow> task_ctx \<Rightarrow> task_struct \<Rightarrow> u64 \<Rightarrow> ('k bpf, bool) action" where
  "enqueue_place K R p prev_cpu can_migrate rt_busy tctx t enq_flags =
     (if is_usersched_task R t then
        bindS (if usersched_enabled R then
                 ask_for (k_dsq_insert K p SCHED_DSQ (ro_slice_ns R) enq_flags)
                   (\<lambda>_. Dsq_Insert p SCHED_DSQ (ro_slice_ns R) enq_flags)
               else return ()) (\<lambda>_. return False)
      else if is_kthread K t then bindS (enqueue_local K R p prev_cpu enq_flags) (\<lambda>_. return False)
      else if is_task_sticky R tctx \<and> \<not> rt_busy then
        bindS (enqueue_local K R p prev_cpu enq_flags) (\<lambda>_. return False)
      else
        bindS (if can_migrate then enqueue_idle K R p prev_cpu enq_flags else return False) (\<lambda>placed.
        if placed then return True
        else bindS (enqueue_deferred K R p prev_cpu tctx (can_migrate \<and> rt_busy) enq_flags) (\<lambda>_. return False)))"

definition cognis_enqueue :: "'k kern \<Rightarrow> rodata \<Rightarrow> ptr \<Rightarrow> u64 \<Rightarrow> ('k bpf, unit) action" where
  "cognis_enqueue K R p enq_flags =
     bindS (query (k_task_cpu K p)) (\<lambda>prev_cpu.
     bindS (is_queued_wakeup K p enq_flags) (\<lambda>should_kick.
     bindS (task_should_migrate K R p enq_flags) (\<lambda>can_migrate.
     bindS (cpu_under_rt_pressure K prev_cpu) (\<lambda>rt_busy.
     bindS (try_lookup_task_ctx p) (\<lambda>found. case found of
       None \<Rightarrow> return ()
     | Some tctx \<Rightarrow>
         bindS (task_at p) (\<lambda>t.
         bindS (enqueue_place K R p prev_cpu can_migrate rt_busy tctx t enq_flags) (\<lambda>placed.
         if placed then return ()
         else if should_kick then kick_cpu K prev_cpu else return ())))))))"

section \<open>Accounting\<close>

definition MAX_WAKEUP_FREQ :: u64 where "MAX_WAKEUP_FREQ = 64"

definition cognis_runnable :: "'k kern \<Rightarrow> rodata \<Rightarrow> ptr \<Rightarrow> ('k bpf, unit) action" where
  "cognis_runnable K R p =
     bindS (query (k_ktime_get_ns K)) (\<lambda>now.
     bindS (task_at p) (\<lambda>t.
     if is_usersched_task R t then return ()
     else put_ctx p (\<lambda>c.
       let delta_t = (if tc_last_woke_at c < now then now - tc_last_woke_at c else 1)
       in c\<lparr>tc_exec_runtime := 0, tc_awake_vtime := 0,
            tc_wakeup_freq := min (update_freq (tc_wakeup_freq c) delta_t) MAX_WAKEUP_FREQ,
            tc_last_woke_at := now\<rparr>)))"

definition cognis_running :: "'k kern \<Rightarrow> rodata \<Rightarrow> ptr \<Rightarrow> ('k bpf, unit) action" where
  "cognis_running K R p =
     bindS (task_at p) (\<lambda>t.
     if is_usersched_task R t then
       bindS (query (k_now K)) (\<lambda>now. modify (\<lambda>s. s\<lparr>g_usersched_last_run_at := now\<rparr>))
     else
       bindS (bump Nr_running) (\<lambda>_.
       bindS (try_lookup_task_ctx p) (\<lambda>found. case found of
         None \<Rightarrow> return ()
       | Some c \<Rightarrow>
           bindS (query (k_now K)) (\<lambda>now.
           bindS (put_ctx p (\<lambda>c. c\<lparr>tc_start_ts := now\<rparr>)) (\<lambda>_.
           bindS (query (k_ktime_get_ns K)) (\<lambda>ktime.
           bindS (put_ctx p (\<lambda>c. c\<lparr>tc_last_run_at := ktime\<rparr>)) (\<lambda>_.
           bindS (task_at p) (\<lambda>t.
           modify (\<lambda>s. if k_time_before K (g_vtime_now s) (ts_dsq_vtime t)
                       then s\<lparr>g_vtime_now := ts_dsq_vtime t\<rparr> else s))))))))) "

definition cognis_stopping :: "'k kern \<Rightarrow> rodata \<Rightarrow> ptr \<Rightarrow> ('k bpf, unit) action" where
  "cognis_stopping K R p =
     bindS (query (k_now K)) (\<lambda>now.
     bindS (task_at p) (\<lambda>t.
     if is_usersched_task R t then return ()
     else
       bindS (modify (\<lambda>s. s\<lparr>counters := (counters s)(Nr_running := counters s Nr_running - 1)\<rparr>)) (\<lambda>_.
       bindS (try_lookup_task_ctx p) (\<lambda>found. case found of
         None \<Rightarrow> return ()
       | Some c \<Rightarrow>
           let used = now - tc_last_run_at c;
               delta_vtime = k_scale_by_weight_inverse K t used
           in bindS (put_task p (\<lambda>t. t\<lparr>ts_dsq_vtime := ts_dsq_vtime t + delta_vtime\<rparr>)) (\<lambda>_.
              put_ctx p (\<lambda>c. c\<lparr>tc_stop_ts := now, tc_exec_runtime := tc_exec_runtime c + (now - tc_start_ts c),
                tc_avg_runtime := calc_avg (tc_avg_runtime c) used,
                tc_awake_vtime := tc_awake_vtime c + delta_vtime\<rparr>))))))"

definition cognis_enable :: "rodata \<Rightarrow> ptr \<Rightarrow> ('k bpf, unit) action" where
  "cognis_enable R p =
     bindS (gets g_vtime_now) (\<lambda>vtime_now.
     put_task p (\<lambda>t. t\<lparr>ts_dsq_vtime := vtime_now, ts_slice := max (ro_slice_ns R) (ro_slice_min_ns R)\<rparr>))"

definition cognis_disable :: "'k kern \<Rightarrow> rodata \<Rightarrow> ptr \<Rightarrow> ('k bpf, unit) action" where
  "cognis_disable K R p =
     bindS (task_at p) (\<lambda>t.
     if is_usersched_task R t \<or> is_kthread K t then return ()
     else bindS (query (k_reserve_exit K)) (\<lambda>reserved.
       if \<not> reserved then return ()
       else ask_for (k_submit_exit K (ts_pid t)) (\<lambda>_. Publish_Exit (ts_pid t))))"

section \<open>The heartbeat timer\<close>

definition USERSCHED_TIMER_NS :: u64 where "USERSCHED_TIMER_NS = 1000000000"
definition DISPATCH_PROGRESS_GUARD_NS :: u64 where "DISPATCH_PROGRESS_GUARD_NS = 4 * 1000000000"
definition ESRCH :: i32 where "ESRCH = 3"
definition ENOMEM :: i32 where "ENOMEM = 12"

definition scx_error :: "'k kern \<Rightarrow> ('k bpf, unit) action" where
  "scx_error K = ask_for (k_scx_error K) (\<lambda>_. Scx_Error)"

definition timer_start :: "'k kern \<Rightarrow> ('k bpf, i32) action" where
  "timer_start K = bindS (ask_for (k_timer_start K) Timer_Start) (\<lambda>err.
     bindS (if err \<noteq> 0 then scx_error K else return ()) (\<lambda>_. return err))"

definition wake_usersched :: "'k kern \<Rightarrow> rodata \<Rightarrow> ('k bpf, unit) action" where
  "wake_usersched K R =
     bindS (ask_for (k_task_from_pid K (usersched_pid R)) (Task_Get (usersched_pid R))) (\<lambda>found. case found of
       None \<Rightarrow> return ()
     | Some p \<Rightarrow>
         bindS set_usersched_needed (\<lambda>_.
         bindS (query (k_task_cpu K p)) (\<lambda>cpu.
         bindS (kick_cpu K cpu) (\<lambda>_.
         ask_for (k_task_release K p) (\<lambda>_. Task_Put p)))))"

definition usersched_timer_fn :: "'k kern \<Rightarrow> rodata \<Rightarrow> ('k bpf, i32) action" where
  "usersched_timer_fn K R =
     bindS (query (k_now K)) (\<lambda>now.
     bindS (dsq_backlog_exists K R) (\<lambda>backlog.
     bindS (gets g_last_dispatch_at) (\<lambda>last_dispatch_at.
     if backlog \<and> DISPATCH_PROGRESS_GUARD_NS \<le> k_time_delta K now last_dispatch_at then
       bindS (ask_for (k_scx_exit K (k_time_delta K now last_dispatch_at))
         (\<lambda>_. Scx_Exit (k_time_delta K now last_dispatch_at))) (\<lambda>_. return 0)
     else
       bindS (if \<not> usersched_enabled R then return ()
              else bindS (gets g_usersched_last_run_at) (\<lambda>last_run_at.
                if USERSCHED_TIMER_NS \<le> k_time_delta K now last_run_at then wake_usersched K R else return ())) (\<lambda>_.
       bindS (timer_start K) (\<lambda>_. return 0)))))"

definition usersched_timer_init :: "'k kern \<Rightarrow> ('k bpf, i32) action" where
  "usersched_timer_init K =
     bindS (query (k_timer_lookup K)) (\<lambda>found.
     if \<not> found then bindS (scx_error K) (\<lambda>_. return (- ESRCH))
     else timer_start K)"

section \<open>Initialisation\<close>

fun count_online :: "'k kern \<Rightarrow> i32 list \<Rightarrow> u64 \<Rightarrow> ('k bpf, u64) action" where
  "count_online K [] cpus = return cpus"
| "count_online K (i # rest) cpus =
     bindS (query (k_cpu_online K i)) (\<lambda>online. count_online K rest (if online then cpus + 1 else cpus))"

definition get_nr_online_cpus :: "'k kern \<Rightarrow> ('k bpf, u64) action" where
  "get_nr_online_cpus K = bindS (gets g_nr_cpu_ids) (\<lambda>n. count_online K (map of_nat [0..<unat n]) 0)"

text \<open>Queues created one after the other; the first error reports, stops and is the result.\<close>

fun create_dsqs :: "'k kern \<Rightarrow> u64 list \<Rightarrow> ('k bpf, i32) action" where
  "create_dsqs K [] = return 0"
| "create_dsqs K (d # ds) =
     bindS (ask_for (k_create_dsq K d) (Create_Dsq d)) (\<lambda>err.
     if err \<noteq> 0 then bindS (scx_error K) (\<lambda>_. return err) else create_dsqs K ds)"

definition dsqs_to_create :: "rodata \<Rightarrow> u64 \<Rightarrow> u64 list" where
  "dsqs_to_create R n =
     map (\<lambda>c. cpu_to_dsq n (of_nat c)) [0..<unat n] @
     map (\<lambda>i. llc_to_dsq (of_nat i)) [0..<min MAX_LLCS (unat (nr_llcs (ro_topology R)))] @
     map (\<lambda>i. node_to_dsq (of_nat i)) [0..<min MAX_NODES (unat (nr_nodes (ro_topology R)))] @
     [SHARED_DSQ] @ (if usersched_enabled R then [SCHED_DSQ] else [])"

definition dsq_init :: "'k kern \<Rightarrow> rodata \<Rightarrow> ('k bpf, i32) action" where
  "dsq_init K R =
     bindS (get_nr_online_cpus K) (\<lambda>online.
     bindS (modify (\<lambda>s. s\<lparr>counters := (counters s)(Nr_online_cpus := online)\<rparr>)) (\<lambda>_.
     bindS (gets g_nr_cpu_ids) (\<lambda>n. create_dsqs K (dsqs_to_create R n))))"

definition cognis_init_task :: "'k kern \<Rightarrow> ptr \<Rightarrow> ('k bpf, i32) action" where
  "cognis_init_task K p =
     bindS (query (k_storage_create K p)) (\<lambda>ok.
     if \<not> ok then return (- ENOMEM)
     else bindS (modify (\<lambda>s. if task_ctx_stor s p = None
                  then s\<lparr>task_ctx_stor := (task_ctx_stor s)(p \<mapsto> zero_ctx)\<rparr> else s)) (\<lambda>_. return 0))"

definition cognis_init :: "'k kern \<Rightarrow> rodata \<Rightarrow> ('k bpf, i32) action" where
  "cognis_init K R =
     bindS (query (k_nr_cpu_ids K)) (\<lambda>n.
     bindS (modify (\<lambda>s. s\<lparr>g_nr_cpu_ids := ucast n\<rparr>)) (\<lambda>_.
     bindS (query (k_now K)) (\<lambda>now.
     bindS (modify (\<lambda>s. s\<lparr>g_last_dispatch_at := now\<rparr>)) (\<lambda>_.
     bindS (dsq_init K R) (\<lambda>err.
     if err \<noteq> 0 then return err
     else if usersched_enabled R then usersched_timer_init K
     else return 0)))))"

end
