(* ===== verification/Bpf_Program.thy ===== *)
theory Bpf_Program
  imports Bpf_Callbacks
begin

text \<open>
  The BPF program as a state machine: the callbacks of \<open>main.bpf.c\<close>, in any order the kernel calls them, the
  writes of user space to the shared counters and whatever the kernel does in between. What holds in every
  reachable state, where an enqueued task goes, which queues exist, and what the accounting computes.
\<close>

section \<open>Steps\<close>

definition bpf_loaded :: "'k bpf \<Rightarrow> bool" where
  "bpf_loaded s \<longleftrightarrow> (\<forall>c. counters s c = 0) \<and> (\<forall>p. task_ctx_stor s p = None) \<and> requests s = [] \<and>
     g_nr_cpu_ids s = 0 \<and> g_vtime_now s = 0 \<and> g_usersched_last_run_at s = 0 \<and> g_last_dispatch_at s = 0 \<and>
     g_usersched_needed s = 0"

definition timer_armed :: "'k bpf \<Rightarrow> bool" where
  "timer_armed s \<longleftrightarrow> (\<exists>e. Timer_Start e \<in> set (requests s))"

text \<open>The timer calls back only once it has been started. User space writes three counters of the shared data:
  what it has drained, what it has waiting, and how often its own queue was full.\<close>

inductive bpf_step :: "'k kern \<Rightarrow> rodata \<Rightarrow> 'k bpf \<Rightarrow> 'k bpf \<Rightarrow> bool" for K R where
  select_cpu: "cognis_select_cpu K R p cpu fl s = Inr (x, s') \<Longrightarrow> bpf_step K R s s'"
| rs_select: "rs_select_cpu K R pid cpu s = Inr (x, s') \<Longrightarrow> bpf_step K R s s'"
| enqueue: "cognis_enqueue K R p fl s = Inr ((), s') \<Longrightarrow> bpf_step K R s s'"
| dispatch: "cognis_dispatch K R cpu prev s = Inr ((), s') \<Longrightarrow> bpf_step K R s s'"
| runnable: "cognis_runnable K R p s = Inr ((), s') \<Longrightarrow> bpf_step K R s s'"
| running: "cognis_running K R p s = Inr ((), s') \<Longrightarrow> bpf_step K R s s'"
| stopping: "cognis_stopping K R p s = Inr ((), s') \<Longrightarrow> bpf_step K R s s'"
| enable: "cognis_enable R p s = Inr ((), s') \<Longrightarrow> bpf_step K R s s'"
| disable: "cognis_disable K R p s = Inr ((), s') \<Longrightarrow> bpf_step K R s s'"
| init_task: "cognis_init_task K p s = Inr (x, s') \<Longrightarrow> bpf_step K R s s'"
| timer: "timer_armed s \<Longrightarrow> usersched_timer_fn K R s = Inr (x, s') \<Longrightarrow> bpf_step K R s s'"
| user_writes: "c \<in> {Nr_queued, Nr_scheduled, Nr_sched_congested} \<Longrightarrow> bpf_step K R s (s\<lparr>counters := (counters s)(c := v)\<rparr>)"
| kernel_moves: "bpf_step K R s (s\<lparr>tasks := m, kst := k\<rparr>)"
| task_gone: "bpf_step K R s (s\<lparr>task_ctx_stor := (task_ctx_stor s)(p := None)\<rparr>)"

inductive bpf_reachable :: "'k kern \<Rightarrow> rodata \<Rightarrow> 'k bpf \<Rightarrow> bool" for K R where
  booted: "bpf_loaded s \<Longrightarrow> cognis_init K R s = Inr (0, s') \<Longrightarrow> bpf_reachable K R s'"
| stepped: "bpf_reachable K R s \<Longrightarrow> bpf_step K R s s' \<Longrightarrow> bpf_reachable K R s'"

section \<open>Preservation\<close>

text \<open>\<open>sound I m\<close>: run from a state with \<open>I\<close>, \<open>m\<close> returns, to a state with \<open>I\<close>, whatever the kernel does.\<close>

named_theorems sound_rules "actions that keep an invariant"

definition sound :: "('k bpf \<Rightarrow> bool) \<Rightarrow> ('k bpf, 'a) action \<Rightarrow> bool" where
  "sound I m \<longleftrightarrow> (\<forall>s. I s \<longrightarrow> wp m (\<lambda>_. I) s)"

lemma soundI: "(\<And>s. I s \<Longrightarrow> wp m (\<lambda>_. I) s) \<Longrightarrow> sound I m" by (simp add: sound_def)
lemma soundD: "sound I m \<Longrightarrow> I s \<Longrightarrow> m s = Inr (x, s') \<Longrightarrow> I s'" by (auto simp: sound_def wp_def)

lemma sound_bind [sound_rules]: "sound I m \<Longrightarrow> (\<And>x. sound I (f x)) \<Longrightarrow> sound I (bindS m f)"
  unfolding sound_def wp_bindS by (blast intro: wp_mono)

lemma sound_return [sound_rules]: "sound I (return x)" by (simp add: sound_def wp_simps)
lemma sound_gets [sound_rules]: "sound I (gets f)" by (simp add: sound_def wp_simps)
lemma sound_if [sound_rules]: "(b \<Longrightarrow> sound I m) \<Longrightarrow> (\<not> b \<Longrightarrow> sound I n) \<Longrightarrow> sound I (if b then m else n)" by simp
lemma sound_option [sound_rules]:
  "(x = None \<Longrightarrow> sound I m) \<Longrightarrow> (\<And>y. x = Some y \<Longrightarrow> sound I (f y)) \<Longrightarrow> sound I (case x of None \<Rightarrow> m | Some y \<Rightarrow> f y)" by (cases x) auto
lemma sound_prod [sound_rules]: "(\<And>a b. sound I (f a b)) \<Longrightarrow> sound I (case x of (a, b) \<Rightarrow> f a b)" by (cases x) auto

text \<open>An invariant of the program's own state does not depend on the memory and state of the kernel.\<close>

definition own_invariant :: "('k bpf \<Rightarrow> bool) \<Rightarrow> bool" where
  "own_invariant I \<longleftrightarrow> (\<forall>s m k. I s \<longrightarrow> I (s\<lparr>tasks := m, kst := k\<rparr>))"

lemma sound_asks: "own_invariant I \<Longrightarrow> (\<And>g. asks g m (\<lambda>_. True)) \<Longrightarrow> sound I m"
  unfolding own_invariant_def by (intro soundI) (rule wp_asks, blast, simp)

section \<open>The invariant\<close>

text \<open>
  Every placement the program asks for, other than that of the user-space scheduler, is counted once; the
  placements it routes itself are counted by tier; the wake-up frequencies respect the cap; and no task has
  a generation other than 0.
\<close>

fun is_placement :: "request \<Rightarrow> bool" where
  "is_placement (Dsq_Insert p d x fl) = (d \<noteq> SCHED_DSQ)"
| "is_placement (Dsq_Insert_Vtime p d x v fl) = True"
| "is_placement r = False"

definition placements :: "request list \<Rightarrow> nat" where "placements rs = length (filter is_placement rs)"

definition books :: "'k bpf \<Rightarrow> bool" where
  "books s \<longleftrightarrow>
     counters s Nr_kernel_dispatches = counters s Nr_local_dispatches + counters s Nr_llc_dispatches +
       counters s Nr_node_dispatches + counters s Nr_shared_dispatches \<and>
     of_nat (placements (requests s)) =
       counters s Nr_kernel_dispatches + counters s Nr_user_dispatches + counters s Nr_bounce_dispatches \<and>
     counters s Nr_failed_dispatches = 0 \<and>
     (\<forall>p c. task_ctx_stor s p = Some c \<longrightarrow> tc_wakeup_freq c \<le> MAX_WAKEUP_FREQ \<and> tc_enq_cnt c = 0)"

lemma placements_simps [simp]:
  "placements [] = 0" "placements (rs @ rs') = placements rs + placements rs'"
  "placements (r # rs) = (if is_placement r then Suc (placements rs) else placements rs)"
  by (simp_all add: placements_def)

lemma books_own: "own_invariant books" by (simp add: own_invariant_def books_def)

lemma books_frame [simp]:
  "books (s\<lparr>tasks := m\<rparr>) = books s" "books (s\<lparr>kst := k\<rparr>) = books s" "books (s\<lparr>g_last_dispatch_at := t\<rparr>) = books s"
  "books (s\<lparr>g_usersched_last_run_at := t\<rparr>) = books s" "books (s\<lparr>g_usersched_needed := w\<rparr>) = books s"
  "books (s\<lparr>g_vtime_now := t\<rparr>) = books s" "books (s\<lparr>g_nr_cpu_ids := n\<rparr>) = books s"
  by (simp_all add: books_def)

lemma books_log: "books s \<Longrightarrow> \<not> is_placement r \<Longrightarrow> books (s\<lparr>requests := requests s @ [r]\<rparr>)"
  by (simp add: books_def)

lemma books_count: "books s \<Longrightarrow> c \<in> {Nr_xllc_steals, Nr_xnode_steals, Nr_running, Nr_cancel_dispatches, Nr_queued, Nr_scheduled, Nr_sched_congested, Nr_online_cpus} \<Longrightarrow>
    books (s\<lparr>counters := (counters s)(c := v)\<rparr>)"
  by (auto simp: books_def)

lemma books_ctx:
  "books s \<Longrightarrow> (\<And>c. tc_wakeup_freq c \<le> MAX_WAKEUP_FREQ \<Longrightarrow> tc_enq_cnt c = 0 \<Longrightarrow>
     tc_wakeup_freq (f c) \<le> MAX_WAKEUP_FREQ \<and> tc_enq_cnt (f c) = 0) \<Longrightarrow>
    books (s\<lparr>task_ctx_stor := (task_ctx_stor s)(p := map_option f (task_ctx_stor s p))\<rparr>)"
  by (auto simp: books_def)

text \<open>A placement followed by its count.\<close>

lemma books_place:
  assumes "books s" and "is_placement r" and "requests s' = requests s @ [r]" and "task_ctx_stor s' = task_ctx_stor s"
  shows "counters s' = (counters s)(route_counter d := counters s (route_counter d) + 1,
      Nr_kernel_dispatches := counters s Nr_kernel_dispatches + 1) \<Longrightarrow> books s'"
    and "counters s' = (counters s)(c := counters s c + 1) \<Longrightarrow> c = Nr_user_dispatches \<or> c = Nr_bounce_dispatches \<Longrightarrow> books s'"
  using assms by (auto simp: books_def route_counter_def ac_simps)

lemma sound_query [sound_rules]: "sound books (query f)"
  by (rule soundI) (intro vcg, simp)

lemma sound_memory [sound_rules]:
  "sound books (task_at p)" "sound books (try_lookup_task_ctx p)" "sound books (put_task p g)"
  by (rule soundI, intro vcg, simp)+

lemma sound_log [sound_rules]: "(\<And>x. \<not> is_placement (r x)) \<Longrightarrow> sound books (ask_for f r)"
  by (rule soundI) (intro vcg, simp add: books_def)

lemma sound_put_ctx:
  "(\<And>c. tc_wakeup_freq c \<le> MAX_WAKEUP_FREQ \<Longrightarrow> tc_enq_cnt c = 0 \<Longrightarrow>
     tc_wakeup_freq (f c) \<le> MAX_WAKEUP_FREQ \<and> tc_enq_cnt (f c) = 0) \<Longrightarrow> sound books (put_ctx p f)"
  by (rule soundI) (intro vcg, simp add: books_ctx)

lemma sound_bump [sound_rules]:
  "c \<in> {Nr_xllc_steals, Nr_xnode_steals, Nr_running, Nr_cancel_dispatches} \<Longrightarrow> sound books (bump c)"
  by (rule soundI) (intro vcg, auto intro: books_count)

lemma sound_modify [sound_rules]:
  "sound books (modify (\<lambda>s. s\<lparr>g_last_dispatch_at := now\<rparr>))" "sound books (modify (\<lambda>s. s\<lparr>g_usersched_last_run_at := now\<rparr>))"
  "sound books (modify (\<lambda>s. s\<lparr>g_usersched_needed := f s\<rparr>))" "sound books (modify (\<lambda>s. s\<lparr>g_nr_cpu_ids := n\<rparr>))"
  by (rule soundI, intro vcg, simp)+

lemmas ask_only = sound_asks [OF books_own]

lemma sound_questions [sound_rules]:
  "sound books (queue_pressure K R cpu)" "sound books (overflow_dsq K R cpu)" "sound books (task_slice K R p cpu)"
  "sound books (pick_idle_cpu K R p cpu fl)" "sound books (cpu_under_rt_pressure K cpu)"
  "sound books (task_should_migrate K R p fl)" "sound books (is_queued_wakeup K p fl)" "sound books (nr_waiting K d)"
  by (rule ask_only, (rule asks_rules asks_mono [OF asks_overflow_dsq] asks_mono [OF asks_task_slice]; simp))+

lemma sound_task_dl [sound_rules]: "sound books (task_dl K R p cpu tctx)"
  unfolding task_dl_def Let_def by (intro sound_rules sound_put_ctx) simp

lemma local_on_is_not_sched:
  assumes "2 ^ 63 \<le> unat (SCX_DSQ_LOCAL_ON K)" shows "or (SCX_DSQ_LOCAL_ON K) x \<noteq> SCHED_DSQ"
proof -
  have "unat (SCX_DSQ_LOCAL_ON K) \<le> unat (or (SCX_DSQ_LOCAL_ON K) x)"
    using le_word_or2 [of "SCX_DSQ_LOCAL_ON K" x] by (simp only: word_le_nat_alt)
  then show ?thesis using assms by (auto simp: dsq_eq_iff unat_dsq)
qed

text \<open>The three ways to place a task, each with its count.\<close>

lemma wp_count_route [wp_simps]:
  "wp (count_kernel_route d) Q s \<longleftrightarrow> Q () (s\<lparr>counters := (counters s)(route_counter d := counters s (route_counter d) + 1,
      Nr_kernel_dispatches := counters s Nr_kernel_dispatches + 1)\<rparr>)"
  by (simp add: count_kernel_route_def bump_def wp_simps route_counter_def)

lemma sound_direct_local:
  assumes "2 ^ 63 \<le> unat (SCX_DSQ_LOCAL_ON K)" shows "sound books (direct_local_dispatch K p cpu x fl)"
  unfolding direct_local_dispatch_def Let_def
  by (rule soundI, rule wp_bind_any, rule wp_ask_for_any)
    (simp add: wp_simps, erule books_place(1), simp_all add: local_on_is_not_sched [OF assms])

lemma sound_route:
  "sound books (bindS (insert_vtime K p d x v fl) (\<lambda>_. count_kernel_route d))"
  unfolding insert_vtime_def by (rule soundI, rule wp_bind_any, rule wp_ask_for_any)
    (simp add: wp_simps, erule books_place(1), simp_all)

lemma sound_enqueue_deferred: "sound books (enqueue_deferred K R p cpu tctx share fl)"
  unfolding enqueue_deferred_def by (intro sound_rules sound_route)

lemma sound_enqueue:
  assumes "2 ^ 63 \<le> unat (SCX_DSQ_LOCAL_ON K)" shows "sound books (cognis_enqueue K R p fl)"
  unfolding cognis_enqueue_def enqueue_place_def enqueue_idle_def enqueue_local_def kick_cpu_def
  by (intro sound_rules sound_enqueue_deferred sound_direct_local [OF assms]) simp_all

lemma sound_select_cpu:
  assumes "2 ^ 63 \<le> unat (SCX_DSQ_LOCAL_ON K)" shows "sound books (cognis_select_cpu K R p cpu fl)"
  unfolding cognis_select_cpu_def by (intro sound_rules sound_direct_local [OF assms])

lemma sound_rs_select: "sound books (rs_select_cpu K R pid cpu)"
  unfolding rs_select_cpu_def by (intro sound_rules) simp_all

lemma sound_runnable: "sound books (cognis_runnable K R p)"
  unfolding cognis_runnable_def by (intro sound_rules sound_put_ctx) (simp add: Let_def)

lemma sound_running: "sound books (cognis_running K R p)"
  unfolding cognis_running_def
  by (intro sound_rules sound_put_ctx; simp?) (rule soundI, intro vcg, simp)

lemma sound_stopping: "sound books (cognis_stopping K R p)"
  unfolding cognis_stopping_def Let_def
  by (intro sound_rules sound_put_ctx; simp?) (rule soundI, intro vcg, simp add: books_count)

lemma sound_enable: "sound books (cognis_enable R p)"
  unfolding cognis_enable_def by (intro sound_rules)

lemma sound_disable: "sound books (cognis_disable K R p)"
  unfolding cognis_disable_def by (intro sound_rules) simp_all

lemma sound_init_task: "sound books (cognis_init_task K p)"
  unfolding cognis_init_task_def
  by (intro sound_rules; simp?) (rule soundI, intro vcg, auto simp: books_def zero_ctx_def MAX_WAKEUP_FREQ_def)

text \<open>The message of user space: placed first and counted as dispatched, or counted as bounced and then placed.\<close>

lemma sound_place_bump:
  assumes "is_placement r" and "c = Nr_user_dispatches \<or> c = Nr_bounce_dispatches" and "sound books m"
  shows "sound books (bindS (ask_for f (\<lambda>_. r)) (\<lambda>_. bindS (bump c) (\<lambda>_. m)))"
    and "sound books (bindS (bump c) (\<lambda>_. bindS (ask_for f (\<lambda>_. r)) (\<lambda>_. m)))"
proof -
  have m: "books s' \<Longrightarrow> wp m (\<lambda>_. books) s'" for s' using assms(3) by (simp add: sound_def)
  show "sound books (bindS (ask_for f (\<lambda>_. r)) (\<lambda>_. bindS (bump c) (\<lambda>_. m)))"
    by (rule soundI, intro vcg m, erule books_place(2) [OF _ assms(1) _ _ _ assms(2)]) simp_all
  show "sound books (bindS (bump c) (\<lambda>_. bindS (ask_for f (\<lambda>_. r)) (\<lambda>_. m)))"
    by (rule soundI, intro vcg m, erule books_place(2) [OF _ assms(1) _ _ _ assms(2)]) simp_all
qed

lemma sound_kick [sound_rules]: "sound books (kick_task_cpu K p cpu)" "sound books (kick_cpu K cpu)"
  unfolding kick_task_cpu_def kick_cpu_def by (intro sound_rules; simp)+

lemma sound_ops_dispatch_task [sound_rules]: "sound books (ops_dispatch_task K d)"
  unfolding ops_dispatch_task_def Let_def
  by (rule sound_place_bump sound_rules | simp)+

lemma sound_drain [sound_rules]: "sound books (drain K left ret)"
proof (induction left arbitrary: ret)
  case (Suc left)
  then show ?case unfolding drain.simps handle_dispatched_task_def by (intro sound_rules)
qed (simp add: sound_rules)

lemma sound_or_else [sound_rules]: "sound I a \<Longrightarrow> sound I b \<Longrightarrow> sound I (or_else a b)"
  unfolding or_else_def by (intro sound_rules)

lemma sound_and_then [sound_rules]: "sound I a \<Longrightarrow> sound I b \<Longrightarrow> sound I (and_then a b)"
  unfolding and_then_def by (intro sound_rules)

lemma sound_first_success: "(\<And>a. a \<in> set as \<Longrightarrow> sound I a) \<Longrightarrow> sound I (first_success as)"
  by (induction as) (auto intro: sound_rules)

lemma sound_move [sound_rules]: "sound books (move_to_local K d)" "sound books (move_if K b d)" "sound books (take_best K t)"
  unfolding move_to_local_def move_if_def take_best_def by (intro sound_rules; simp)+

lemma sound_pending [sound_rules]: "sound books (usersched_has_pending_tasks K R)"
  unfolding usersched_has_pending_tasks_def test_and_clear_usersched_needed_def by (intro sound_rules)

lemma sound_weigh_all [sound_rules]: "sound books (weigh_all K fits ds b)"
proof (induction ds arbitrary: b)
  case (Cons d ds)
  then show ?case unfolding weigh_all.simps weigh_def by (intro sound_rules)
qed (simp add: sound_rules)

lemma sound_steals [sound_rules]: "sound books (steals K R cpu)"
  unfolding steals_def steal_remote_cpu_def steal_remote_llc_def steal_remote_node_def scan_cpus_weigh scan_llcs_weigh
    scan_nodes_weigh steal_counted_def
  by (rule sound_first_success) (auto intro!: sound_rules)

lemma sound_own_queues [sound_rules]: "sound books (own_queues K R cpu)"
  unfolding own_queues_def Let_def by (intro sound_rules sound_first_success) (auto intro: sound_rules)

lemma sound_dispatch: "sound books (cognis_dispatch K R cpu prev)"
  unfolding cognis_dispatch_def replenish_def by (intro sound_rules sound_first_success) (auto intro!: sound_rules)

lemma sound_backlog [sound_rules]: "sound books (dsq_backlog_exists K R)"
proof -
  have "sound books (any_backlog K ds)" for ds by (induction ds) (auto intro!: sound_rules)
  then show ?thesis unfolding dsq_backlog_exists_def by (intro sound_rules)
qed

lemma sound_timer_start [sound_rules]: "sound books (timer_start K)" "sound books (scx_error K)"
  unfolding timer_start_def scx_error_def by (intro sound_rules; simp)+

lemma sound_timer_fn: "sound books (usersched_timer_fn K R)"
  unfolding usersched_timer_fn_def wake_usersched_def set_usersched_needed_def
  by (intro sound_rules) simp_all

lemma sound_init: "sound books (cognis_init K R)"
proof -
  have count: "sound books (count_online K is n)" for "is" n by (induction "is" arbitrary: n) (auto intro!: sound_rules)
  have create: "sound books (create_dsqs K ds)" for ds by (induction ds) (auto intro!: sound_rules)
  have "sound books (modify (\<lambda>s. s\<lparr>counters := (counters s)(Nr_online_cpus := online)\<rparr>))" for online
    by (rule soundI) (intro vcg, simp add: books_count)
  then show ?thesis unfolding cognis_init_def dsq_init_def get_nr_online_cpus_def usersched_timer_init_def
    by (intro sound_rules count create)
qed

lemma bpf_step_books:
  assumes "2 ^ 63 \<le> unat (SCX_DSQ_LOCAL_ON K)" and "bpf_step K R s s'" and "books s"
  shows "books s'"
  using assms(2,3)
proof (cases rule: bpf_step.cases)
  case (user_writes c v)
  then show ?thesis using assms(3) by (auto intro: books_count)
next
  case (task_gone p)
  then show ?thesis using assms(3) by (auto simp: books_def)
next
  case (kernel_moves m k)
  then show ?thesis using assms(3) by simp
qed (use assms(3) in \<open>auto intro: soundD [where I = books] sound_select_cpu [OF assms(1)] sound_enqueue [OF assms(1)] sound_rs_select sound_dispatch
    sound_runnable sound_running sound_stopping sound_enable sound_disable sound_init_task sound_timer_fn\<close>)

lemma reachable_books:
  assumes "2 ^ 63 \<le> unat (SCX_DSQ_LOCAL_ON K)" and "bpf_reachable K R s" shows "books s"
  using assms(2)
proof (induction rule: bpf_reachable.induct)
  case (booted s s')
  then have "books s" by (simp add: bpf_loaded_def books_def)
  then show ?case by (rule soundD [where I = books, OF sound_init _ booted(2)])
next
  case (stepped s s')
  then show ?case using bpf_step_books [OF assms(1)] by blast
qed

section \<open>The books\<close>

text \<open>
  C8. In every reachable state, whatever the kernel answered and whatever user space wrote to its counters: the
  kernel-dispatch counter is the sum of the local, LLC, node and shared counters; every placement of a task the
  program asked for is counted exactly once, as routed by the kernel side, as dispatched by user space or as
  bounced; and the counter of failed dispatches, which the code reports but never increments, is 0 (all modulo
  the width of the counters). Not counted, by the code and by \<open>placements\<close>, are the inserts of the user-space
  scheduler's own task on its queue.
\<close>

theorem placements_are_counted:
  assumes "2 ^ 63 \<le> unat (SCX_DSQ_LOCAL_ON K)" and "bpf_reachable K R s"
  shows "counters s Nr_kernel_dispatches = counters s Nr_local_dispatches + counters s Nr_llc_dispatches +
      counters s Nr_node_dispatches + counters s Nr_shared_dispatches \<and>
    of_nat (placements (requests s)) =
      counters s Nr_kernel_dispatches + counters s Nr_user_dispatches + counters s Nr_bounce_dispatches \<and>
    counters s Nr_failed_dispatches = 0"
  using reachable_books [OF assms] by (simp add: books_def)

lemma bench_boots: "\<exists>s. bpf_reachable bench bench_ro s \<and> requests s = map (\<lambda>d. Create_Dsq d 0) [0, 1, 1026, 1090, 1024]"
proof -
  have "wp (cognis_init bench bench_ro) (\<lambda>x s. x = 0 \<and> requests s = map (\<lambda>d. Create_Dsq d 0) [0, 1, 1026, 1090, 1024]) bench_boot"
    by (simp add: cognis_init_def dsq_init_def get_nr_online_cpus_def dsqs_to_create_def wp_simps wp_ask_for bench_defs
        export_default_def cpu_to_dsq_def is_cpu_valid_def dsq_defs llc_to_dsq_def node_to_dsq_def upt_rec)
      (simp add: word_le_nat_alt)
  moreover have "bpf_loaded bench_boot" by (simp add: bpf_loaded_def bench_boot_def)
  ultimately show ?thesis by (auto simp: wp_iff intro: booted)
qed

theorem placements_are_counted_witness:
  "\<exists>s. bpf_reachable bench bench_ro s \<and> of_nat (placements (requests s)) =
      counters s Nr_kernel_dispatches + counters s Nr_user_dispatches + counters s Nr_bounce_dispatches"
proof -
  obtain s where "bpf_reachable bench bench_ro s" using bench_boots by blast
  moreover have "2 ^ 63 \<le> unat (SCX_DSQ_LOCAL_ON bench)" by (simp add: bench_def)
  ultimately show ?thesis using placements_are_counted by blast
qed

text \<open>
  The wake-up frequency of every task stays within the cap, and no task ever has a generation other than 0:
  the program never counts generations, so the test that cancels an outdated message of user space
  compares with 0.
\<close>

theorem generations_are_never_counted:
  assumes "2 ^ 63 \<le> unat (SCX_DSQ_LOCAL_ON K)" and "bpf_reachable K R s" and "task_ctx_stor s p = Some c"
  shows "tc_wakeup_freq c \<le> 64 \<and> tc_enq_cnt c = 0 \<and> \<not> dt_enq_cnt d < tc_enq_cnt c"
  using reachable_books [OF assms(1,2)] assms(3) by (simp add: books_def MAX_WAKEUP_FREQ_def)

theorem generations_are_never_counted_witness:
  "\<exists>s c. bpf_reachable bench bench_ro s \<and> task_ctx_stor s 7 = Some c \<and> tc_wakeup_freq c \<le> 64 \<and> tc_enq_cnt c = 0"
proof -
  obtain s where s: "bpf_reachable bench bench_ro s" using bench_boots by blast
  have "wp (cognis_init_task bench 7) (\<lambda>x s'. task_ctx_stor s' 7 \<noteq> None) s"
    by (simp add: cognis_init_task_def wp_simps bench_def split: prod.splits)
  then obtain x s' where "cognis_init_task bench 7 s = Inr (x, s')" and c: "task_ctx_stor s' 7 \<noteq> None" by (auto simp: wp_iff)
  then have "bpf_reachable bench bench_ro s'" using s by (auto intro: stepped bpf_step.init_task)
  moreover have "2 ^ 63 \<le> unat (SCX_DSQ_LOCAL_ON bench)" by (simp add: bench_def)
  ultimately show ?thesis using generations_are_never_counted c by blast
qed

section \<open>Where an enqueued task goes\<close>

text \<open>The queues tasks are put on, in the order of the requests.\<close>

fun insert_of :: "request \<Rightarrow> (ptr \<times> u64) option" where
  "insert_of (Dsq_Insert p d x fl) = Some (p, d)"
| "insert_of (Dsq_Insert_Vtime p d x v fl) = Some (p, d)"
| "insert_of r = None"

definition inserts :: "request list \<Rightarrow> (ptr \<times> u64) list" where "inserts rs = List.map_filter insert_of rs"

lemma inserts_simps [simp]:
  "inserts [] = []" "inserts (rs @ rs') = inserts rs @ inserts rs'"
  "inserts (r # rs) = (case insert_of r of None \<Rightarrow> inserts rs | Some x \<Rightarrow> x # inserts rs)"
  by (simp_all add: inserts_def List.map_filter_def split: option.splits)

text \<open>
  What the kernel answers to the questions a placement rests on, asked one after the other from the world \<open>w\<close>
  (the tasks and the kernel's own state): the CPU of the task; whether it may leave that CPU, which it may not
  when the kernel has chosen the CPU, nor when sticky tasks are on and it still runs; and whether that CPU runs
  a real-time, deadline or softirq task. The last component is the world after the questions.
\<close>

definition enqueue_view ::
    "'k kern \<Rightarrow> rodata \<Rightarrow> u64 \<Rightarrow> ptr \<Rightarrow> u64 \<Rightarrow> 'k mach \<Rightarrow> i32 \<times> bool \<times> bool \<times> 'k mach" where
  "enqueue_view K R n p fl w =
     (let selected = k_enq_cpu_selected K fl;
          (cpu, w) = k_task_cpu K p w;
          (_, w) = (if selected then (False, w) else k_task_running K p w);
          (stays, w) = (if selected then (True, w) else if ro_sticky_tasks R then k_task_running K p w else (False, w));
          (curr, w) = (if is_cpu_valid n cpu then k_cpu_curr K cpu w else (None, w));
          rt_busy = (case curr of None \<Rightarrow> False
            | Some c \<Rightarrow> and (ts_flags (fst w c)) (PF_IDLE K) = 0 \<and> (rt_or_dl_task (fst w c) \<or> is_ksoftirqd (fst w c)))
      in (cpu, \<not> stays, rt_busy, w))"

text \<open>The specification of a placement: \<open>idle\<close> is the CPU found idle, negative for none, \<open>tier\<close> the tier with room.\<close>

definition place_at ::
    "'k kern \<Rightarrow> rodata \<Rightarrow> task_ctx \<Rightarrow> task_struct \<Rightarrow> i32 \<Rightarrow> bool \<Rightarrow> bool \<Rightarrow> i32 \<Rightarrow> u64 \<Rightarrow> u64" where
  "place_at K R tctx t cpu can_migrate rt_busy idle tier =
     (if is_usersched_task R t then SCHED_DSQ
      else if is_kthread K t \<or> (is_task_sticky R tctx \<and> \<not> rt_busy) then or (SCX_DSQ_LOCAL_ON K) (scast cpu)
      else if can_migrate \<and> 0 \<le> sint idle then or (SCX_DSQ_LOCAL_ON K) (scast idle)
      else if can_migrate \<and> rt_busy then SHARED_DSQ
      else tier)"

definition placed :: "ptr \<Rightarrow> u64 \<Rightarrow> 'k bpf \<Rightarrow> 'k bpf \<Rightarrow> bool" where
  "placed p d s s' \<longleftrightarrow> inserts (requests s') = inserts (requests s) @ [(p, d)]"

lemma placed_kernel: "placed p d (s\<lparr>tasks := m, kst := (k :: 'k)\<rparr>) = placed p d (s :: 'k bpf)"
  by (simp add: placed_def fun_eq_iff)

text \<open>The calls, with what is known of their answer for any kernel.\<close>

lemma wp_calls_any:
  "(\<And>x m k. ro_slice_min_ns R \<le> x \<Longrightarrow> U x (s\<lparr>tasks := m, kst := k\<rparr>)) \<Longrightarrow> wp (task_slice K R p cpu) U s"
  "(\<And>x m k. U x (s\<lparr>tasks := m, kst := k\<rparr>)) \<Longrightarrow> wp (queue_pressure K R cpu) U s"
  by (rule wp_asks [OF asks_task_slice], simp) (rule wp_asks [OF asks_queue_pressure [OF TrueI]], simp)

lemma wp_task_dl_any:
  "(\<And>dl m k m' f. Q dl (s\<lparr>tasks := m, kst := k, tasks := m', task_ctx_stor := f\<rparr>)) \<Longrightarrow> wp (task_dl K R p cpu tctx) Q s"
  unfolding task_dl_def Let_def by (intro wp_bind_any wp_calls_any(2) vcg)

lemma wp_direct_local:
  "(\<And>m k c. Q () (s\<lparr>tasks := m, kst := k, requests := requests s @ [Dsq_Insert p (or (SCX_DSQ_LOCAL_ON K) (scast cpu)) x fl], counters := c\<rparr>))
    \<Longrightarrow> wp (direct_local_dispatch K p cpu x fl) Q s"
  unfolding direct_local_dispatch_def Let_def by (intro vcg) (simp add: wp_simps)

text \<open>A call whose answer is known.\<close>

lemma wp_known: "m s = Inr (x, s') \<Longrightarrow> wp m Q s \<longleftrightarrow> Q x s'" by (simp add: wp_def)

lemma asked:
  assumes "asks (globals s) m P" and "m s = Inr (x, s')"
  obtains ts k where "s' = s\<lparr>tasks := ts, kst := k\<rparr>" "P x"
  using assms unfolding asks_def by fastforce

lemma asks_returns:
  assumes "asks (globals s) m P" obtains x s' where "m s = Inr (x, s')"
  using assms unfolding asks_def by blast

lemma wp_enqueue_local:
  "wp (enqueue_local K R p cpu fl) (\<lambda>_. placed p (or (SCX_DSQ_LOCAL_ON K) (scast cpu)) s) s"
  unfolding enqueue_local_def by (intro wp_bind_any wp_calls_any wp_direct_local) (simp add: placed_def)

lemma wp_enqueue_idle:
  assumes "pick_idle_cpu K R p prev 0 s = Inr (idle, s1)"
  shows "wp (enqueue_idle K R p prev fl) (\<lambda>done s'.
    if 0 \<le> sint idle then done \<and> placed p (or (SCX_DSQ_LOCAL_ON K) (scast idle)) s s' else \<not> done \<and> s' = s1) s"
proof -
  obtain m k where "s1 = s\<lparr>tasks := m, kst := k\<rparr>" using asked [OF asks_pick_idle_cpu [OF TrueI] assms] .
  then show ?thesis
    unfolding enqueue_idle_def kick_cpu_def
    by (intro wp_bind_any) (simp only: wp_known [where m = "pick_idle_cpu K R p prev 0", OF assms], intro wp_bind_any wp_calls_any wp_direct_local vcg, auto simp: placed_def)
qed

lemma wp_enqueue_deferred:
  assumes "overflow_dsq K R cpu s = Inr (tier, s1)"
  shows "wp (enqueue_deferred K R p cpu tctx share fl) (\<lambda>_. placed p (if share then SHARED_DSQ else tier) s) s"
proof -
  obtain m k where "s1 = s\<lparr>tasks := m, kst := k\<rparr>" using asked [OF asks_overflow_dsq assms] .
  then show ?thesis
    unfolding enqueue_deferred_def insert_vtime_def
    by (intro wp_bind_any wp_if_any wp_return_any; (simp only: wp_known [where m = "overflow_dsq K R cpu", OF assms])?;
      intro wp_bind_any wp_calls_any wp_task_dl_any wp_ask_for_any) (simp_all add: wp_simps placed_def)
qed

lemma wp_enqueue_place:
  assumes "is_usersched_task R t \<Longrightarrow> usersched_enabled R"
    and "pick_idle_cpu K R p cpu 0 s = Inr (idle, s1)"
    and "overflow_dsq K R cpu (if can_migrate then s1 else s) = Inr (tier, s2)"
  shows "wp (enqueue_place K R p cpu can_migrate rt_busy tctx t fl)
    (\<lambda>_. placed p (place_at K R tctx t cpu can_migrate rt_busy idle tier) s) s"
proof -
  consider (user) "is_usersched_task R t" "usersched_enabled R"
    | (near) "\<not> is_usersched_task R t" "is_kthread K t \<or> (is_task_sticky R tctx \<and> \<not> rt_busy)"
    | (far) "\<not> is_usersched_task R t" "\<not> is_kthread K t" "\<not> (is_task_sticky R tctx \<and> \<not> rt_busy)"
    using assms(1) by blast
  then show ?thesis
  proof cases
    case user
    then show ?thesis
      unfolding enqueue_place_def by (simp, intro vcg) (simp add: placed_def place_at_def)
  next
    case near
    then have "enqueue_place K R p cpu can_migrate rt_busy tctx t fl = bindS (enqueue_local K R p cpu fl) (\<lambda>_. return False)"
      by (auto simp: enqueue_place_def)
    then show ?thesis
      using near by (auto simp: place_at_def intro!: wp_bind_any wp_return_any wp_mono [OF wp_enqueue_local])
  next
    case far
    have deferred: "wp (bindS (enqueue_deferred K R p cpu tctx (can_migrate \<and> rt_busy) fl) (\<lambda>_. return False))
        (\<lambda>_. placed p (if can_migrate \<and> rt_busy then SHARED_DSQ else tier) s) s'"
      if "s' = (if can_migrate then s1 else s)" for s'
    proof -
      obtain m k where s1: "s1 = s\<lparr>tasks := m, kst := k\<rparr>" using asked [OF asks_pick_idle_cpu [OF TrueI] assms(2)] .
      then have same: "placed p d s' = placed p d s" for d using that by (auto simp: placed_kernel)
      have "wp (enqueue_deferred K R p cpu tctx (can_migrate \<and> rt_busy) fl)
          (\<lambda>_. placed p (if can_migrate \<and> rt_busy then SHARED_DSQ else tier) s) s'"
        using wp_enqueue_deferred [where s = s' and share = "can_migrate \<and> rt_busy" and p = p and tctx = tctx and fl = fl, OF assms(3) [folded that]]
        unfolding same .
      then show ?thesis by (intro wp_bind_any, elim wp_mono) (rule wp_return_any)
    qed
    show ?thesis
    proof (cases can_migrate)
      case True
      have "wp (bindS (enqueue_idle K R p cpu fl) (\<lambda>placed. if placed then return True else
          bindS (enqueue_deferred K R p cpu tctx rt_busy fl) (\<lambda>_. return False)))
        (\<lambda>_. placed p (place_at K R tctx t cpu can_migrate rt_busy idle tier) s) s"
        using far True deferred [of s1]
        by (intro wp_bind_any wp_mono [OF wp_enqueue_idle [OF assms(2)]]) (auto simp: wp_simps place_at_def split: if_splits)
      then show ?thesis using far True by (auto simp: enqueue_place_def cong: if_cong)
    next
      case False
      then show ?thesis using far deferred [of s] by (auto simp: enqueue_place_def place_at_def wp_simps)
    qed
  qed
qed

text \<open>The callback up to the placement: the questions of \<open>enqueue_view\<close>, and whether the CPU is kicked at the end.\<close>

definition in_world :: "'k bpf \<Rightarrow> 'k mach \<Rightarrow> 'k bpf" where
  "in_world s w = s\<lparr>tasks := fst w, kst := snd w\<rparr>"

lemma in_world_simps [simp]:
  "g_nr_cpu_ids (in_world s w) = g_nr_cpu_ids s" "task_ctx_stor (in_world s w) = task_ctx_stor s"
  "tasks (in_world s w) = fst w"
  by (simp_all add: in_world_def)

lemma wp_in_world:
  "wp (query f) Q (in_world s w) = Q (fst (f w)) (in_world s (snd (f w)))"
  by (simp add: wp_simps in_world_def split: prod.splits)

lemma wp_questions:
  "wp (is_queued_wakeup K p fl) Q (in_world s w) = (if k_enq_cpu_selected K fl then Q False (in_world s w)
     else Q (\<not> fst (k_task_running K p w)) (in_world s (snd (k_task_running K p w))))"
  "wp (task_should_migrate K R p fl) U (in_world s w) = (if k_enq_cpu_selected K fl then U False (in_world s w)
     else if ro_sticky_tasks R then U (\<not> fst (k_task_running K p w)) (in_world s (snd (k_task_running K p w))) else U True (in_world s w))"
  "wp (cpu_under_rt_pressure K cpu) V (in_world s w) = (if is_cpu_valid (g_nr_cpu_ids s) cpu
     then V (case fst (k_cpu_curr K cpu w) of None \<Rightarrow> False
        | Some c \<Rightarrow> let t = fst (snd (k_cpu_curr K cpu w)) c in
            and (ts_flags t) (PF_IDLE K) = 0 \<and> (rt_or_dl_task t \<or> is_ksoftirqd t)) (in_world s (snd (k_cpu_curr K cpu w)))
     else V False (in_world s w))"
  by (auto simp: is_queued_wakeup_def task_should_migrate_def cpu_under_rt_pressure_def task_at_def wp_in_world Let_def
      wp_bindS wp_return wp_gets split: option.splits)

lemma enqueue_asks:
  assumes "enqueue_view K R (g_nr_cpu_ids s) p fl (tasks s, kst s) = (cpu, can_migrate, rt_busy, w)"
  shows "\<exists>should_kick. wp (cognis_enqueue K R p fl) Q s \<longleftrightarrow>
    wp (case task_ctx_stor s p of None \<Rightarrow> return ()
      | Some tctx \<Rightarrow> bindS (enqueue_place K R p cpu can_migrate rt_busy tctx (fst w p) fl) (\<lambda>ok.
          if ok then return () else if should_kick then kick_cpu K cpu else return ())) Q (in_world s w)"
proof -
  define rest where "rest = (\<lambda>cpu kick can_migrate rt_busy. bindS (try_lookup_task_ctx p) (\<lambda>found. case found of
       None \<Rightarrow> return ()
     | Some tctx \<Rightarrow> bindS (task_at p) (\<lambda>t. bindS (enqueue_place K R p cpu can_migrate rt_busy tctx t fl) (\<lambda>ok.
         if ok then return () else if kick then kick_cpu K cpu else return ()))))"
  define w0 where "w0 = (tasks s, kst s)"
  have s: "s = in_world s w0" by (simp add: in_world_def w0_def)
  have split: "cognis_enqueue K R p fl = bindS (query (k_task_cpu K p)) (\<lambda>cpu. bindS (is_queued_wakeup K p fl) (\<lambda>kick.
      bindS (task_should_migrate K R p fl) (\<lambda>can_migrate. bindS (cpu_under_rt_pressure K cpu) (rest cpu kick can_migrate))))"
    by (simp add: cognis_enqueue_def rest_def)
  define kick where "kick \<longleftrightarrow> \<not> k_enq_cpu_selected K fl \<and> \<not> fst (k_task_running K p (snd (k_task_cpu K p w0)))"
  have view: "enqueue_view K R (g_nr_cpu_ids s) p fl w0 = (cpu, can_migrate, rt_busy, w)" using assms by (simp add: w0_def)
  have "wp (cognis_enqueue K R p fl) Q (in_world s w0) \<longleftrightarrow> wp (rest cpu kick can_migrate rt_busy) Q (in_world s w)"
    unfolding split wp_bindS wp_in_world wp_questions using view
    by (cases "k_enq_cpu_selected K fl"; cases "ro_sticky_tasks R")
      (auto simp: enqueue_view_def kick_def Let_def case_prod_unfold cong: option.case_cong)
  then show ?thesis
    unfolding s [symmetric] rest_def
    by (intro exI [of _ kick]) (simp add: memory_defs wp_bindS wp_gets option.case_distrib [of "\<lambda>m. wp m _ _"] cong: option.case_cong)
qed

lemma asks_answers: "asks (globals s) m P \<Longrightarrow> \<exists>x s'. m s = Inr (x, s')"
  unfolding asks_def by blast

lemma enqueue_places:
  assumes "task_ctx_stor s p = Some tctx"
    and "enqueue_view K R (g_nr_cpu_ids s) p fl (tasks s, kst s) = (cpu, can_migrate, rt_busy, (m, k))"
    and "pick_idle_cpu K R p cpu 0 (s\<lparr>tasks := m, kst := k\<rparr>) = Inr (idle, s1)"
    and "overflow_dsq K R cpu (if can_migrate then s1 else s\<lparr>tasks := m, kst := k\<rparr>) = Inr (tier, s2)"
    and "is_usersched_task R (m p) \<Longrightarrow> usersched_enabled R"
  shows "\<exists>s'. cognis_enqueue K R p fl s = Inr ((), s') \<and>
    inserts (requests s') = inserts (requests s) @ [(p, place_at K R tctx (m p) cpu can_migrate rt_busy idle tier)]"
proof -
  let ?d = "place_at K R tctx (m p) cpu can_migrate rt_busy idle tier"
  note put = wp_enqueue_place [where rt_busy = rt_busy and tctx = tctx and fl = fl, OF assms(5,3,4), unfolded placed_kernel]
  obtain kick where "wp (cognis_enqueue K R p fl) (\<lambda>_. placed p ?d s) s \<longleftrightarrow>
    wp (bindS (enqueue_place K R p cpu can_migrate rt_busy tctx (m p) fl) (\<lambda>placed.
          if placed then return () else if kick then kick_cpu K cpu else return ())) (\<lambda>_. placed p ?d s) (s\<lparr>tasks := m, kst := k\<rparr>)"
    using enqueue_asks [OF assms(2), of "\<lambda>_. placed p ?d s"] assms(1) by (auto simp: in_world_def)
  moreover have "wp (bindS (enqueue_place K R p cpu can_migrate rt_busy tctx (m p) fl) (\<lambda>placed.
          if placed then return () else if kick then kick_cpu K cpu else return ())) (\<lambda>_. placed p ?d s) (s\<lparr>tasks := m, kst := k\<rparr>)"
    unfolding kick_cpu_def by (intro wp_bind_any wp_mono [OF put] vcg) (simp_all add: placed_def)
  ultimately show ?thesis by (auto simp: wp_iff placed_def)
qed

text \<open>
  C4. A task that becomes ready is put on exactly one queue, by exactly one request, and the queue is determined
  by what the kernel answers, whatever that is: the queue of the user-space scheduler for that process; the
  local queue of the CPU it was on for a kernel thread, and for a sticky task unless that CPU runs a real-time
  task; else, when it may migrate, the local queue of the CPU found idle, and failing that the shared queue if
  its CPU runs a real-time task; and else the tier of its CPU's overflow hierarchy that has room. It needs the
  task's context (without one the task is not placed), and user-space scheduling to be on when the task is the
  scheduler itself.
\<close>

theorem enqueue_places_exactly_once:
  assumes "task_ctx_stor s p = Some tctx"
    and "enqueue_view K R (g_nr_cpu_ids s) p fl (tasks s, kst s) = (cpu, can_migrate, rt_busy, (m, k))"
    and "is_usersched_task R (m p) \<Longrightarrow> usersched_enabled R"
  shows "\<exists>idle s1 tier s2 s'. pick_idle_cpu K R p cpu 0 (s\<lparr>tasks := m, kst := k\<rparr>) = Inr (idle, s1) \<and>
    overflow_dsq K R cpu (if can_migrate then s1 else s\<lparr>tasks := m, kst := k\<rparr>) = Inr (tier, s2) \<and>
    cognis_enqueue K R p fl s = Inr ((), s') \<and>
    inserts (requests s') = inserts (requests s) @ [(p, place_at K R tctx (m p) cpu can_migrate rt_busy idle tier)]"
proof -
  obtain idle s1 where idle: "pick_idle_cpu K R p cpu 0 (s\<lparr>tasks := m, kst := k\<rparr>) = Inr (idle, s1)"
    using asks_pick_idle_cpu [OF TrueI, THEN asks_answers] by blast
  obtain tier s2 where tier: "overflow_dsq K R cpu (if can_migrate then s1 else s\<lparr>tasks := m, kst := k\<rparr>) = Inr (tier, s2)"
    using asks_overflow_dsq [THEN asks_answers] by blast
  show ?thesis using enqueue_places [OF assms(1,2) idle tier assms(3)] idle tier by blast
qed

lemma bench_answers:
  assumes "g_nr_cpu_ids s = 2" and "tasks s = (\<lambda>_. bench_task)" and "kst s = (\<lambda>_. [])"
  shows "enqueue_view bench bench_ro (g_nr_cpu_ids s) p 0 (tasks s, kst s) = (0, True, False, (tasks s, kst s))"
    and "pick_idle_cpu bench bench_ro p 0 0 (s\<lparr>tasks := tasks s, kst := kst s\<rparr>) = Inr (- 16, s)"
    and "overflow_dsq bench bench_ro 0 (if True then s else s\<lparr>tasks := tasks s, kst := kst s\<rparr>) = Inr (0, s)"
    and "\<not> is_usersched_task bench_ro (tasks s p)"
    and "place_at bench bench_ro c (tasks s p) 0 True False (- 16) d = d"
  using assms
  by (simp_all add: enqueue_view_def pick_idle_cpu_def overflow_dsq_def select_idle_def is_usersched_task_def place_at_def is_kthread_def
      is_task_sticky_def is_cpu_valid_def nr_waiting_def bench_defs bindS_def return_def query_def gets_def task_at_def cpu_to_dsq_def
      is_wakeup_def cpu_spill_threshold_def MAX_CPUS_def EBUSY_def)

theorem enqueue_places_exactly_once_witness:
  "\<exists>s'. cognis_enqueue bench bench_ro 7 0 bench_up = Inr ((), s') \<and> inserts (requests s') = [(7, 0)]"
proof -
  have up: "task_ctx_stor bench_up 7 = Some zero_ctx" "inserts (requests bench_up) = []" "g_nr_cpu_ids bench_up = 2"
    "tasks bench_up = (\<lambda>_. bench_task)" "kst bench_up = (\<lambda>_. [])"
    by (simp_all add: bench_up_def bench_boot_def)
  note a = bench_answers [OF up(3-5)]
  from enqueue_places_exactly_once [OF up(1) a(1)] a(4) [of 7]
  obtain idle s1 tier s2 s' where "pick_idle_cpu bench bench_ro 7 0 0 (bench_up\<lparr>tasks := tasks bench_up, kst := kst bench_up\<rparr>) = Inr (idle, s1)"
    "overflow_dsq bench bench_ro 0 (if True then s1 else bench_up\<lparr>tasks := tasks bench_up, kst := kst bench_up\<rparr>) = Inr (tier, s2)"
    "cognis_enqueue bench bench_ro 7 0 bench_up = Inr ((), s')"
    "inserts (requests s') = inserts (requests bench_up) @
      [(7, place_at bench bench_ro zero_ctx (tasks bench_up 7) 0 True False idle tier)]" by blast
  then show ?thesis using a(2) [of 7] a(3) a(5) [of _ 7] up(2) by auto
qed

end
