(* ===== verification/Bpf_Queues.thy ===== *)
theory Bpf_Queues
  imports Bpf_Program
begin

text \<open>
  The queues the BPF program names exist. The topology that user space exports has indices below the counts;
  the initialisation creates a queue for every CPU and every index; and no callback ever names another one,
  whatever the kernel answers. The same account of what a callback may ask for shows that the slices given on
  local queues respect the minimum and that the heartbeat timer stays off by default.
\<close>

section \<open>The indices of the exported topology\<close>

definition topo_ranges :: "topology_export \<Rightarrow> bool" where
  "topo_ranges e \<longleftrightarrow> 1 \<le> unat (nr_llcs e) \<and> unat (nr_llcs e) \<le> 64 \<and> 1 \<le> unat (nr_nodes e) \<and> unat (nr_nodes e) \<le> 64 \<and>
     (\<forall>i < 1024. unat (cpu_llc_idx_map e ! i) < unat (nr_llcs e) \<and> unat (cpu_node_idx_map e ! i) < unat (nr_nodes e))"

text \<open>What the loop over the CPUs keeps, with no assumption on how the CPUs are grouped.\<close>

definition ranged :: "topo_cpu list \<Rightarrow> remap \<times> remap \<times> topology_export \<Rightarrow> bool" where
  "ranged cs = (\<lambda>(nodes, llcs, e). dense (nodes_of cs) nodes \<and> dense (llcs_of cs) llcs \<and>
     length (cpu_llc_idx_map e) = 1024 \<and> length (cpu_node_idx_map e) = 1024 \<and>
     (\<forall>i < 1024. unat (cpu_llc_idx_map e ! i) < max (card (llcs_of cs)) 1 \<and>
        unat (cpu_node_idx_map e ! i) < max (card (nodes_of cs)) 1))"

lemma ranged_step:
  assumes ra: "ranged cs (nodes, llcs, e)" and run: "export_cpu c (nodes, llcs, e) = Inr st"
    and room: "card (llcs_of (cs @ [c])) \<le> 64" "card (nodes_of (cs @ [c])) \<le> 64"
  shows "ranged (cs @ [c]) st"
proof (cases "MAX_TOPO_CPUS \<le> cpu_id c")
  case True
  then show ?thesis using ra run by (auto simp: export_cpu_def ranged_def supported_snoc nodes_of_def llcs_of_def)
next
  case False
  then have id: "cpu_id c < 1024" by (simp add: MAX_TOPO_CPUS_def)
  obtain ni nodes' where n: "remap_idx (node_id c) nodes = (ni, nodes')" by (cases "remap_idx (node_id c) nodes")
  obtain li llcs' where l: "remap_idx (llc_id c) llcs = (li, llcs')" by (cases "remap_idx (llc_id c) llcs")
  have sets: "nodes_of (cs @ [c]) = insert (node_id c) (nodes_of cs)" "llcs_of (cs @ [c]) = insert (llc_id c) (llcs_of cs)"
    using id by (simp_all add: nodes_of_def llcs_of_def supported_snoc MAX_TOPO_CPUS_def)
  have dn: "dense (nodes_of cs) nodes" and dl: "dense (llcs_of cs) llcs" using ra by (simp_all add: ranged_def)
  have cn: "card (insert (node_id c) (nodes_of cs)) < 2 ^ 16" and cl: "card (insert (llc_id c) (llcs_of cs)) < 2 ^ 16"
    using room unfolding sets by simp_all
  note N = remap_dense [OF dn cn n] and L = remap_dense [OF dl cl l]
  have grow: "card (nodes_of cs) \<le> card (insert (node_id c) (nodes_of cs))" "card (llcs_of cs) \<le> card (insert (llc_id c) (llcs_of cs))"
    using dn dl by (auto simp: dense_def intro: card_mono)
  from run False n l obtain e' where st: "st = (nodes', llcs', e')"
    and maps: "cpu_llc_idx_map e' = (cpu_llc_idx_map e)[cpu_id c := li]" "cpu_node_idx_map e' = (cpu_node_idx_map e)[cpu_id c := ni]"
    by (auto simp: export_cpu_def set_at_def split: if_splits)
  have entry: "unat (cpu_llc_idx_map e' ! i) < max (card (insert (llc_id c) (llcs_of cs))) 1 \<and>
      unat (cpu_node_idx_map e' ! i) < max (card (insert (node_id c) (nodes_of cs))) 1" if "i < 1024" for i
  proof -
    have old: "unat (cpu_llc_idx_map e ! i) < max (card (llcs_of cs)) 1" "unat (cpu_node_idx_map e ! i) < max (card (nodes_of cs)) 1"
      and len: "length (cpu_llc_idx_map e) = 1024" "length (cpu_node_idx_map e) = 1024"
      using ra that by (simp_all add: ranged_def)
    show ?thesis
      using old grow N(4) L(4) that len by (cases "i = cpu_id c") (auto simp: maps less_max_iff_disj)
  qed
  then show ?thesis using ra N(1) L(1) by (simp add: ranged_def st sets maps)
qed

lemma ranged_cpus:
  assumes "export_cpus cs start = Inr st" and "ranged [] start"
    and "card (llcs_of cs) \<le> 64" and "card (nodes_of cs) \<le> 64"
  shows "ranged cs st"
  using assms(1,3,4)
proof (induction cs arbitrary: st rule: rev_induct)
  case Nil
  then show ?case using assms(2) by simp
next
  case (snoc c cs)
  have "card (llcs_of cs) \<le> card (llcs_of (cs @ [c]))" "card (nodes_of cs) \<le> card (nodes_of (cs @ [c]))"
    unfolding llcs_of_def nodes_of_def by (rule card_mono [OF _ image_mono [OF supported_mono]], simp)+
  then have room: "card (llcs_of cs) \<le> 64" "card (nodes_of cs) \<le> 64" using snoc.prems(2,3) by linarith+
  from snoc.prems(1) obtain st' where st': "export_cpus cs start = Inr st'" "export_cpu c st' = Inr st"
    by (cases "export_cpus cs start") (auto simp: export_cpus_snoc)
  obtain nodes llcs e where "st' = (nodes, llcs, e)" by (metis prod.exhaust)
  then show ?case using ranged_step [of cs nodes llcs e c st] snoc.IH [OF st'(1) room] st'(2) snoc.prems(2,3) by simp
qed

lemma default_ranges [simp]: "topo_ranges export_default" "topo_ranges (e\<lparr>smt_enabled := b\<rparr>) = topo_ranges e"
  by (simp_all add: topo_ranges_def export_default_def MAX_TOPO_CPUS_def)

lemma ranged_start: "ranged [] ((Map.empty, 0), (Map.empty, 0), export_default\<lparr>smt_enabled := b\<rparr>)"
  using dense_empty
  by (simp add: ranged_def supported_def nodes_of_def llcs_of_def export_default_def MAX_TOPO_CPUS_def)

lemma detect_ranges:
  assumes "detect probe = Inr e" and "probe_counts probe"
  shows "topo_ranges e"
proof (cases probe)
  case (Inl err)
  then show ?thesis using assms(1) by (auto simp: detect_def)
next
  case (Inr t)
  let ?start = "((Map.empty, 0), (Map.empty, 0), export_default\<lparr>smt_enabled := topo_smt t\<rparr>)"
  show ?thesis
  proof (cases "topo_nr_llcs t = 0 \<or> MAX_LLCS < topo_nr_llcs t \<or> MAX_NODES < topo_nr_nodes t")
    case True
    then show ?thesis using assms(1) by (auto simp: detect_def Inr Let_def)
  next
    case False
    then have cards: "card (llcs_of (all_cpus t)) \<le> 64" "card (nodes_of (all_cpus t)) \<le> 64"
      using assms(2) by (auto simp: probe_counts_def Inr MAX_LLCS_def MAX_NODES_def)
    from assms(1) False obtain nodes llcs e1 where run: "export_cpus (all_cpus t) ?start = Inr (nodes, llcs, e1)"
      and e: "e = e1\<lparr>nr_nodes := max (ucast (snd nodes)) 1, nr_llcs := max (ucast (snd llcs)) 1\<rparr>"
      by (cases "export_cpus (all_cpus t) ?start") (auto simp: detect_def Inr Let_def split: prod.splits)
    have ra: "ranged (all_cpus t) (nodes, llcs, e1)" by (rule ranged_cpus [OF run ranged_start cards])
    then have nr: "unat (nr_llcs e) = max (card (llcs_of (all_cpus t))) 1" "unat (nr_nodes e) = max (card (nodes_of (all_cpus t))) 1"
      using u32_of_count [of "snd llcs"] u32_of_count [of "snd nodes"] by (simp_all add: e ranged_def dense_def)
    have maps: "cpu_llc_idx_map e = cpu_llc_idx_map e1" "cpu_node_idx_map e = cpu_node_idx_map e1" by (simp_all add: e)
    show ?thesis unfolding topo_ranges_def nr maps using ra cards by (simp add: ranged_def)
  qed
qed

section \<open>The queues a callback can name\<close>

text \<open>The queues of the initialisation, and the local queues the kernel keeps itself.\<close>

definition homes :: "rodata \<Rightarrow> u64 \<Rightarrow> u64 set" where "homes R n = set (dsqs_to_create R n)"

definition kernel_local :: "'k kern \<Rightarrow> u64 \<Rightarrow> bool" where
  "kernel_local K d \<longleftrightarrow> (\<exists>cpu :: i32. d = or (SCX_DSQ_LOCAL_ON K) (scast cpu))"

lemma home_special: "SHARED_DSQ \<in> homes R n" "usersched_enabled R \<Longrightarrow> SCHED_DSQ \<in> homes R n"
  by (simp_all add: homes_def dsqs_to_create_def)

lemma home_cpu: "cpu_to_dsq n cpu \<in> homes R n"
proof (cases "is_cpu_valid n cpu")
  case True
  have "cpu = of_nat (unat cpu)" by simp
  then have "cpu_to_dsq n cpu \<in> (\<lambda>c. cpu_to_dsq n (of_nat c)) ` {0..<unat n}"
    using valid_cpu_bounds(3) [OF True] by (intro image_eqI [of _ _ "unat cpu"]) simp_all
  then show ?thesis by (simp add: homes_def dsqs_to_create_def)
next
  case False
  then show ?thesis by (simp add: cpu_to_dsq_def home_special)
qed

lemma home_llc:
  assumes "topo_ranges (ro_topology R)" and "i < nr_llcs (ro_topology R)" shows "llc_to_dsq i \<in> homes R n"
proof -
  have "i = of_nat (unat i)" by simp
  moreover have "unat i < min MAX_LLCS (unat (nr_llcs (ro_topology R)))"
    using assms by (simp add: topo_ranges_def MAX_LLCS_def word_less_nat_alt)
  ultimately have "llc_to_dsq i \<in> (\<lambda>i. llc_to_dsq (of_nat i)) ` {0..<min MAX_LLCS (unat (nr_llcs (ro_topology R)))}"
    by (intro image_eqI [of _ _ "unat i"]) simp_all
  then show ?thesis by (simp add: homes_def dsqs_to_create_def)
qed

lemma home_node:
  assumes "topo_ranges (ro_topology R)" and "i < nr_nodes (ro_topology R)" shows "node_to_dsq i \<in> homes R n"
proof -
  have "i = of_nat (unat i)" by simp
  moreover have "unat i < min MAX_NODES (unat (nr_nodes (ro_topology R)))"
    using assms by (simp add: topo_ranges_def MAX_NODES_def word_less_nat_alt)
  ultimately have "node_to_dsq i \<in> (\<lambda>i. node_to_dsq (of_nat i)) ` {0..<min MAX_NODES (unat (nr_nodes (ro_topology R)))}"
    by (intro image_eqI [of _ _ "unat i"]) simp_all
  then show ?thesis by (simp add: homes_def dsqs_to_create_def)
qed

lemma index_in_range:
  assumes "topo_ranges (ro_topology R)"
  shows "cpu_llc_idx_for R n cpu < nr_llcs (ro_topology R)" and "cpu_node_idx_for R n cpu < nr_nodes (ro_topology R)"
proof -
  have wide: "unat (ucast i :: u32) = unat i" for i :: u16 by transfer (simp add: take_bit_eq_mod mod_pos_pos_trivial)
  note assms [unfolded topo_ranges_def]
  then show "cpu_llc_idx_for R n cpu < nr_llcs (ro_topology R)" "cpu_node_idx_for R n cpu < nr_nodes (ro_topology R)"
    using valid_cpu_bounds(2) [of n cpu] by (auto simp: cpu_llc_idx_for_def cpu_node_idx_for_def word_less_nat_alt wide)
qed

lemma home_own: "topo_ranges (ro_topology R) \<Longrightarrow> own_dsqs R n cpu \<subseteq> homes R n"
  by (auto simp: own_dsqs_def cpu_llc_dsq_def cpu_node_dsq_def home_special home_cpu index_in_range
      intro!: home_llc home_node split: if_splits)

lemma home_overflow: "topo_ranges (ro_topology R) \<Longrightarrow> overflow_tiers R n cpu \<subseteq> homes R n"
  using home_own [of R n cpu] by (auto simp: overflow_tiers_def own_dsqs_def home_special split: if_splits)

lemma home_others:
  assumes "topo_ranges (ro_topology R)"
  shows "v \<in> set (other_indices (nr_llcs (ro_topology R)) (cpu_llc_idx_for R n cpu) (map of_nat [1..<MAX_LLCS])) \<Longrightarrow> llc_to_dsq v \<in> homes R n"
    and "v \<in> set (other_indices (nr_nodes (ro_topology R)) (cpu_node_idx_for R n cpu) (map of_nat [1..<MAX_NODES])) \<Longrightarrow> node_to_dsq v \<in> homes R n"
  using other_indices_all [OF _ index_in_range(1) [OF assms], of n cpu]
    other_indices_all [OF _ index_in_range(2) [OF assms], of n cpu] assms
  unfolding MAX_LLCS_def MAX_NODES_def by (auto simp del: upt.simps upt_conv_Cons simp: topo_ranges_def intro!: home_llc home_node)

section \<open>What a callback may ask for\<close>

text \<open>
  With a deadline a task is put on a queue of the initialisation; without, with at least the minimum slice, on
  a local queue of the kernel, or on the queue of the user-space scheduler. A task is taken from a queue of
  the initialisation. The timer and its exit are for user-space scheduling only.
\<close>

fun lawful :: "'k kern \<Rightarrow> rodata \<Rightarrow> u64 \<Rightarrow> request \<Rightarrow> bool" where
  "lawful K R n (Dsq_Insert p d x fl) = (usersched_enabled R \<and> d = SCHED_DSQ \<or> kernel_local K d \<and> ro_slice_min_ns R \<le> x)"
| "lawful K R n (Dsq_Insert_Vtime p d x v fl) = (d \<in> homes R n)"
| "lawful K R n (Move_To_Local d ok) = (d \<in> homes R n)"
| "lawful K R n (Timer_Start e) = usersched_enabled R"
| "lawful K R n (Scx_Exit d) = usersched_enabled R"
| "lawful K R n r = True"

definition orderly :: "'k kern \<Rightarrow> rodata \<Rightarrow> u64 \<Rightarrow> request list \<Rightarrow> 'k bpf \<Rightarrow> bool" where
  "orderly K R n made s \<longleftrightarrow> g_nr_cpu_ids s = n \<and> (\<forall>r \<in> set (requests s). lawful K R n r) \<and> set made \<subseteq> set (requests s)"

lemma orderly_own: "own_invariant (orderly K R n made)" by (simp add: own_invariant_def orderly_def)

lemma orderly_frame [simp]:
  "orderly K R n made (s\<lparr>tasks := m\<rparr>) = orderly K R n made s" "orderly K R n made (s\<lparr>kst := k\<rparr>) = orderly K R n made s"
  "orderly K R n made (s\<lparr>g_last_dispatch_at := t\<rparr>) = orderly K R n made s"
  "orderly K R n made (s\<lparr>g_usersched_last_run_at := t\<rparr>) = orderly K R n made s"
  "orderly K R n made (s\<lparr>g_usersched_needed := w\<rparr>) = orderly K R n made s"
  "orderly K R n made (s\<lparr>g_vtime_now := t\<rparr>) = orderly K R n made s"
  "orderly K R n made (s\<lparr>counters := c\<rparr>) = orderly K R n made s"
  "orderly K R n made (s\<lparr>task_ctx_stor := m'\<rparr>) = orderly K R n made s"
  by (simp_all add: orderly_def)

text \<open>The rules of the calculus for this invariant.\<close>

named_theorems law_rules "actions that only make lawful requests"

lemmas [law_rules] = sound_bind sound_return sound_if sound_option sound_prod

lemma law_query [law_rules]: "sound (orderly K R n made) (query f)"
  by (rule soundI) (intro vcg, simp)

lemma law_gets [law_rules]: "sound (orderly K R n made) (gets f)"
  by (rule sound_gets)

lemma law_memory [law_rules]:
  "sound (orderly K R n made) (task_at p)" "sound (orderly K R n made) (try_lookup_task_ctx p)"
  "sound (orderly K R n made) (put_task p g)" "sound (orderly K R n made) (put_ctx p h)" "sound (orderly K R n made) (bump c)"
  by (rule soundI, intro vcg, simp)+

lemma law_log [law_rules]: "(\<And>x. lawful K R n (r x)) \<Longrightarrow> sound (orderly K R n made) (ask_for f r)"
  by (rule soundI) (intro vcg, auto simp: orderly_def)

lemma law_modify [law_rules]: "(\<And>s. orderly K R n made (f s) = orderly K R n made s) \<Longrightarrow> sound (orderly K R n made) (modify f)"
  by (rule soundI) (intro vcg, simp)

text \<open>A question whose answer is known to satisfy \<open>P\<close>; the number of CPUs.\<close>

lemma law_asks:
  assumes "\<And>g. g_nr_cpu_ids g = n \<Longrightarrow> asks g m P" and "\<And>x. P x \<Longrightarrow> sound (orderly K R n made) (f x)"
  shows "sound (orderly K R n made) (bindS m f)"
proof (rule soundI, rule wp_bind_any)
  fix s assume s: "orderly K R n made s"
  show "wp m (\<lambda>x. wp (f x) (\<lambda>_. orderly K R n made)) s"
  proof (rule wp_asks)
    show "asks (globals s) m P" using s by (intro assms(1)) (simp add: orderly_def)
  next
    fix x ts k assume "P x"
    then show "wp (f x) (\<lambda>_. orderly K R n made) (s\<lparr>tasks := ts, kst := k\<rparr>)"
      using assms(2) s by (simp add: sound_def)
  qed
qed

lemma law_nr_cpus:
  "sound (orderly K R n made) (f n) \<Longrightarrow> sound (orderly K R n made) (bindS (gets g_nr_cpu_ids) f)"
  by (rule law_asks [where P = "\<lambda>x. x = n"]) (auto intro: asks_gets)

lemma law_slice:
  "(\<And>x. ro_slice_min_ns R \<le> x \<Longrightarrow> sound (orderly K R n made) (f x)) \<Longrightarrow>
    sound (orderly K R n made) (bindS (task_slice K R p cpu) f)"
  by (rule law_asks) (rule asks_task_slice)

lemma law_overflow:
  assumes "topo_ranges (ro_topology R)" and "\<And>d. d \<in> homes R n \<Longrightarrow> sound (orderly K R n made) (f d)"
  shows "sound (orderly K R n made) (bindS (overflow_dsq K R cpu) f)"
  by (rule law_asks [OF _ assms(2)], rule asks_mono [OF asks_overflow_dsq]) (use home_overflow [OF assms(1)] in auto)

lemmas law_ask_only = sound_asks [OF orderly_own]

lemma law_questions [law_rules]:
  "sound (orderly K R n made) (queue_pressure K R' cpu)" "sound (orderly K R n made) (task_slice K R' p cpu)"
  "sound (orderly K R n made) (pick_idle_cpu K R' p cpu fl)" "sound (orderly K R n made) (cpu_under_rt_pressure K cpu)"
  "sound (orderly K R n made) (task_should_migrate K R' p fl)" "sound (orderly K R n made) (is_queued_wakeup K p fl)"
  "sound (orderly K R n made) (nr_waiting K d)"
  by (rule law_ask_only, (rule asks_rules asks_mono [OF asks_task_slice]; simp))+

lemma law_task_dl [law_rules]: "sound (orderly K R n made) (task_dl K R' p cpu tctx)"
  unfolding task_dl_def Let_def by (intro law_rules)

lemma law_count [law_rules]: "sound (orderly K R n made) (count_kernel_route d)"
  unfolding count_kernel_route_def by (intro law_rules)

lemma law_local: "ro_slice_min_ns R \<le> x \<Longrightarrow> sound (orderly K R n made) (direct_local_dispatch K p cpu x fl)"
  unfolding direct_local_dispatch_def Let_def by (intro law_rules) (auto simp: kernel_local_def)

lemma law_kick [law_rules]: "sound (orderly K R n made) (kick_task_cpu K p cpu)" "sound (orderly K R n made) (kick_cpu K cpu)"
  unfolding kick_task_cpu_def kick_cpu_def by (intro law_rules; simp)+

section \<open>The callbacks\<close>

lemma law_select_cpu: "sound (orderly K R n made) (cognis_select_cpu K R p cpu fl)"
  unfolding cognis_select_cpu_def by (intro law_slice law_local law_rules)

lemma law_rs_select: "sound (orderly K R n made) (rs_select_cpu K R pid cpu)"
  unfolding rs_select_cpu_def by (intro law_rules) simp_all

lemma law_enqueue:
  assumes "topo_ranges (ro_topology R)" shows "sound (orderly K R n made) (cognis_enqueue K R p fl)"
proof -
  have route: "sound (orderly K R n made) (bindS (task_slice K R p cpu) (\<lambda>x. bindS (task_dl K R p cpu tctx) (\<lambda>dl.
      bindS (insert_vtime K p d x dl fl) (\<lambda>_. count_kernel_route d))))" if "d \<in> homes R n" for d cpu tctx
    unfolding insert_vtime_def using that by (intro law_rules) simp
  have deferred: "sound (orderly K R n made) (enqueue_deferred K R p cpu tctx share fl)" for cpu tctx share
    unfolding enqueue_deferred_def
  proof (cases share)
    case True
    have "bindS (return SHARED_DSQ) f = f SHARED_DSQ" for f :: "u64 \<Rightarrow> ('a bpf, unit) action"
      by (simp add: bindS_def return_def fun_eq_iff)
    then show "sound (orderly K R n made) (bindS (if share then return SHARED_DSQ else overflow_dsq K R cpu) (\<lambda>d.
        bindS (task_slice K R p cpu) (\<lambda>x. bindS (task_dl K R p cpu tctx) (\<lambda>dl.
        bindS (insert_vtime K p d x dl fl) (\<lambda>_. count_kernel_route d)))))"
      using True route [OF home_special(1)] by simp
  qed (simp add: law_overflow [OF assms] route)
  show ?thesis
    unfolding cognis_enqueue_def enqueue_place_def enqueue_idle_def enqueue_local_def
    by (intro law_slice law_local law_rules deferred) (auto simp: home_special)
qed

lemma law_accounting:
  "sound (orderly K R n made) (cognis_runnable K R p)" "sound (orderly K R n made) (cognis_running K R p)"
  "sound (orderly K R n made) (cognis_stopping K R p)" "sound (orderly K R n made) (cognis_enable R p)"
  "sound (orderly K R n made) (cognis_disable K R p)" "sound (orderly K R n made) (cognis_init_task K p)"
  unfolding cognis_runnable_def cognis_running_def cognis_stopping_def cognis_enable_def cognis_disable_def
    cognis_init_task_def Let_def
  by (intro law_rules; simp)+

lemma law_ops_dispatch_task [law_rules]: "sound (orderly K R n made) (ops_dispatch_task K d)"
  unfolding ops_dispatch_task_def Let_def
  by (intro law_rules law_nr_cpus) (simp_all add: home_cpu home_special)

lemma law_drain [law_rules]: "sound (orderly K R n made) (drain K left ret)"
proof (induction left arbitrary: ret)
  case (Suc left)
  then show ?case unfolding drain.simps handle_dispatched_task_def by (intro law_rules)
qed (simp add: law_rules)

text \<open>The steals: the best head was seen in one of the queues scanned.\<close>

lemma asks_weigh_all:
  "(fst b = None \<or> snd (snd b) \<in> D) \<Longrightarrow> set ds \<subseteq> D \<Longrightarrow>
    asks g (weigh_all K fits ds b) (\<lambda>b. fst b = None \<or> snd (snd b) \<in> D)"
proof (induction ds arbitrary: b)
  case (Cons d ds)
  show ?case
    unfolding weigh_all.simps
  proof (rule asks_bind)
    show "asks g (weigh K fits d b) (\<lambda>b. fst b = None \<or> snd (snd b) \<in> D)"
      unfolding weigh_def using Cons.prems by (intro asks_rules TrueI) auto
  next
    fix b' :: best_head assume "fst b' = None \<or> snd (snd b') \<in> D"
    then show "asks g (weigh_all K fits ds b') (\<lambda>b. fst b = None \<or> snd (snd b) \<in> D)"
      using Cons.IH Cons.prems(2) by simp
  qed
qed (simp add: asks_return)

lemma law_move: "d \<in> homes R n \<Longrightarrow> sound (orderly K R n made) (move_to_local K d)"
  unfolding move_to_local_def by (rule law_log) simp

lemma law_take_best: "fst b = None \<or> snd (snd b) \<in> homes R n \<Longrightarrow> sound (orderly K R n made) (take_best K b)"
  unfolding take_best_def by (auto simp: law_move law_rules split: prod.splits)

lemma law_scan:
  assumes "set ds \<subseteq> homes R n"
  shows "sound (orderly K R n made) (bindS (weigh_all K fits ds (None, 0, 0)) (take_best K))"
    and "sound (orderly K R n made) (bindS (weigh_all K fits ds (None, 0, 0)) (steal_counted K c))"
  unfolding steal_counted_def
  by (rule law_asks [OF asks_weigh_all [OF _ assms]], simp, intro law_rules law_take_best, assumption)+

lemma law_steals:
  assumes "topo_ranges (ro_topology R)" shows "sound (orderly K R n made) (steals K R cpu)"
proof -
  have "sound (orderly K R n made) (steal_remote_cpu K cpu near)" for near
    unfolding steal_remote_cpu_def scan_cpus_weigh by (intro law_nr_cpus sound_if sound_return law_scan) (auto simp: home_cpu)
  moreover have "sound (orderly K R n made) (steal_remote_llc K R cpu near)" for near
    unfolding steal_remote_llc_def scan_llcs_weigh
    by (intro law_nr_cpus sound_if sound_return law_scan subsetI) (auto dest: home_others(1) [OF assms, unfolded One_nat_def])
  moreover have "sound (orderly K R n made) (steal_remote_node K R cpu)"
    unfolding steal_remote_node_def scan_nodes_weigh
    by (intro law_nr_cpus sound_if sound_return law_scan subsetI) (auto dest: home_others(2) [OF assms, unfolded One_nat_def])
  ultimately show ?thesis unfolding steals_def by (intro sound_first_success) auto
qed

lemma law_move_if: "(b \<Longrightarrow> d \<in> homes R n) \<Longrightarrow> sound (orderly K R n made) (move_if K b d)"
  unfolding move_if_def by (intro law_rules law_move)

lemma law_own_queues:
  assumes "topo_ranges (ro_topology R)" shows "sound (orderly K R n made) (own_queues K R cpu)"
proof -
  let ?N = "1 < nr_nodes (ro_topology R)"
  have own: "{cpu_to_dsq n cpu, cpu_llc_dsq R n cpu, SHARED_DSQ} \<subseteq> homes R n" "?N \<Longrightarrow> cpu_node_dsq R n cpu \<in> homes R n"
    using home_own [OF assms, of n cpu] by (auto simp: own_dsqs_def)
  have moves: "sound (orderly K R n made)
      (case earliest_head m (local, cpu_to_dsq n cpu) (llc, cpu_llc_dsq R n cpu) (node, cpu_node_dsq R n cpu) (shared, SHARED_DSQ)
       of (best, best_dsq) \<Rightarrow> first_success
         [move_if K (best \<noteq> None) best_dsq, move_if K (local \<noteq> None \<and> best_dsq \<noteq> cpu_to_dsq n cpu) (cpu_to_dsq n cpu),
          move_if K (llc \<noteq> None \<and> best_dsq \<noteq> cpu_llc_dsq R n cpu) (cpu_llc_dsq R n cpu),
          move_if K (node \<noteq> None \<and> best_dsq \<noteq> cpu_node_dsq R n cpu) (cpu_node_dsq R n cpu),
          move_if K (shared \<noteq> None \<and> best_dsq \<noteq> SHARED_DSQ) SHARED_DSQ])"
    if node: "node \<noteq> None \<longrightarrow> ?N" for m local llc node shared
  proof (cases "earliest_head m (local, cpu_to_dsq n cpu) (llc, cpu_llc_dsq R n cpu) (node, cpu_node_dsq R n cpu) (shared, SHARED_DSQ)")
    case (Pair best best_dsq)
    have "best_dsq \<in> homes R n" if "best \<noteq> None"
      using earliest_head_best(2) [OF Pair [symmetric]] that own node by auto
    then have "sound (orderly K R n made) a" if "a \<in> set
         [move_if K (best \<noteq> None) best_dsq, move_if K (local \<noteq> None \<and> best_dsq \<noteq> cpu_to_dsq n cpu) (cpu_to_dsq n cpu),
          move_if K (llc \<noteq> None \<and> best_dsq \<noteq> cpu_llc_dsq R n cpu) (cpu_llc_dsq R n cpu),
          move_if K (node \<noteq> None \<and> best_dsq \<noteq> cpu_node_dsq R n cpu) (cpu_node_dsq R n cpu),
          move_if K (shared \<noteq> None \<and> best_dsq \<noteq> SHARED_DSQ) SHARED_DSQ]" for a
      using that own node by (auto intro!: law_move_if)
    then show ?thesis unfolding Pair prod.case by (rule sound_first_success)
  qed
  show ?thesis
    unfolding own_queues_def Let_def
    by (rule law_nr_cpus, (rule sound_bind, rule law_query)+, rule law_asks [where P = "\<lambda>node. node \<noteq> None \<longrightarrow> ?N"],
      (intro asks_rules; simp), (rule sound_bind, rule law_query law_gets)+, rule moves, simp)
qed

lemma law_pending [law_rules]: "sound (orderly K R n made) (usersched_has_pending_tasks K R')"
  unfolding usersched_has_pending_tasks_def test_and_clear_usersched_needed_def by (intro sound_or_else law_rules) simp

lemma law_sched: "sound (orderly K R n made) (and_then (usersched_has_pending_tasks K R) (move_to_local K SCHED_DSQ))"
proof (cases "usersched_enabled R")
  case True
  then show ?thesis by (intro sound_and_then law_rules law_move home_special)
next
  case False
  then have "and_then (usersched_has_pending_tasks K R) (move_to_local K SCHED_DSQ) = return False"
    by (simp add: and_then_def usersched_has_pending_tasks_def bindS_def return_def fun_eq_iff)
  then show ?thesis by (simp add: law_rules)
qed

lemma law_dispatch:
  assumes "topo_ranges (ro_topology R)" shows "sound (orderly K R n made) (cognis_dispatch K R cpu prev)"
  unfolding cognis_dispatch_def replenish_def
  by (intro law_rules sound_and_then sound_first_success; simp?)
    (auto intro: law_sched law_own_queues [OF assms] law_steals [OF assms])

lemma law_backlog [law_rules]: "sound (orderly K R n made) (dsq_backlog_exists K R')"
proof -
  have "sound (orderly K R n made) (any_backlog K ds)" for ds by (induction ds) (auto intro!: law_rules)
  then show ?thesis unfolding dsq_backlog_exists_def by (intro law_rules)
qed

lemma law_timer_start: "usersched_enabled R \<Longrightarrow> sound (orderly K R n made) (timer_start K)"
  unfolding timer_start_def scx_error_def by (intro law_rules) simp_all

lemma law_timer_fn: "usersched_enabled R \<Longrightarrow> sound (orderly K R n made) (usersched_timer_fn K R)"
  unfolding usersched_timer_fn_def wake_usersched_def set_usersched_needed_def
  by (intro law_rules law_timer_start) simp_all

section \<open>Every reachable state\<close>

definition kept :: "'k kern \<Rightarrow> rodata \<Rightarrow> 'k bpf \<Rightarrow> bool" where
  "kept K R s \<longleftrightarrow> orderly K R (g_nr_cpu_ids s) (map (\<lambda>d. Create_Dsq d 0) (dsqs_to_create R (g_nr_cpu_ids s))) s"

lemma kept_frame [simp]:
  "kept K R (s\<lparr>counters := c\<rparr>) = kept K R s" "kept K R (s\<lparr>task_ctx_stor := m'\<rparr>) = kept K R s"
  "kept K R (s\<lparr>tasks := m\<rparr>) = kept K R s" "kept K R (s\<lparr>kst := k\<rparr>) = kept K R s"
  by (simp_all add: kept_def)

lemma keptI: "orderly K R n (map (\<lambda>d. Create_Dsq d 0) (dsqs_to_create R n)) s \<Longrightarrow> kept K R s"
  by (auto simp: kept_def orderly_def)

lemma kept_step:
  assumes "\<And>n made. sound (orderly K R n made) m" and "m s = Inr (x, s')" and "kept K R s"
  shows "kept K R s'"
  using soundD [OF assms(1) assms(3) [unfolded kept_def] assms(2)] by (rule keptI)

lemma kept_timer: "kept K R s \<Longrightarrow> timer_armed s \<Longrightarrow> usersched_enabled R"
  by (auto simp: kept_def orderly_def timer_armed_def)

text \<open>The initialisation that succeeds has created every queue.\<close>

lemma wp_create_dsqs:
  "wp (create_dsqs K ds) (\<lambda>err s'. g_nr_cpu_ids s' = g_nr_cpu_ids s \<and>
     (err = 0 \<longrightarrow> requests s' = requests s @ map (\<lambda>d. Create_Dsq d 0) ds)) s"
proof (induction ds arbitrary: s)
  case (Cons d ds)
  show ?case
    unfolding create_dsqs.simps scx_error_def
    by (intro wp_bind_any wp_ask_for_any wp_if_any wp_return_any) (simp, rule wp_mono [OF Cons.IH], auto)
qed (simp add: wp_simps)

lemma asks_count_online: "asks g (count_online K cpus m) (\<lambda>_. True)"
  by (induction cpus arbitrary: m) (auto intro!: asks_rules)

lemma init_keeps:
  assumes "bpf_loaded s" and "cognis_init K R s = Inr (0, s')" shows "kept K R s'"
proof -
  have start: "sound (orderly K R n made) (usersched_timer_init K)" if "usersched_enabled R" for n made
    unfolding usersched_timer_init_def scx_error_def using that by (intro law_rules law_timer_start) simp_all
  have all: "wp (create_dsqs K (dsqs_to_create R (g_nr_cpu_ids s1))) (\<lambda>err s2.
      wp (if err \<noteq> 0 then return err else if usersched_enabled R then usersched_timer_init K else return 0)
        (\<lambda>err s3. err = 0 \<longrightarrow> kept K R s3) s2) s1" if none: "requests s1 = []" for s1
  proof (rule wp_mono [OF wp_create_dsqs])
    fix err :: i32 and s2 :: "'a bpf" assume c: "g_nr_cpu_ids s2 = g_nr_cpu_ids s1 \<and>
        (err = 0 \<longrightarrow> requests s2 = requests s1 @ map (\<lambda>d. Create_Dsq d 0) (dsqs_to_create R (g_nr_cpu_ids s1)))"
    show "wp (if err \<noteq> 0 then return err else if usersched_enabled R then usersched_timer_init K else return 0)
        (\<lambda>err s3. err = 0 \<longrightarrow> kept K R s3) s2"
    proof (cases "err = 0")
      case True
      let ?I = "orderly K R (g_nr_cpu_ids s1) (map (\<lambda>d. Create_Dsq d 0) (dsqs_to_create R (g_nr_cpu_ids s1)))"
      have now: "?I s2" using c none True by (auto simp: orderly_def)
      then have "wp (usersched_timer_init K) (\<lambda>_. ?I) s2" if "usersched_enabled R"
        using start [OF that] by (simp add: sound_def)
      then have "wp (usersched_timer_init K) (\<lambda>err s3. err = 0 \<longrightarrow> kept K R s3) s2" if "usersched_enabled R"
        by (rule wp_mono [OF _ impI]) (use that in \<open>auto intro: keptI\<close>)
      then show ?thesis using True keptI [OF now] by (simp add: wp_return)
    qed (simp add: wp_return)
  qed
  have "wp (cognis_init K R) (\<lambda>err s3. err = 0 \<longrightarrow> kept K R s3) s"
    unfolding cognis_init_def dsq_init_def get_nr_online_cpus_def
    by (intro wp_bind_any wp_query_any wp_modify_any wp_gets_any, rule wp_asks [OF asks_count_online],
      intro wp_bind_any wp_query_any wp_modify_any wp_gets_any, rule all)
      (use assms(1) in \<open>simp add: bpf_loaded_def\<close>)
  then show ?thesis using assms(2) by (simp add: wp_iff)
qed

lemma step_keeps:
  assumes "topo_ranges (ro_topology R)" and "bpf_step K R s s'" and "kept K R s"
  shows "kept K R s'"
  using assms(2)
proof (cases rule: bpf_step.cases)
  case (timer x)
  then show ?thesis using assms(3) kept_step [OF law_timer_fn] kept_timer by metis
qed (use assms(3) in \<open>auto intro: kept_step [OF law_select_cpu] kept_step [OF law_rs_select] kept_step [OF law_enqueue [OF assms(1)]]
    kept_step [OF law_dispatch [OF assms(1)]] kept_step [OF law_accounting(1)] kept_step [OF law_accounting(2)]
    kept_step [OF law_accounting(3)] kept_step [OF law_accounting(4)] kept_step [OF law_accounting(5)]
    kept_step [OF law_accounting(6)]\<close>)

lemma reachable_lawful:
  assumes "topo_ranges (ro_topology R)" and "bpf_reachable K R s" shows "kept K R s"
  using assms(2) by (induction rule: bpf_reachable.induct) (auto intro: init_keeps step_keeps [OF assms(1)])

section \<open>Properties\<close>

lemma insert_request: "(p, d) \<in> set (inserts rs) \<Longrightarrow>
    (\<exists>x fl. Dsq_Insert p d x fl \<in> set rs) \<or> (\<exists>x v fl. Dsq_Insert_Vtime p d x v fl \<in> set rs)"
proof (induction rs)
  case (Cons r rs)
  then show ?case by (cases r) (auto, blast+)
qed simp

lemma kept_inserts:
  assumes "kept K R s" and "(p, d) \<in> set (inserts (requests s))"
  shows "Create_Dsq d 0 \<in> set (requests s) \<or> kernel_local K d"
proof -
  have "d \<in> homes R (g_nr_cpu_ids s) \<or> kernel_local K d"
    using insert_request [OF assms(2)] assms(1) by (fastforce simp: kept_def orderly_def dest: home_special(2))
  then show ?thesis using assms(1) by (auto simp: kept_def orderly_def homes_def)
qed

text \<open>
  C3. No callback names a queue that does not exist: with the topology user space exports, in every reachable
  state and whatever the kernel answers, every task was put on a queue the initialisation created or on a
  local queue of the kernel, and every queue a task was asked from was created by the initialisation.
\<close>

theorem every_queue_exists:
  assumes "detect probe = Inr (ro_topology R)" and "probe_counts probe" and "bpf_reachable K R s"
  shows "(\<forall>(p, d) \<in> set (inserts (requests s)). Create_Dsq d 0 \<in> set (requests s) \<or> kernel_local K d) \<and>
    (\<forall>d ok. Move_To_Local d ok \<in> set (requests s) \<longrightarrow> Create_Dsq d 0 \<in> set (requests s))"
proof -
  have k: "kept K R s" by (rule reachable_lawful [OF detect_ranges [OF assms(1,2)] assms(3)])
  then have "Create_Dsq d 0 \<in> set (requests s)" if "Move_To_Local d ok \<in> set (requests s)" for d ok
    using that by (fastforce simp: kept_def orderly_def homes_def)
  then show ?thesis using kept_inserts [OF k] by blast
qed

lemma bench_enqueues: "\<exists>s d. bpf_reachable bench bench_ro s \<and> inserts (requests s) = [(7, d)] \<and> (7, d) \<in> set (inserts (requests s))"
proof -
  have "wp (cognis_init bench bench_ro) (\<lambda>err. wp (cognis_init_task bench 7) (\<lambda>_ s. err = 0 \<and>
      task_ctx_stor s 7 \<noteq> None \<and> inserts (requests s) = [] \<and> g_nr_cpu_ids s = 2 \<and>
      tasks s = (\<lambda>_. bench_task) \<and> kst s = (\<lambda>_. []))) bench_boot"
    by (simp add: cognis_init_def cognis_init_task_def dsq_init_def get_nr_online_cpus_def dsqs_to_create_def wp_simps wp_ask_for
        bench_defs export_default_def cpu_to_dsq_def is_cpu_valid_def dsq_defs llc_to_dsq_def node_to_dsq_def upt_rec)
  then obtain s1 x s2 where run: "cognis_init bench bench_ro bench_boot = Inr (0, s1)" "cognis_init_task bench 7 s1 = Inr (x, s2)"
    and s2: "task_ctx_stor s2 7 \<noteq> None" "inserts (requests s2) = []" "g_nr_cpu_ids s2 = 2"
      "tasks s2 = (\<lambda>_. bench_task)" "kst s2 = (\<lambda>_. [])"
    by (auto simp: wp_iff)
  have "bpf_loaded bench_boot" by (simp add: bpf_loaded_def bench_boot_def)
  then have r2: "bpf_reachable bench bench_ro s2"
    using run by (blast intro: booted stepped bpf_step.init_task)
  obtain tctx where "task_ctx_stor s2 7 = Some tctx" using s2(1) by blast
  then obtain s3 d where "cognis_enqueue bench bench_ro 7 0 s2 = Inr ((), s3)" "inserts (requests s3) = [(7, d)]"
    using enqueue_places [OF _ bench_answers(1-3), of s2 7 tctx] s2 bench_answers(4) by auto
  moreover from this r2 have "bpf_reachable bench bench_ro s3" by (blast intro: stepped bpf_step.enqueue)
  ultimately show ?thesis by force
qed

lemma bench_topology: "detect (Inl () :: unit + topology) = Inr (ro_topology bench_ro)" "probe_counts (Inl () :: unit + topology)"
  by (simp_all add: detect_def bench_ro_def probe_counts_def)

theorem every_queue_exists_witness:
  "\<exists>s d. bpf_reachable bench bench_ro s \<and> (7, d) \<in> set (inserts (requests s)) \<and>
     (Create_Dsq d 0 \<in> set (requests s) \<or> kernel_local bench d)"
  using bench_enqueues every_queue_exists [OF bench_topology] by blast

text \<open>
  C38. In the default configuration the progress guard is never armed: started without the user-space fallback,
  the program never starts its heartbeat timer, so the timer never looks for a stalled backlog and never asks
  to exit; and the slices given on local queues are never below the profile's minimum.
\<close>

theorem guard_is_off_by_default:
  assumes "detect probe = Inr topo" and "probe_counts probe" and "\<not> userspace_fallback cli"
    and "bpf_reachable K (rodata_for pf cli prof topo) s"
  shows "\<not> timer_armed s \<and> (\<forall>d. Scx_Exit d \<notin> set (requests s)) \<and>
    (\<forall>p d x fl. Dsq_Insert p d x fl \<in> set (requests s) \<longrightarrow> prof_slice_min_ns prof \<le> x)"
proof -
  have R: "ro_topology (rodata_for pf cli prof topo) = topo" "\<not> usersched_enabled (rodata_for pf cli prof topo)"
    "ro_slice_min_ns (rodata_for pf cli prof topo) = prof_slice_min_ns prof"
    using assms(3) by (simp_all add: rodata_for_def)
  have "topo_ranges (ro_topology (rodata_for pf cli prof topo))" unfolding R(1) by (rule detect_ranges [OF assms(1,2)])
  then have "kept K (rodata_for pf cli prof topo) s" using assms(4) by (rule reachable_lawful)
  then show ?thesis using R(2,3) by (fastforce simp: kept_def orderly_def timer_armed_def)
qed

definition bench_profile :: bpf_profile where
  "bench_profile = \<lparr>prof_mode = Desktop, prof_slice_ns = 1000000, prof_slice_min_ns = 250000, prof_slice_lag_ns = 40000000,
     no_wake_sync = False, sticky_tasks = False\<rparr>"

lemma bench_rodata: "bench_ro = rodata_for pf opts_default bench_profile export_default"
  by (simp add: bench_ro_def rodata_for_def opts_default_def bench_profile_def is_server_def)

theorem guard_is_off_by_default_witness:
  "\<forall>pf. \<exists>s. bpf_reachable bench (rodata_for pf opts_default bench_profile export_default) s \<and>
     inserts (requests s) \<noteq> [] \<and> \<not> timer_armed s"
proof
  fix pf
  obtain s where s: "bpf_reachable bench bench_ro s" "inserts (requests s) \<noteq> []" using bench_enqueues by force
  have "detect (Inl () :: unit + topology) = Inr export_default" "\<not> userspace_fallback opts_default"
    by (simp_all add: detect_def opts_default_def)
  then show "\<exists>s. bpf_reachable bench (rodata_for pf opts_default bench_profile export_default) s \<and>
      inserts (requests s) \<noteq> [] \<and> \<not> timer_armed s"
    using guard_is_off_by_default [OF _ bench_topology(2)] s unfolding bench_rodata [of pf] by blast
qed

text \<open>The identifiers of the initialisation, as numbers.\<close>

lemma unat_cpu_dsqs:
  assumes "n \<le> 1024" shows "map (\<lambda>c. unat (cpu_to_dsq n (of_nat c))) [0..<unat n] = [0..<unat n]"
proof (rule map_idI)
  fix c assume "c \<in> set [0..<unat n]"
  moreover have "unat n \<le> 1024" using assms by (simp add: word_le_nat_alt)
  ultimately have c: "c < unat n" "c < 1024" by auto
  then have u: "unat (of_nat c :: i32) = c" "unat (of_nat c :: u64) = c" by (simp_all add: unsigned_of_nat take_bit_nat_eq_self)
  have "sint (of_nat c :: i32) = int c" using c by (simp add: signed_of_nat signed_take_bit_int_eq_self)
  moreover from this have "(scast (of_nat c :: i32) :: u64) = of_nat c" by (simp add: scast_eq)
  ultimately have "is_cpu_valid n (of_nat c)"
    using c assms u by (auto simp: is_cpu_valid_def MAX_CPUS_def min_def word_le_nat_alt not_le)
  then show "unat (cpu_to_dsq n (of_nat c)) = c" using u by (simp add: unat_cpu_to_dsq)
qed

lemma unat_domain_dsqs:
  "map (\<lambda>i. unat (llc_to_dsq (of_nat i))) [0..<min MAX_LLCS k] = map (\<lambda>i. 1026 + i) [0..<min MAX_LLCS k]"
  "map (\<lambda>i. unat (node_to_dsq (of_nat i))) [0..<min MAX_NODES k] = map (\<lambda>i. 1090 + i) [0..<min MAX_NODES k]"
  by (auto simp: MAX_LLCS_def MAX_NODES_def unat_llc_to_dsq unat_node_to_dsq unsigned_of_nat take_bit_nat_eq_self)

text \<open>
  The initialisation asks for each queue once exactly when the machine has at most 1024 possible CPUs: above,
  the further CPUs fall back to the shared queue, which is then asked for again.
\<close>

theorem queues_are_created_once: "distinct (dsqs_to_create R n) \<longleftrightarrow> n \<le> 1024"
proof
  assume n: "n \<le> 1024"
  then have N: "unat n \<le> 1024" by (simp add: word_le_nat_alt)
  have "map unat (dsqs_to_create R n) = [0..<unat n] @ map (\<lambda>i. 1026 + i) [0..<min MAX_LLCS (unat (nr_llcs (ro_topology R)))] @
      map (\<lambda>i. 1090 + i) [0..<min MAX_NODES (unat (nr_nodes (ro_topology R)))] @ [1024] @ (if usersched_enabled R then [1025] else [])"
    by (simp add: dsqs_to_create_def comp_def unat_cpu_dsqs [OF n] unat_domain_dsqs unat_special_dsq)
  then have "distinct (map unat (dsqs_to_create R n))"
    using N by (auto simp: distinct_map inj_on_def MAX_LLCS_def MAX_NODES_def)
  then show "distinct (dsqs_to_create R n)" by (simp add: distinct_map)
next
  assume dis: "distinct (dsqs_to_create R n)"
  show "n \<le> 1024"
  proof (rule ccontr)
    assume "\<not> n \<le> 1024"
    then have "1024 < unat n" by (simp add: word_le_nat_alt not_le)
    moreover have "\<not> is_cpu_valid n (of_nat 1024)" by (simp add: is_cpu_valid_def MAX_CPUS_def min_le_iff_disj)
    ultimately have "SHARED_DSQ \<in> (\<lambda>c. cpu_to_dsq n (of_nat c)) ` {0..<unat n}"
      by (intro image_eqI [of _ _ 1024]) (simp_all add: cpu_to_dsq_def)
    then show False using dis by (simp add: dsqs_to_create_def)
  qed
qed

end
