(* ===== verification/Bpf_Accounting.thy ===== *)
theory Bpf_Accounting
  imports Bpf_Program
begin

text \<open>
  What the accounting callbacks compute for one run of a task: the stamps when it gets a CPU, the charge when
  it leaves it, and the start of its virtual time.
\<close>

section \<open>One run\<close>

text \<open>\<open>clocks K s now ktime\<close>: in \<open>s\<close> the two clocks of the kernel read \<open>now\<close> and \<open>ktime\<close>, and reading changes nothing.\<close>

definition clocks :: "'k kern \<Rightarrow> 'k bpf \<Rightarrow> u64 \<Rightarrow> u64 \<Rightarrow> bool" where
  "clocks K s now ktime \<longleftrightarrow> k_now K (tasks s, kst s) = (now, (tasks s, kst s)) \<and>
     k_ktime_get_ns K (tasks s, kst s) = (ktime, (tasks s, kst s))"

definition started :: "u64 \<Rightarrow> u64 \<Rightarrow> task_ctx \<Rightarrow> task_ctx" where
  "started now ktime c = c\<lparr>tc_start_ts := now, tc_last_run_at := ktime\<rparr>"

definition charged :: "u64 \<Rightarrow> (u64 \<Rightarrow> u64) \<Rightarrow> task_ctx \<Rightarrow> task_ctx" where
  "charged now scale c = c\<lparr>tc_stop_ts := now, tc_exec_runtime := tc_exec_runtime c + (now - tc_start_ts c),
     tc_avg_runtime := calc_avg (tc_avg_runtime c) (now - tc_last_run_at c),
     tc_awake_vtime := tc_awake_vtime c + scale (now - tc_last_run_at c)\<rparr>"

lemma running_eq:
  assumes "clocks K s now ktime" and "task_ctx_stor s p = Some c" and "\<not> is_usersched_task R (tasks s p)"
  shows "cognis_running K R p s = Inr ((), s\<lparr>counters := (counters s)(Nr_running := counters s Nr_running + 1),
    task_ctx_stor := (task_ctx_stor s)(p \<mapsto> started now ktime c),
    g_vtime_now := (if k_time_before K (g_vtime_now s) (ts_dsq_vtime (tasks s p)) then ts_dsq_vtime (tasks s p) else g_vtime_now s)\<rparr>)"
proof -
  have "wp (cognis_running K R p) (\<lambda>x s'. s' = s\<lparr>counters := (counters s)(Nr_running := counters s Nr_running + 1),
      task_ctx_stor := (task_ctx_stor s)(p \<mapsto> started now ktime c),
      g_vtime_now := (if k_time_before K (g_vtime_now s) (ts_dsq_vtime (tasks s p)) then ts_dsq_vtime (tasks s p) else g_vtime_now s)\<rparr>) s"
    using assms by (simp add: cognis_running_def wp_simps memory_defs clocks_def started_def)
  then show ?thesis by (auto simp: wp_iff)
qed

lemma stopping_eq:
  assumes "clocks K s now ktime" and "task_ctx_stor s p = Some c" and "\<not> is_usersched_task R (tasks s p)"
  shows "cognis_stopping K R p s = Inr ((), s\<lparr>counters := (counters s)(Nr_running := counters s Nr_running - 1),
    tasks := (tasks s)(p := (tasks s p)\<lparr>ts_dsq_vtime := ts_dsq_vtime (tasks s p) +
      k_scale_by_weight_inverse K (tasks s p) (now - tc_last_run_at c)\<rparr>),
    task_ctx_stor := (task_ctx_stor s)(p \<mapsto> charged now (k_scale_by_weight_inverse K (tasks s p)) c)\<rparr>)"
proof -
  have "wp (cognis_stopping K R p) (\<lambda>x s'. s' = s\<lparr>counters := (counters s)(Nr_running := counters s Nr_running - 1),
    tasks := (tasks s)(p := (tasks s p)\<lparr>ts_dsq_vtime := ts_dsq_vtime (tasks s p) +
      k_scale_by_weight_inverse K (tasks s p) (now - tc_last_run_at c)\<rparr>),
    task_ctx_stor := (task_ctx_stor s)(p \<mapsto> charged now (k_scale_by_weight_inverse K (tasks s p)) c)\<rparr>) s"
    using assms by (simp add: cognis_stopping_def wp_simps memory_defs clocks_def charged_def Let_def)
  then show ?thesis by (auto simp: wp_iff)
qed

text \<open>
  C39. A run is charged with the difference of two clocks: between a task's start and its stop, whatever happened
  in between to other tasks, the execution time grows by the time on the scheduler's clock, but the virtual
  time, the run-time average and the awake time are charged with the scheduler's clock at the stop less the
  monotonic clock at the start. The number of running tasks is as before.
\<close>

theorem run_is_charged_across_clocks:
  assumes "clocks K s now ktime" and "task_ctx_stor s p = Some c" and "\<not> is_usersched_task R (tasks s p)"
    and "cognis_running K R p s = Inr ((), s1)"
    and "clocks K s2 now2 ktime2" and "task_ctx_stor s2 p = task_ctx_stor s1 p" and "tasks s2 p = tasks s1 p"
    and "counters s2 Nr_running = counters s1 Nr_running"
  shows "\<exists>s3 c3. cognis_stopping K R p s2 = Inr ((), s3) \<and> task_ctx_stor s3 p = Some c3 \<and>
    counters s3 Nr_running = counters s Nr_running \<and>
    tc_exec_runtime c3 = tc_exec_runtime c + (now2 - now) \<and>
    tc_avg_runtime c3 = calc_avg (tc_avg_runtime c) (now2 - ktime) \<and>
    ts_dsq_vtime (tasks s3 p) = ts_dsq_vtime (tasks s p) + k_scale_by_weight_inverse K (tasks s p) (now2 - ktime) \<and>
    tc_awake_vtime c3 = tc_awake_vtime c + k_scale_by_weight_inverse K (tasks s p) (now2 - ktime)"
proof -
  have s1: "task_ctx_stor s1 p = Some (started now ktime c)" "tasks s1 p = tasks s p"
    "counters s1 Nr_running = counters s Nr_running + 1"
    using assms(4) unfolding running_eq [OF assms(1-3)] by auto
  have "task_ctx_stor s2 p = Some (started now ktime c)" "\<not> is_usersched_task R (tasks s2 p)"
    using assms(3,6,7) s1 by simp_all
  from stopping_eq [OF assms(5) this] show ?thesis
    using assms(6-8) s1 by (simp add: started_def charged_def)
qed

theorem run_is_charged_across_clocks_witness:
  "\<exists>s3 c3. cognis_stopping bench bench_ro 7 (bench_up\<lparr>task_ctx_stor := [7 \<mapsto> started 5000 5000 zero_ctx],
      counters := (counters bench_up)(Nr_running := 1)\<rparr>) = Inr ((), s3) \<and>
    task_ctx_stor s3 7 = Some c3 \<and> tc_exec_runtime c3 = 0 \<and> counters s3 Nr_running = 0"
proof -
  let ?s2 = "bench_up\<lparr>task_ctx_stor := [7 \<mapsto> started 5000 5000 zero_ctx], counters := (counters bench_up)(Nr_running := 1)\<rparr>"
  have here: "clocks bench bench_up 5000 5000" "task_ctx_stor bench_up 7 = Some zero_ctx"
    "\<not> is_usersched_task bench_ro (tasks bench_up 7)" "clocks bench ?s2 5000 5000"
    by (simp_all add: clocks_def bench_defs is_usersched_task_def)
  obtain s1 where s1: "cognis_running bench bench_ro 7 bench_up = Inr ((), s1)"
    "task_ctx_stor ?s2 7 = task_ctx_stor s1 7" "tasks ?s2 7 = tasks s1 7" "counters ?s2 Nr_running = counters s1 Nr_running"
    by (rule that [OF running_eq [OF here(1-3)]]) (simp_all add: bench_up_def bench_boot_def)
  have "tc_exec_runtime zero_ctx = 0" "counters bench_up Nr_running = 0" by (simp_all add: zero_ctx_def bench_up_def)
  then show ?thesis
    using run_is_charged_across_clocks [OF here(1-3) s1(1) here(4) s1(2-4)] by fastforce
qed

text \<open>
  The virtual clock only moves forward, to the virtual time of the task that runs, and a task that joins
  starts at it with the nominal slice.
\<close>

theorem virtual_clock_follows_tasks:
  assumes "clocks_ok K" and "clocks K s now ktime" and "task_ctx_stor s p = Some c" and "\<not> is_usersched_task R (tasks s p)"
  shows "\<exists>s'. cognis_running K R p s = Inr ((), s') \<and> 0 \<le> sint (g_vtime_now s' - ts_dsq_vtime (tasks s p)) \<and>
    (g_vtime_now s' = g_vtime_now s \<or> g_vtime_now s' = ts_dsq_vtime (tasks s p) \<and> sint (g_vtime_now s - g_vtime_now s') < 0) \<and>
    (\<exists>s''. cognis_enable R q s' = Inr ((), s'') \<and> ts_dsq_vtime (tasks s'' q) = g_vtime_now s' \<and>
       ts_slice (tasks s'' q) = max (ro_slice_ns R) (ro_slice_min_ns R))"
proof -
  have tb: "k_time_before K a b \<longleftrightarrow> sint (a - b) < 0" for a b using assms(1) by (simp add: clocks_ok_def)
  have enable: "cognis_enable R q s' = Inr ((), s'\<lparr>tasks := (tasks s')(q := (tasks s' q)\<lparr>ts_dsq_vtime := g_vtime_now s',
      ts_slice := max (ro_slice_ns R) (ro_slice_min_ns R)\<rparr>)\<rparr>)" for s' :: "'a bpf"
    by (simp add: cognis_enable_def put_task_def bindS_def gets_def modify_def)
  show ?thesis unfolding running_eq [OF assms(2-4)] enable by (auto simp: tb)
qed

theorem virtual_clock_follows_tasks_witness:
  "\<exists>s'. cognis_running bench bench_ro 7 (bench_up\<lparr>tasks := (\<lambda>_. bench_task\<lparr>ts_dsq_vtime := 90\<rparr>)\<rparr>) = Inr ((), s') \<and>
    0 \<le> sint (g_vtime_now s' - 90)"
proof -
  let ?s = "bench_up\<lparr>tasks := (\<lambda>_. bench_task\<lparr>ts_dsq_vtime := 90\<rparr>)\<rparr>"
  have "clocks_ok bench" "clocks bench ?s 5000 5000" "task_ctx_stor ?s 7 = Some zero_ctx"
    "\<not> is_usersched_task bench_ro (tasks ?s 7)" "ts_dsq_vtime (tasks ?s 7) = 90"
    by (simp_all add: clocks_ok_def clocks_def bench_defs is_usersched_task_def)
  then show ?thesis using virtual_clock_follows_tasks [of bench ?s 5000 5000 7 zero_ctx bench_ro] by metis
qed

end
