(* ===== verification/Fallback_Path.thy ===== *)
theory Fallback_Path
  imports Main_Run Bpf_Program
begin

text \<open>
  The two halves together: the messages a scheduling cycle of the Rust program leaves in the user ring buffer
  (\<open>main.rs\<close>, \<open>schedule\<close>; \<open>bpf.rs\<close>, \<open>dispatch_task\<close>) and what the BPF program does with them
  (\<open>main.bpf.c\<close>, \<open>ops_dispatch_task\<close> called by \<open>bpf_user_ringbuf_drain\<close>). What is placed is what the kernel
  had handed out, at most once, with the slice and the deadline the Rust program chose.
\<close>

section \<open>What one message comes to\<close>

text \<open>A message for a fixed CPU is outdated when its task is not tracked or has been enqueued again since.\<close>

definition outdated :: "dispatched_task \<Rightarrow> (ptr \<rightharpoonup> task_ctx) \<Rightarrow> ptr \<Rightarrow> bool" where
  "outdated d stor p \<longleftrightarrow> dt_cpu d \<noteq> RL_CPU_ANY \<and> (case stor p of None \<Rightarrow> True | Some c \<Rightarrow> dt_enq_cnt d < tc_enq_cnt c)"

text \<open>
  The requests for one message: the task is looked up; if it is there it is placed once and put back, and the
  placement is cancelled exactly when it is outdated.
\<close>

definition settled :: "dispatched_task \<Rightarrow> (ptr \<rightharpoonup> task_ctx) \<Rightarrow> request list \<Rightarrow> bool" where
  "settled d stor rs \<longleftrightarrow> rs = [Task_Get (dt_pid d) None] \<or>
     (\<exists>p dsq mid. rs = Task_Get (dt_pid d) (Some p) #
        Dsq_Insert_Vtime p dsq (dt_slice_ns d) (dt_vtime d) (dt_flags d) # mid @ [Task_Put p] \<and>
        (dt_cpu d = RL_CPU_ANY \<longrightarrow> dsq = SHARED_DSQ) \<and>
        (if outdated d stor p then mid = [Dispatch_Cancel] else mid \<noteq> [] \<and> (\<forall>r \<in> set mid. \<exists>c. r = Kick_Cpu c)))"

lemma settled_absent: "settled d stor [Task_Get (dt_pid d) None]"
  by (simp add: settled_def)

text \<open>Both branches end with kicks of CPUs and the release of the task.\<close>

definition kicked :: "request list \<Rightarrow> bool" where "kicked mid \<longleftrightarrow> mid \<noteq> [] \<and> (\<forall>r \<in> set mid. \<exists>c. r = Kick_Cpu c)"

lemma wp_kicks:
  assumes Q: "\<And>x mid s'. kicked mid \<Longrightarrow> requests s' = requests s @ mid \<Longrightarrow> task_ctx_stor s' = task_ctx_stor s \<Longrightarrow> Q x s'"
  shows "wp (kick_cpu K cpu) Q s" and "wp (kick_task_cpu K p cpu) Q s"
proof -
  have one: "kicked [Kick_Cpu c]" and two: "kicked [Kick_Cpu c, Kick_Cpu c']" for c c' by (simp_all add: kicked_def)
  show "wp (kick_cpu K cpu) Q s" unfolding kick_cpu_def by (intro vcg Q [OF one]) simp_all
  show "wp (kick_task_cpu K p cpu) Q s" unfolding kick_task_cpu_def kick_cpu_def
    by (intro vcg; (rule Q [OF one]; simp; fail | rule Q [OF two]; simp))
qed

lemma settled_kicked:
  assumes "kicked mid" and "\<not> outdated d stor p" and "dt_cpu d = RL_CPU_ANY \<Longrightarrow> dsq = SHARED_DSQ"
  shows "settled d stor (Task_Get (dt_pid d) (Some p) #
    Dsq_Insert_Vtime p dsq (dt_slice_ns d) (dt_vtime d) (dt_flags d) # mid @ [Task_Put p])"
  unfolding settled_def by (intro disjI2 exI conjI) (use assms in \<open>auto simp: kicked_def\<close>)

lemma settled_cancelled:
  assumes "outdated d stor p"
  shows "settled d stor [Task_Get (dt_pid d) (Some p),
    Dsq_Insert_Vtime p dsq (dt_slice_ns d) (dt_vtime d) (dt_flags d), Dispatch_Cancel, Task_Put p]"
  unfolding settled_def
  by (intro disjI2 exI [of _ p] exI [of _ dsq] exI [of _ "[Dispatch_Cancel]"]) (use assms in \<open>simp add: outdated_def\<close>)

lemma wp_ops_dispatch_task:
  "wp (ops_dispatch_task K d) (\<lambda>_ s'. \<exists>rs. requests s' = requests s @ rs \<and> settled d (task_ctx_stor s) rs \<and>
     task_ctx_stor s' = task_ctx_stor s) s"
  unfolding ops_dispatch_task_def Let_def
  by (intro vcg wp_kicks)
    (auto intro!: settled_absent settled_kicked settled_cancelled simp: outdated_def split: option.splits)

section \<open>The drain\<close>

text \<open>
  The user ring buffer as the kernel presents it: samples come in order, and while there are any the first call
  of the handler takes place; one too short for the message has no data; none of the other calls touches it.
\<close>

definition user_ring :: "'k kern \<Rightarrow> ('k mach \<Rightarrow> u8 list list) \<Rightarrow> bool" where
  "user_ring K ring \<longleftrightarrow>
     (\<forall>ret w x w'. k_next_user_sample K ret w = (x, w') \<longrightarrow>
        (case x of None \<Rightarrow> ring w' = ring w
         | Some data \<Rightarrow> \<exists>m. ring w = m # ring w' \<and> data = (if length m < DISPATCHED_TASK_CTX_SIZE then None else Some m))) \<and>
     (\<forall>w. ring w \<noteq> [] \<longrightarrow> fst (k_next_user_sample K 0 w) \<noteq> None) \<and>
     (\<forall>pid w. ring (snd (k_task_from_pid K pid w)) = ring w) \<and> (\<forall>p w. ring (snd (k_task_cpu K p w)) = ring w) \<and>
     (\<forall>p d x v fl w. ring (snd (k_dsq_insert_vtime K p d x v fl w)) = ring w) \<and>
     (\<forall>c w. ring (snd (k_kick_cpu K c w)) = ring w) \<and> (\<forall>p w. ring (snd (k_pick_idle K p w)) = ring w) \<and>
     (\<forall>w. ring (snd (k_dispatch_cancel K w)) = ring w) \<and> (\<forall>p w. ring (snd (k_task_release K p w)) = ring w) \<and>
     (\<forall>w. ring (snd (k_dispatch_nr_slots K w)) = ring w)"

abbreviation unread :: "('k mach \<Rightarrow> u8 list list) \<Rightarrow> 'k bpf \<Rightarrow> u8 list list" where
  "unread ring s \<equiv> ring (tasks s, kst s)"

text \<open>A call that leaves the ring alone.\<close>

lemma sound_ring_calls:
  assumes "\<And>w. ring (snd (f w)) = ring w"
  shows "sound (\<lambda>s. unread ring s = q) (query f)" and "sound (\<lambda>s. unread ring s = q) (ask_for f r)"
  by (rule soundI; use assms in \<open>simp add: wp_simps wp_ask_for split: prod.splits\<close>; metis snd_conv)+

lemma sound_ring_memory:
  "sound (\<lambda>s. unread ring s = q) (task_at p)" "sound (\<lambda>s. unread ring s = q) (try_lookup_task_ctx p)"
  "sound (\<lambda>s. unread ring s = q) (bump c)"
  by (simp_all add: sound_def memory_defs wp_simps)

lemma ring_kept:
  assumes "user_ring K ring"
  shows "ring (snd (k_task_from_pid K pid w)) = ring w" "ring (snd (k_task_cpu K p w)) = ring w"
    "ring (snd (k_dsq_insert_vtime K p d x v fl w)) = ring w" "ring (snd (k_kick_cpu K c w)) = ring w"
    "ring (snd (k_pick_idle K p w)) = ring w" "ring (snd (k_dispatch_cancel K w)) = ring w"
    "ring (snd (k_task_release K p w)) = ring w" "ring (snd (k_dispatch_nr_slots K w)) = ring w"
  using assms unfolding user_ring_def by blast+

lemma ring_ops_dispatch_task:
  assumes "user_ring K ring" shows "sound (\<lambda>s. unread ring s = q) (ops_dispatch_task K d)"
  unfolding ops_dispatch_task_def Let_def kick_task_cpu_def kick_cpu_def
  by (intro sound_rules sound_ring_calls sound_ring_memory ring_kept [OF assms])

text \<open>The messages that are long enough, and what a drain does: a first part of the ring is settled, one by one.\<close>

definition whole :: "u8 list list \<Rightarrow> u8 list list" where
  "whole ms = filter (\<lambda>m. DISPATCHED_TASK_CTX_SIZE \<le> length m) ms"

definition drains :: "('k mach \<Rightarrow> u8 list list) \<Rightarrow> 'k bpf \<Rightarrow> 'k bpf \<Rightarrow> bool" where
  "drains ring s s' \<longleftrightarrow> task_ctx_stor s' = task_ctx_stor s \<and>
     (\<exists>first rss. unread ring s = first @ unread ring s' \<and> requests s' = requests s @ concat rss \<and>
        list_all2 (\<lambda>d rs. settled d (task_ctx_stor s) rs) (submitted (whole first)) rss)"

lemma drains_refl: "task_ctx_stor s' = task_ctx_stor s \<Longrightarrow> requests s' = requests s \<Longrightarrow> unread ring s' = unread ring s \<Longrightarrow> drains ring s s'"
  unfolding drains_def by (intro conjI exI [of _ "[]"]) (simp_all add: whole_def submitted_def)

lemma drains_trans:
  assumes "drains ring s s1" and "drains ring s1 s'" shows "drains ring s s'"
proof -
  obtain f1 r1 f2 r2 where
    "unread ring s = f1 @ unread ring s1" "requests s1 = requests s @ concat r1" "unread ring s1 = f2 @ unread ring s'"
    "requests s' = requests s1 @ concat r2" "list_all2 (\<lambda>d rs. settled d (task_ctx_stor s) rs) (submitted (whole f1)) r1"
    "list_all2 (\<lambda>d rs. settled d (task_ctx_stor s) rs) (submitted (whole f2)) r2" "task_ctx_stor s' = task_ctx_stor s"
    using assms unfolding drains_def by auto
  then show ?thesis
    unfolding drains_def by (intro conjI exI [of _ "f1 @ f2"] exI [of _ "r1 @ r2"])
      (auto simp: whole_def submitted_def intro: list_all2_appendI)
qed

lemma wp_handle:
  assumes "user_ring K ring" and "unread ring s = m # unread ring s1" and "requests s1 = requests s"
    and "task_ctx_stor s1 = task_ctx_stor s" and "data = (if length m < DISPATCHED_TASK_CTX_SIZE then None else Some m)"
  shows "wp (handle_dispatched_task K data) (\<lambda>_ s'. drains ring s s') s1"
proof (cases "length m < DISPATCHED_TASK_CTX_SIZE")
  case True
  then have "drains ring s s1"
    unfolding drains_def using assms(2-4) by (intro conjI exI [of _ "[m]"] exI [of _ "[]"]) (simp_all add: whole_def submitted_def)
  then show ?thesis using True assms(5) by (simp add: handle_dispatched_task_def wp_simps)
next
  case False
  let ?d = "read_dispatched_ctx m"
  have "wp (ops_dispatch_task K ?d) (\<lambda>_ s'. (\<exists>rs. requests s' = requests s1 @ rs \<and> settled ?d (task_ctx_stor s1) rs \<and>
      task_ctx_stor s' = task_ctx_stor s1) \<and> unread ring s' = unread ring s1) s1"
    using wp_ops_dispatch_task ring_ops_dispatch_task [OF assms(1)] by (intro wp_conj) (auto simp: sound_def)
  then have "wp (ops_dispatch_task K ?d) (\<lambda>_ s'. drains ring s s') s1"
  proof (rule wp_mono, elim conjE exE)
    fix s' rs assume "requests s' = requests s1 @ rs" "settled ?d (task_ctx_stor s1) rs"
      "task_ctx_stor s' = task_ctx_stor s1" "unread ring s' = unread ring s1"
    then show "drains ring s s'"
      unfolding drains_def using assms(2-4) False
      by (intro conjI exI [of _ "[m]"] exI [of _ "[rs]"]) (simp_all add: whole_def submitted_def)
  qed
  moreover have "wp (bindS (query (k_dispatch_nr_slots K)) (\<lambda>x. return (f x))) (\<lambda>_ s'. drains ring s s') s'"
    if "drains ring s s'" for s' f
    using that ring_kept(8) [OF assms(1), of "(tasks s', kst s')"]
    by (auto simp: wp_simps drains_def split: prod.splits)
  ultimately show ?thesis using False assms(5)
    unfolding handle_dispatched_task_def by (simp add: wp_bindS [of "ops_dispatch_task K d" for d]) (erule wp_mono, simp)
qed

lemma wp_drain:
  assumes "user_ring K ring"
  shows "wp (drain K left ret) (\<lambda>_ s'. drains ring s s') s"
proof (induction left arbitrary: ret s)
  case 0
  show ?case by (simp add: wp_simps drains_refl)
next
  case (Suc left)
  obtain x m k where ask: "k_next_user_sample K ret (tasks s, kst s) = (x, (m, k))" by (metis prod.collapse)
  then have sample: "case x of None \<Rightarrow> ring (m, k) = unread ring s
      | Some data \<Rightarrow> \<exists>msg. unread ring s = msg # ring (m, k) \<and> data = (if length msg < DISPATCHED_TASK_CTX_SIZE then None else Some msg)"
    using conjunct1 [OF assms [unfolded user_ring_def], rule_format, OF ask] by simp
  show ?case
  proof (cases x)
    case None
    then show ?thesis using sample by (simp add: wp_simps ask drains_refl)
  next
    case (Some data)
    then obtain msg where msg: "unread ring s = msg # ring (m, k)" "data = (if length msg < DISPATCHED_TASK_CTX_SIZE then None else Some msg)"
      using sample by auto
    have "wp (handle_dispatched_task K data) (\<lambda>r s1. wp (drain K left r) (\<lambda>_ s'. drains ring s s') s1) (s\<lparr>tasks := m, kst := k\<rparr>)"
      by (rule wp_mono [OF wp_handle [OF assms _ _ _ msg(2)]])
        (use msg(1) in \<open>simp_all, blast intro: wp_mono [OF Suc.IH] drains_trans\<close>)
    then show ?thesis using Some by (simp add: wp_simps ask)
  qed
qed

text \<open>A drain of a ring that is not empty takes at least one message.\<close>

lemma wp_drain_progress:
  assumes ring: "user_ring K ring" and some: "unread ring s \<noteq> []" and left: "0 < left"
  shows "wp (drain K left 0) (\<lambda>_ s'. length (unread ring s') < length (unread ring s)) s"
proof -
  obtain n where n: "left = Suc n" using left by (cases left) simp_all
  obtain x m k where ask: "k_next_user_sample K 0 (tasks s, kst s) = (x, (m, k))" by (metis prod.collapse)
  moreover have "x \<noteq> None"
    using conjunct1 [OF conjunct2 [OF ring [unfolded user_ring_def]]] some ask by (metis fst_conv)
  moreover have "case x of None \<Rightarrow> ring (m, k) = unread ring s | Some data \<Rightarrow> \<exists>msg. unread ring s = msg # ring (m, k) \<and>
      data = (if length msg < DISPATCHED_TASK_CTX_SIZE then None else Some msg)"
    using conjunct1 [OF ring [unfolded user_ring_def], rule_format, OF ask] by simp
  ultimately obtain data msg where x: "x = Some data" and msg: "unread ring s = msg # ring (m, k)" by auto
  have "sound (\<lambda>s. unread ring s = ring (m, k)) (handle_dispatched_task K data)"
    unfolding handle_dispatched_task_def
    by (intro sound_rules ring_ops_dispatch_task [OF ring] sound_ring_calls ring_kept [OF ring])
  then have "wp (handle_dispatched_task K data) (\<lambda>_ s1. unread ring s1 = ring (m, k)) (s\<lparr>tasks := m, kst := k\<rparr>)"
    by (simp add: sound_def)
  then have "wp (handle_dispatched_task K data)
      (\<lambda>r s1. wp (drain K n r) (\<lambda>_ s'. length (unread ring s') < length (unread ring s)) s1) (s\<lparr>tasks := m, kst := k\<rparr>)"
  proof (rule wp_mono)
    fix r s1 assume s1: "unread ring s1 = ring (m, k)"
    show "wp (drain K n r) (\<lambda>_ s'. length (unread ring s') < length (unread ring s)) s1"
      by (rule wp_mono [OF wp_drain [OF ring]]) (use s1 msg in \<open>auto simp: drains_def\<close>)
  qed
  then show ?thesis using n x by (simp add: wp_simps ask)
qed

section \<open>A kernel for the witness\<close>

text \<open>Its state is the ring; a task is found under its PID.\<close>

definition courier :: "u8 list list kern" where
  "courier = \<lparr>SCX_DSQ_LOCAL_ON = 0xC000000000000000, SCX_WAKE_TTWU = 8, SCX_WAKE_SYNC = 16, SCX_TASK_QUEUED = 1,
     PF_KTHREAD = 0x200000, PF_IDLE = 2, k_has_select_cpu_and = True, k_enq_cpu_selected = (\<lambda>_. False),
     k_max_user_samples = 131072, k_scale_by_weight = (\<lambda>_ v. v), k_scale_by_weight_inverse = (\<lambda>_ v. v),
     k_time_before = (\<lambda>a b. a < b), k_time_after = (\<lambda>a b. b < a), k_time_delta = (\<lambda>a b. a - b),
     k_cpu_llc_id = (\<lambda>_. 0), k_cpu_priority = (\<lambda>_. 0),
     k_now = (\<lambda>w. (0, w)), k_ktime_get_ns = (\<lambda>w. (0, w)), k_smp_processor_id = (\<lambda>w. (0, w)),
     k_nr_cpu_ids = (\<lambda>w. (2, w)), k_cpu_online = (\<lambda>_ w. (True, w)), k_smt_idle = (\<lambda>_ w. (False, w)),
     k_cpumask_first = (\<lambda>_ w. (0, w)), k_task_cpu = (\<lambda>_ w. (0, w)), k_task_running = (\<lambda>_ w. (False, w)),
     k_cpu_curr = (\<lambda>_ w. (None, w)), k_task_from_pid = (\<lambda>pid w. (Some (unat pid), w)),
     k_dsq_nr_queued = (\<lambda>_ w. (0, w)), k_dsq_peek = (\<lambda>_ w. (None, w)), k_ringbuf_avail = (\<lambda>w. (0, w)),
     k_test_and_clear_idle = (\<lambda>_ w. (False, w)), k_pick_idle = (\<lambda>_ w. (- 16, w)),
     k_select_cpu_dfl = (\<lambda>_ _ _ w. ((- 16, False), w)), k_select_cpu_and = (\<lambda>_ _ _ w. (- 16, w)),
     k_dispatch_nr_slots = (\<lambda>w. (512, w)),
     k_next_user_sample = (\<lambda>ret (mem, ring). case ring of [] \<Rightarrow> (None, (mem, ring))
       | m # ms \<Rightarrow> (Some (if length m < DISPATCHED_TASK_CTX_SIZE then None else Some m), (mem, ms))),
     k_dsq_insert = (\<lambda>_ _ _ _ w. ((), w)), k_dsq_insert_vtime = (\<lambda>_ _ _ _ _ w. ((), w)),
     k_dispatch_cancel = (\<lambda>w. ((), w)), k_move_to_local = (\<lambda>_ w. (False, w)), k_kick_cpu = (\<lambda>_ w. ((), w)),
     k_create_dsq = (\<lambda>_ w. (0, w)), k_timer_lookup = (\<lambda>w. (True, w)), k_timer_start = (\<lambda>w. (0, w)),
     k_reserve_exit = (\<lambda>w. (True, w)), k_submit_exit = (\<lambda>_ w. ((), w)), k_scx_exit = (\<lambda>_ w. ((), w)),
     k_scx_error = (\<lambda>w. ((), w)), k_storage_create = (\<lambda>_ w. (True, w)), k_task_release = (\<lambda>_ w. ((), w))\<rparr>"

definition courier_boot :: "u8 list list \<Rightarrow> u8 list list bpf" where
  "courier_boot ring = \<lparr>counters = (\<lambda>_. 0), g_nr_cpu_ids = 2, g_vtime_now = 0, g_usersched_last_run_at = 0,
     g_last_dispatch_at = 0, g_usersched_needed = 0, task_ctx_stor = Map.empty, requests = [],
     tasks = (\<lambda>_. bench_task), kst = ring\<rparr>"

lemma courier_ring: "user_ring courier snd"
  by (auto simp: user_ring_def courier_def split: option.splits list.splits)

section \<open>Properties\<close>

lemma whole_all: "\<forall>m \<in> set ms. length m = DISPATCHED_TASK_CTX_SIZE \<Longrightarrow> whole ms = ms"
  by (simp add: whole_def)

text \<open>
  C5. From one half to the other. A cycle of the Rust program leaves messages in the user ring buffer; a drain of
  the BPF program takes a first part of them, in order, and at least one of them. For each it looks the task up once; a task that is there
  is placed by exactly one request, with the slice and the deadline of the message, and put back, and the
  placement is cancelled exactly when the message is outdated. The messages settled are different enqueue events
  that the kernel had handed to the Rust program: nothing is placed that was not enqueued, or twice.
\<close>

theorem user_dispatch_settles_enqueues:
  assumes "libbpf_ok os rx tx" and "sched_ok s" and "user_ring K ring"
  shows "\<exists>s' w' ins outs. schedule os (s, w) = Inr ((), (s', w')) \<and> rx w' = rx w @ ins \<and> tx w' = tx w @ outs \<and>
    (\<forall>b left. ring (tasks b, kst b) = outs \<longrightarrow> (\<exists>b' first rss. drain K left 0 b = Inr ((), b') \<and>
      outs = first @ ring (tasks b', kst b') \<and> requests b' = requests b @ concat rss \<and>
      list_all2 (\<lambda>d rs. settled d (task_ctx_stor b) rs) (submitted first) rss \<and>
      mset (map dident (submitted first)) \<subseteq># queued_idents s + mset (map ident (received ins)) \<and>
      (0 < left \<and> outs \<noteq> [] \<longrightarrow> first \<noteq> [])))"
proof -
  from wp_schedule [OF assms(1,2), of w] obtain s' w' where
    run: "schedule os (s, w) = Inr ((), (s', w'))" "cycle_post os rx tx (s, w) (s', w')" by (auto simp: wp_iff)
  then obtain ins outs where tx: "rx w' = rx w @ ins" "tx w' = tx w @ outs"
    and ledger: "queued_idents s + mset (map ident (received ins)) = queued_idents s' + mset (map dident (submitted outs))"
    and size: "\<forall>m \<in> set outs. length m = DISPATCHED_TASK_CTX_SIZE"
    unfolding cycle_post_def ledger_def prod.case by blast
  have "\<exists>b' first rss. drain K left 0 b = Inr ((), b') \<and>
      outs = first @ ring (tasks b', kst b') \<and> requests b' = requests b @ concat rss \<and>
      list_all2 (\<lambda>d rs. settled d (task_ctx_stor b) rs) (submitted first) rss \<and>
      mset (map dident (submitted first)) \<subseteq># queued_idents s + mset (map ident (received ins)) \<and>
      (0 < left \<and> outs \<noteq> [] \<longrightarrow> first \<noteq> [])"
    if outs: "ring (tasks b, kst b) = outs" for b left
  proof -
    from wp_drain [OF assms(3), of left 0 b] obtain b' where b': "drain K left 0 b = Inr ((), b')" "drains ring b b'"
      by (auto simp: wp_iff)
    then obtain first rss where first: "outs = first @ unread ring b'" "requests b' = requests b @ concat rss"
      "list_all2 (\<lambda>d rs. settled d (task_ctx_stor b) rs) (submitted (whole first)) rss"
      using outs unfolding drains_def by blast
    have "first \<noteq> []" if "0 < left \<and> outs \<noteq> []"
      using wp_drain_progress [OF assms(3), of b left] that outs b'(1) first(1) by (auto simp: wp_iff)
    note progress = this
    have all: "whole first = first" using size first(1) by (intro whole_all) simp
    have "mset (map dident (submitted first)) \<subseteq># mset (map dident (submitted outs))"
      unfolding first(1) by (simp add: submitted_append)
    also have "\<dots> \<subseteq># queued_idents s + mset (map ident (received ins))" using ledger by simp
    finally show ?thesis using b'(1) first all progress by auto
  qed
  then show ?thesis using run(1) tx by blast
qed

theorem user_dispatch_settles_enqueues_witness:
  "\<exists>s s' w' outs b'. scheduler_new opts_default bpf_started 0 = Inr s \<and>
     schedule script_os (s, ([queued_ctx sample_task], [], [])) = Inr ((), (s', w')) \<and>
     drain courier 7 0 (courier_boot outs) = Inr ((), b')"
proof -
  obtain s where s: "scheduler_new opts_default bpf_started 0 = Inr s" "sched_ok s" using started by metis
  obtain s' w' ins outs where run: "schedule script_os (s, ([queued_ctx sample_task], [], [])) = Inr ((), (s', w'))"
    and drain: "\<And>b left. snd (tasks b, kst b) = outs \<Longrightarrow> \<exists>b'. drain courier left 0 b = Inr ((), b')"
    using user_dispatch_settles_enqueues [OF script_ok s(2) courier_ring, of "([queued_ctx sample_task], [], [])"] by metis
  have "snd (tasks (courier_boot outs), kst (courier_boot outs)) = outs" by (simp add: courier_boot_def)
  then show ?thesis using s(1) run drain by blast
qed

end
