(* ===== verification/Unit_Tests.thy ===== *)
theory Unit_Tests
  imports Lifecycle Dashboard
begin

text \<open>
  The repository's own unit tests (\<open>mod tests\<close> of \<open>task_queue.rs\<close>, \<open>ai/policy.rs\<close>, \<open>ai/classifier.rs\<close>,
  \<open>ai/trust.rs\<close> and \<open>main.rs\<close>) as programs over the model: a failing \<open>assert!\<close> or \<open>unwrap\<close> is a panic. Each
  test has a lemma that it passes, so the definitions agree with the code on every input the authors chose.
  The command line parser of the tests in \<open>main.rs\<close> is the parameter \<open>parse\<close>. The drop of a test's locals is
  left out.
\<close>

section \<open>Tests\<close>

definition asserts :: "bool list \<Rightarrow> fault + unit" where
  "asserts bs = (if list_all id bs then Inr () else Inl Panic)"

definition unwrap :: "'e + 'a \<Rightarrow> fault + 'a" where
  "unwrap r = (case r of Inr x \<Rightarrow> Inr x | Inl _ \<Rightarrow> Inl Panic)"

abbreviation passes :: "fault + unit \<Rightarrow> bool" where
  "passes t \<equiv> t = Inr ()"

lemma asserts_passes [simp]: "passes (asserts bs) \<longleftrightarrow> list_all id bs"
  by (simp add: asserts_def)

lemma passes_bind [simp]: "passes (bindR (asserts bs) f) \<longleftrightarrow> list_all id bs \<and> passes (f ())"
  by (simp add: asserts_def)

section \<open>\<open>task_queue.rs\<close>\<close>

text \<open>\<open>q.push_back(v).unwrap()\<close>, and \<open>assert_eq!\<close> on what a call returns.\<close>

definition push_ok :: "'a \<Rightarrow> 'a task_ring \<Rightarrow> fault + 'a task_ring" where
  "push_ok v q = bindR (ring_push_back q v) (\<lambda>(r, q). bindR (unwrap r) (\<lambda>_. Inr q))"

definition pops :: "'a option \<Rightarrow> 'a task_ring \<Rightarrow> fault + 'a task_ring" where
  "pops x q = bindR (ring_pop_front q) (\<lambda>(r, q). bindR (asserts [r = x]) (\<lambda>_. Inr q))"

definition queue_pushes :: "'a \<Rightarrow> 'a + queue_push \<Rightarrow> 'a task_queue \<Rightarrow> fault + 'a task_queue" where
  "queue_pushes v x q = bindR (queue_push_back q v) (\<lambda>(r, q). bindR (asserts [r = x]) (\<lambda>_. Inr q))"

definition queue_pops :: "'a option \<Rightarrow> 'a task_queue \<Rightarrow> fault + 'a task_queue" where
  "queue_pops x q = bindR (queue_pop_front q) (\<lambda>(r, q). bindR (asserts [r = x]) (\<lambda>_. Inr q))"

definition push_pop_fifo :: "fault + unit" where
  "push_pop_fifo =
     bindR (ring_with_capacity 4) (\<lambda>q. bindR (push_ok (1 :: int) q) (\<lambda>q. bindR (push_ok 2 q) (\<lambda>q. bindR (push_ok 3 q) (\<lambda>q.
     bindR (pops (Some 1) q) (\<lambda>q. bindR (pops (Some 2) q) (\<lambda>q. bindR (pops (Some 3) q) (\<lambda>q. bindR (pops None q) (\<lambda>_.
     Inr ()))))))))"

definition wraparound_preserves_order :: "fault + unit" where
  "wraparound_preserves_order =
     bindR (ring_with_capacity 3) (\<lambda>q. bindR (push_ok (10 :: int) q) (\<lambda>q. bindR (push_ok 20 q) (\<lambda>q. bindR (pops (Some 10) q) (\<lambda>q.
     bindR (push_ok 30 q) (\<lambda>q. bindR (push_ok 40 q) (\<lambda>q. bindR (pops (Some 20) q) (\<lambda>q. bindR (pops (Some 30) q) (\<lambda>q.
     bindR (pops (Some 40) q) (\<lambda>q. bindR (pops None q) (\<lambda>_. Inr ()))))))))))"

definition deferred_slot_preserves_fifo_order :: "fault + unit" where
  "deferred_slot_preserves_fifo_order =
     bindR (queue_with_capacity 2) (\<lambda>q. bindR (queue_pushes (1 :: int) (Inr Primary) q) (\<lambda>q.
     bindR (queue_pushes 2 (Inr Primary) q) (\<lambda>q. bindR (queue_pushes 3 (Inr Deferred) q) (\<lambda>q.
     bindR (queue_pops (Some 1) q) (\<lambda>q. bindR (asserts [\<not> has_deferred q]) (\<lambda>_. bindR (queue_pops (Some 2) q) (\<lambda>q.
     bindR (queue_pops (Some 3) q) (\<lambda>q. bindR (queue_pops None q) (\<lambda>_. Inr ())))))))))"

definition second_deferred_push_is_rejected :: "fault + unit" where
  "second_deferred_push_is_rejected =
     bindR (queue_with_capacity 1) (\<lambda>q. bindR (queue_pushes (7 :: int) (Inr Primary) q) (\<lambda>q.
     bindR (queue_pushes 8 (Inr Deferred) q) (\<lambda>q. bindR (queue_pushes 9 (Inl 9) q) (\<lambda>_. Inr ()))))"

lemma queue_tests_pass:
  "passes push_pop_fifo" "passes wraparound_preserves_order"
  "passes deferred_slot_preserves_fifo_order" "passes second_deferred_push_is_rejected"
  by code_simp+

section \<open>\<open>ai/policy.rs\<close>\<close>

definition slice_stays_in_bounds :: "fault + unit" where
  "slice_stays_in_bounds =
     bindR (controller_update (controller_new 0) 80 8) (\<lambda>(slice, _).
     asserts [AUTO_SLICE_MIN_NS \<le> slice, slice \<le> AUTO_SLICE_MAX_NS])"

definition load_increase_shrinks_slice_immediately :: "fault + unit" where
  "load_increase_shrinks_slice_immediately =
     bindR (controller_update (controller_new 0) 8 8) (\<lambda>(light, ctrl).
     bindR (controller_update ctrl 64 8) (\<lambda>(heavy, _). asserts [heavy < light]))"

definition manual_ceiling_is_respected :: "fault + unit" where
  "manual_ceiling_is_respected =
     bindR (controller_update (controller_new 2000000) 1 8) (\<lambda>(slice, _). asserts [slice \<le> 2000000])"

lemma auto_base_values: "auto_base 8 8 = 6000000" "auto_base 64 8 = 750000" "auto_base 80 8 = 600000"
  using auto_base_formula [of 1 8 8] auto_base_formula [of 8 8 64] auto_base_formula [of 10 8 80]
  by (simp_all add: word_unat_eq_iff clamp_def)

lemma policy_tests_pass:
  "passes slice_stays_in_bounds" "passes load_increase_shrinks_slice_immediately" "passes manual_ceiling_is_respected"
proof -
  note run = controller_update_eq [OF controller_new_ok] and limits = AUTO_SLICE_MIN_NS_def AUTO_SLICE_MAX_NS_def
  have new: "base_slice_ns (controller_new b) = b" for b by (simp add: controller_new_def Let_def)
  show "passes slice_stays_in_bounds"
    using clamp_slice by (simp add: slice_stays_in_bounds_def run Let_def)
  obtain light c where l: "controller_update (controller_new 0) 8 8 = Inr (light, c)" "light = 6000000"
    by (simp add: run Let_def new auto_base_values clamp_def limits)
  then have c: "controller_ok c" "base_slice_ns c = 0" using controller_update_ok [OF controller_new_ok] new by metis+
  have "controller_update c 64 8 = Inr (750000, c\<lparr>auto_base_ns := 750000, current_slice_ns := 750000\<rparr>)"
    using controller_update_eq [OF c(1), of 8 64] c(2) by (simp add: Let_def auto_base_values clamp_def limits)
  with l show "passes load_increase_shrinks_slice_immediately" by (simp add: load_increase_shrinks_slice_immediately_def)
  have "clamp (min x 2000000) AUTO_SLICE_MIN_NS AUTO_SLICE_MAX_NS \<le> 2000000" for x :: u64
    by (auto simp: clamp_def limits)
  then show "passes manual_ceiling_is_respected" by (simp add: manual_ceiling_is_respected_def run Let_def new)
qed

section \<open>\<open>ai/classifier.rs\<close>\<close>

definition feat :: "rat \<Rightarrow> rat \<Rightarrow> rat \<Rightarrow> task_features" where
  "feat cpu io exec = \<lparr>runnable_ratio = io, cpu_intensity = cpu, exec_ratio = exec, weight_norm = rnd32 (1/100), cpu_affinity = 1\<rparr>"

definition heuristic_compute :: "fault + unit" where
  "heuristic_compute = asserts [classify (feat (rnd32 (9/10)) (rnd32 (8/10)) (rnd32 (1/1000))) = Compute]"

definition high_cpu_fresh_wakeup_is_interactive :: "fault + unit" where
  "high_cpu_fresh_wakeup_is_interactive = asserts [classify (feat (rnd32 (95/100)) (rnd32 (2/10)) (rnd32 (95/100))) = Interactive]"

definition heuristic_interactive :: "fault + unit" where
  "heuristic_interactive = asserts [classify (feat (rnd32 (45/100)) (rnd32 (2/100)) (rnd32 (95/100))) = Interactive]"

definition heuristic_iowait :: "fault + unit" where
  "heuristic_iowait = asserts [classify (feat (rnd32 (4/100)) (rnd32 (4/100)) (rnd32 (5/10))) = IoWait]"

definition heuristic_boundary_interactive_low :: "fault + unit" where
  "heuristic_boundary_interactive_low = asserts [classify (feat (rnd32 (10/100)) (rnd32 (1/10)) (rnd32 (5/10))) = Interactive]"

definition heuristic_boundary_compute_high :: "fault + unit" where
  "heuristic_boundary_compute_high = asserts [classify (feat (rnd32 (85/100)) (rnd32 (8/10)) (rnd32 (1/100))) = Interactive]"

definition heuristic_realtime :: "fault + unit" where
  "heuristic_realtime = asserts [classify \<lparr>runnable_ratio = rnd32 (5/10), cpu_intensity = rnd32 (5/10),
     exec_ratio = rnd32 (5/10), weight_norm = rnd32 (99/100), cpu_affinity = 1\<rparr> = RealTime]"

lemma lit_85_100: "rnd32 (85/100) = 14260634 / 16777216"
  using rnd_eval [of "-24" 24 "85/100" "- 149" 14260634] by (simp add: rnd32_def pow2_def)

lemma lit_99_100: "rnd32 (99/100) = 16609444 / 16777216"
  using rnd_eval [of "-24" 24 "99/100" "- 149" 16609444] by (simp add: rnd32_def pow2_def)

lemma lit_1_1000: "rnd32 (1/1000) = 8589935 / 8589934592"
  using rnd_eval [of "-33" 24 "1/1000" "- 149" 8589935] by (simp add: rnd32_def pow2_def)

lemma lit_4_100: "rnd32 (4/100) = 10737418 / 268435456"
  using rnd_eval [of "-28" 24 "4/100" "- 149" 10737418] by (simp add: rnd32_def pow2_def)

lemma literals_ordered:
  "rnd32 (85/100) < rnd32 (90/100)" "rnd32 (1/1000) < rnd32 (30/100)" "rnd32 (4/100) < rnd32 (10/100)"
  "rnd32 (95/100) < rnd32 (99/100)"
  by (simp_all only: lit_85_100 lit_90_100 lit_1_1000 lit_30_100 lit_4_100 lit_10_100 lit_95_100 lit_99_100)

lemma literals_le: "x \<le> y \<Longrightarrow> \<not> rnd32 y < rnd32 x" by (simp add: f32.mono not_less)

lemma classify_feat:
  "classify (feat c i e) =
     (if rnd32 (85/100) < c \<and> e < rnd32 (30/100) then Compute else if c < rnd32 (10/100) then IoWait else Interactive)"
  using literals_le [of "1/100" "95/100"] by (simp only: classify_def feat_def task_features.simps) simp

lemma classifier_tests_pass:
  "passes heuristic_compute" "passes high_cpu_fresh_wakeup_is_interactive" "passes heuristic_interactive"
  "passes heuristic_iowait" "passes heuristic_boundary_interactive_low" "passes heuristic_boundary_compute_high"
  "passes heuristic_realtime"
proof -
  have "(9 / 10 :: rat) = 90 / 100" "(1 / 10 :: rat) = 10 / 100" by simp_all
  note eval = classify_feat asserts_passes list.pred_inject id_apply simp_thms if_True if_False this
  show "passes heuristic_compute"
    using literals_ordered(1,2) unfolding heuristic_compute_def by (simp only: eval)
  show "passes high_cpu_fresh_wakeup_is_interactive"
    using literals_le [of "30/100" "95/100"] literals_le [of "10/100" "95/100"]
    unfolding high_cpu_fresh_wakeup_is_interactive_def by (simp only: eval)
  show "passes heuristic_interactive"
    using literals_le [of "45/100" "85/100"] literals_le [of "10/100" "45/100"]
    unfolding heuristic_interactive_def by (simp only: eval)
  show "passes heuristic_iowait"
    using literals_ordered(3) literals_le [of "4/100" "85/100"] unfolding heuristic_iowait_def by (simp only: eval)
  show "passes heuristic_boundary_interactive_low"
    using literals_le [of "10/100" "85/100"] unfolding heuristic_boundary_interactive_low_def by (simp only: eval) simp
  show "passes heuristic_boundary_compute_high"
    using literals_le [of "10/100" "85/100"] unfolding heuristic_boundary_compute_high_def by (simp only: eval) simp
  show "passes heuristic_realtime"
    using literals_ordered(4) unfolding heuristic_realtime_def classify_def by (simp only: eval task_features.simps)
qed

section \<open>\<open>main.rs\<close>\<close>

definition wake_boost_requires_latency_sensitive_task :: "fault + unit" where
  "wake_boost_requires_latency_sensitive_task = asserts
     [\<not> should_wake_boost True (rnd32 (80/100)) (rnd32 (70/100)) 200000,
      \<not> should_wake_boost False (rnd32 (80/100)) (rnd32 (70/100)) 8000000]"

definition wake_boost_accepts_frame_sized_sleep_gap :: "fault + unit" where
  "wake_boost_accepts_frame_sized_sleep_gap = asserts [should_wake_boost True (rnd32 (92/100)) (rnd32 (78/100)) 8000000]"

definition wake_boost_rejects_long_sleepers :: "fault + unit" where
  "wake_boost_rejects_long_sleepers = asserts [\<not> should_wake_boost True (rnd32 (92/100)) (rnd32 (78/100)) 40000000]"

definition wake_preempt_requires_recent_creditful_task :: "fault + unit" where
  "wake_preempt_requires_recent_creditful_task = asserts
     [\<not> should_wake_preempt True True 500000 1000000,
      \<not> should_wake_preempt True True 2000000 10000000,
      \<not> should_wake_preempt False True 2000000 1000000]"

definition wake_preempt_accepts_fresh_high_credit_wakeup :: "fault + unit" where
  "wake_preempt_accepts_fresh_high_credit_wakeup = asserts [should_wake_preempt True True 2000000 1500000]"

definition recent_sleep_gap_uses_previous_stop_timestamp :: "fault + unit" where
  "recent_sleep_gap_uses_previous_stop_timestamp = asserts
     [recent_sleep_gap_ns 0 50 = 0, recent_sleep_gap_ns 10 50 = 40, recent_sleep_gap_ns 80 50 = 0]"

definition effective_slice_pressure_counts_queued_work :: "fault + unit" where
  "effective_slice_pressure_counts_queued_work = asserts
     [effective_slice_pressure 15 2 0 = 17, effective_slice_pressure 15 2 3 = 20]"

definition effective_slice_pressure_saturates :: "fault + unit" where
  "effective_slice_pressure_saturates = asserts [effective_slice_pressure (- 1) 1 1 = - 1]"

lemma wake_tests_pass:
  "passes wake_boost_requires_latency_sensitive_task" "passes wake_boost_accepts_frame_sized_sleep_gap"
  "passes wake_boost_rejects_long_sleepers" "passes wake_preempt_requires_recent_creditful_task"
  "passes wake_preempt_accepts_fresh_high_credit_wakeup"
proof -
  note eval = should_wake_boost_def should_wake_preempt_def WAKE_BOOST_MIN_SLEEP_NS_def WAKE_BOOST_MAX_SLEEP_NS_def
    WAKE_PREEMPT_MIN_CREDIT_NS_def WAKE_PREEMPT_MAX_QUEUE_NS_def
  show "passes wake_boost_requires_latency_sensitive_task" "passes wake_boost_rejects_long_sleepers"
    by (simp_all add: wake_boost_requires_latency_sensitive_task_def wake_boost_rejects_long_sleepers_def eval)
  show "passes wake_boost_accepts_frame_sized_sleep_gap"
    by (simp add: wake_boost_accepts_frame_sized_sleep_gap_def eval f32.mono)
  show "passes wake_preempt_requires_recent_creditful_task" "passes wake_preempt_accepts_fresh_high_credit_wakeup"
    by (simp_all add: wake_preempt_requires_recent_creditful_task_def wake_preempt_accepts_fresh_high_credit_wakeup_def eval)
qed

lemma pressure_tests_pass:
  "passes recent_sleep_gap_uses_previous_stop_timestamp" "passes effective_slice_pressure_counts_queued_work"
  "passes effective_slice_pressure_saturates"
  by (simp_all add: recent_sleep_gap_uses_previous_stop_timestamp_def effective_slice_pressure_counts_queued_work_def
      effective_slice_pressure_saturates_def recent_sleep_gap_ns_def effective_slice_pressure_def sat_add_def sat_sub_def
      unat_all_ones)

text \<open>The options: \<open>parse\<close> stands for \<open>Opts::parse_from\<close>, clap's parser of an argument vector.\<close>

type_synonym parser = "string list \<Rightarrow> opts"

definition desktop_profile_defaults_match_cli_mode :: "parser \<Rightarrow> fault + unit" where
  "desktop_profile_defaults_match_cli_mode parse =
     (let profile = from_opts (parse [''scx_cognis'']) in asserts
       [prof_slice_ns profile = DEFAULT_DESKTOP_SLICE_NS, prof_slice_min_ns profile = DEFAULT_DESKTOP_SLICE_MIN_NS,
        prof_slice_lag_ns profile = DEFAULT_DESKTOP_SLICE_LAG_NS, sticky_tasks profile, \<not> no_wake_sync profile])"

definition server_profile_defaults_match_cli_mode :: "parser \<Rightarrow> fault + unit" where
  "server_profile_defaults_match_cli_mode parse =
     (let profile = from_opts (parse [''scx_cognis'', ''--mode'', ''server'']) in asserts
       [prof_slice_ns profile = DEFAULT_SERVER_SLICE_NS, prof_slice_min_ns profile = DEFAULT_SERVER_SLICE_MIN_NS,
        prof_slice_lag_ns profile = DEFAULT_SERVER_SLICE_LAG_NS, \<not> sticky_tasks profile, no_wake_sync profile])"

definition enabled_flag_summary_defaults_to_none :: "parser \<Rightarrow> fault + unit" where
  "enabled_flag_summary_defaults_to_none parse =
     asserts [enabled_flag_summary (parse [''scx_cognis'']) = ''none'']"

definition flag_arguments :: "string list" where
  "flag_arguments = [''scx_cognis'', ''--mode'', ''server'', ''-p'', ''-l'', ''-v'', ''-t'', ''--stats'', ''1'',
     ''--userspace-fallback'', ''--serve-stats'']"

definition enabled_flag_summary_lists_behavioral_flags :: "parser \<Rightarrow> fault + unit" where
  "enabled_flag_summary_lists_behavioral_flags parse = asserts
     [enabled_flag_summary (parse flag_arguments) = ''partial,percpu_local,verbose,tui,stats,userspace_fallback,serve_stats'']"

definition userspace_fallback_stays_off_by_default :: "parser \<Rightarrow> fault + unit" where
  "userspace_fallback_stays_off_by_default parse = asserts [\<not> userspace_fallback (parse [''scx_cognis''])]"

definition stats_server_stays_off_for_default_headless_service_mode :: "parser \<Rightarrow> fault + unit" where
  "stats_server_stays_off_for_default_headless_service_mode parse =
     asserts [\<not> should_launch_stats_server (parse [''scx_cognis''])]"

definition stats_server_launches_for_explicit_observability_modes :: "parser \<Rightarrow> fault + unit" where
  "stats_server_launches_for_explicit_observability_modes parse = asserts
     [should_launch_stats_server (parse [''scx_cognis'', ''--serve-stats'']),
      should_launch_stats_server (parse [''scx_cognis'', ''--stats'', ''1'']),
      should_launch_stats_server (parse [''scx_cognis'', ''--tui''])]"

text \<open>What clap documents for these vectors: defaults, and the flags that are given.\<close>

definition parses :: "parser \<Rightarrow> bool" where
  "parses parse \<longleftrightarrow>
     parse [''scx_cognis''] = opts_default \<and>
     parse [''scx_cognis'', ''--mode'', ''server''] = opts_default\<lparr>opt_mode := Server\<rparr> \<and>
     parse flag_arguments = opts_default\<lparr>opt_mode := Server, opt_partial := True, percpu_local := True, verbose := True,
       tui := True, stats := Some 1, userspace_fallback := True, serve_stats := True\<rparr> \<and>
     parse [''scx_cognis'', ''--serve-stats''] = opts_default\<lparr>serve_stats := True\<rparr> \<and>
     parse [''scx_cognis'', ''--stats'', ''1''] = opts_default\<lparr>stats := Some 1\<rparr> \<and>
     parse [''scx_cognis'', ''--tui''] = opts_default\<lparr>tui := True\<rparr>"

definition parse_table :: parser where
  "parse_table args =
     (case map_of [([''scx_cognis'', ''--mode'', ''server''], opts_default\<lparr>opt_mode := Server\<rparr>),
        (flag_arguments, opts_default\<lparr>opt_mode := Server, opt_partial := True, percpu_local := True, verbose := True,
           tui := True, stats := Some 1, userspace_fallback := True, serve_stats := True\<rparr>),
        ([''scx_cognis'', ''--serve-stats''], opts_default\<lparr>serve_stats := True\<rparr>),
        ([''scx_cognis'', ''--stats'', ''1''], opts_default\<lparr>stats := Some 1\<rparr>),
        ([''scx_cognis'', ''--tui''], opts_default\<lparr>tui := True\<rparr>)] args of
        None \<Rightarrow> opts_default | Some cli \<Rightarrow> cli)"

lemma parses_table: "parses parse_table"
  by (simp add: parses_def parse_table_def flag_arguments_def)

lemma option_tests_pass:
  assumes "parses parse"
  shows "passes (desktop_profile_defaults_match_cli_mode parse)" "passes (server_profile_defaults_match_cli_mode parse)"
    "passes (enabled_flag_summary_defaults_to_none parse)" "passes (enabled_flag_summary_lists_behavioral_flags parse)"
    "passes (userspace_fallback_stays_off_by_default parse)"
    "passes (stats_server_stays_off_for_default_headless_service_mode parse)"
    "passes (stats_server_launches_for_explicit_observability_modes parse)"
proof -
  note given = assms [unfolded parses_def]
  have desktop: "from_opts opts_default = \<lparr>prof_mode = Desktop, prof_slice_ns = 1000000, prof_slice_min_ns = 250000,
      prof_slice_lag_ns = 40000000, no_wake_sync = False, sticky_tasks = True\<rparr>"
    and server: "from_opts (opts_default\<lparr>opt_mode := Server\<rparr>) = \<lparr>prof_mode = Server, prof_slice_ns = 8000000,
      prof_slice_min_ns = 1000000, prof_slice_lag_ns = 1500000, no_wake_sync = True, sticky_tasks = False\<rparr>"
    by code_simp+
  show "passes (desktop_profile_defaults_match_cli_mode parse)" "passes (server_profile_defaults_match_cli_mode parse)"
    using given desktop server
    by (simp_all add: desktop_profile_defaults_match_cli_mode_def server_profile_defaults_match_cli_mode_def
        DEFAULT_DESKTOP_SLICE_NS_def DEFAULT_DESKTOP_SLICE_MIN_NS_def DEFAULT_DESKTOP_SLICE_LAG_NS_def
        DEFAULT_SERVER_SLICE_NS_def DEFAULT_SERVER_SLICE_MIN_NS_def DEFAULT_SERVER_SLICE_LAG_NS_def)
  show "passes (enabled_flag_summary_defaults_to_none parse)" "passes (enabled_flag_summary_lists_behavioral_flags parse)"
    using given by (simp_all add: enabled_flag_summary_defaults_to_none_def enabled_flag_summary_lists_behavioral_flags_def
        enabled_flag_summary_def enabled_flags_def opts_default_def)
  show "passes (userspace_fallback_stays_off_by_default parse)"
    "passes (stats_server_stays_off_for_default_headless_service_mode parse)"
    "passes (stats_server_launches_for_explicit_observability_modes parse)"
    using given by (simp_all add: userspace_fallback_stays_off_by_default_def
        stats_server_stays_off_for_default_headless_service_mode_def
        stats_server_launches_for_explicit_observability_modes_def should_launch_stats_server_def opts_default_def)
qed

definition runtime_exit_reason_extracts_sched_ext_exit_message :: "fault + unit" where
  "runtime_exit_reason_extracts_sched_ext_exit_message = asserts
     [runtime_exit_reason (as_text ''EXIT: runnable task stall (watchdog failed to check in)'') =
      Some (as_text ''runnable task stall (watchdog failed to check in)'')]"

definition watchdog_runtime_exit_detection_matches_stall_message :: "fault + unit" where
  "watchdog_runtime_exit_detection_matches_stall_message = asserts
     [is_watchdog_runtime_exit (as_text ''runnable task stall (watchdog failed to check in)''),
      \<not> is_watchdog_runtime_exit (as_text ''scheduler requested restart'')]"

lemma exit_tests_pass:
  "passes runtime_exit_reason_extracts_sched_ext_exit_message"
  "passes watchdog_runtime_exit_detection_matches_stall_message"
  by code_simp+

section \<open>\<open>ai/trust.rs\<close>\<close>

text \<open>\<open>for _ in 0..n { t.update_on_exit(pid, pid, obs, comm) }\<close>, and the observations of the tests.\<close>

definition observe :: "nat \<Rightarrow> i32 \<Rightarrow> exit_observation \<Rightarrow> string \<Rightarrow> trust_table \<Rightarrow> trust_table" where
  "observe n pid obs comm = (\<lambda>t. update_on_exit t pid pid obs (ascii comm)) ^^ n"

definition obs_cooperative :: exit_observation where
  "obs_cooperative = obs_quiet\<lparr>slice_underrun := True, clean_exit := True\<rparr>"

definition obs_cheat :: exit_observation where "obs_cheat = obs_quiet\<lparr>cheat_flagged := True\<rparr>"

definition obs_clean :: exit_observation where "obs_clean = obs_quiet\<lparr>clean_exit := True\<rparr>"

definition neutral_initial_score :: "fault + unit" where
  "neutral_initial_score = asserts [trust_score trust_new 1234 = 0, \<not> is_quarantined trust_new 1234, \<not> is_flagged trust_new 1234]"

definition cooperative_exits_improve_trust :: "fault + unit" where
  "cooperative_exits_improve_trust = asserts [0 < trust_score (observe 20 999 obs_cooperative ''test'' trust_new) 999]"

definition adversarial_exits_lower_trust_to_quarantine :: "fault + unit" where
  "adversarial_exits_lower_trust_to_quarantine =
     (let t = observe 10 42 obs_adverse ''badproc'' trust_new in asserts [is_quarantined t 42, is_flagged t 42])"

definition clean_exit_clears_cheat_flag :: "fault + unit" where
  "clean_exit_clears_cheat_flag =
     (let t = observe 3 7 obs_cheat ''x'' trust_new in
      bindR (asserts [is_flagged t 7]) (\<lambda>_. let t = observe 1 7 obs_clean ''x'' t in asserts [\<not> is_flagged t 7]))"

definition evict_clears_slot :: "fault + unit" where
  "evict_clears_slot =
     (let t = observe 10 7 obs_cheat ''x'' trust_new in
      bindR (asserts [trust_score t 7 < 0]) (\<lambda>_. asserts [trust_score (trust_evict t 7) 7 = 0]))"

definition slice_factor_ranges :: "fault + unit" where
  "slice_factor_ranges =
     bindR (asserts [\<bar>rnd64 (slice_factor trust_new 9999 - 1)\<bar> < rnd64 (1/100)]) (\<lambda>_.
     let t = observe 100 1 obs_cooperative ''good'' trust_new in
     bindR (asserts [rnd64 (9/10) < slice_factor t 1]) (\<lambda>_.
     let t = observe 50 2 obs_adverse ''bad'' t in asserts [slice_factor t 2 < rnd64 (35/100)]))"

definition worst_actors_finds_low_trust_entries :: "fault + unit" where
  "worst_actors_finds_low_trust_entries =
     (let t = observe 20 2 obs_cooperative ''normal'' (observe 15 1 obs_adverse ''malicious'' trust_new);
          (entries, n) = worst_actors t
      in asserts [1 \<le> n, list_ex (\<lambda>e. se_pid e = 1) (take n entries), \<not> list_ex (\<lambda>e. se_pid e = 2) (take n entries)])"

definition colliding_pids_keep_independent_trust :: "fault + unit" where
  "colliding_pids_keep_independent_trust =
     (let t = observe 1 2586 obs_adverse ''bad'' (observe 1 2 obs_cooperative ''good'' trust_new)
      in asserts [0 < trust_score t 2, trust_score t 2586 < 0])"

definition str_to_comm_truncates_at_15 :: "fault + unit" where
  "str_to_comm_truncates_at_15 =
     (let comm = str_to_comm (ascii ''this_is_a_very_long_comm_name'')
      in asserts [comm ! 15 = 0, utf8_ok (take 15 comm), take 15 comm = ascii ''this_is_a_very_''])"

text \<open>Repeated observations of one PID, and what they leave alone.\<close>

lemma observe_run:
  assumes "trust_inv t" and pid: "is_pos_i32 pid"
  shows "trust_inv (observe n pid obs comm t)"
    and "trust_score (observe n pid obs comm t) pid = (next_score obs ^^ n) (trust_score t pid)"
    and "streak_of (observe n pid obs comm t) pid = (next_streak obs ^^ n) (streak_of t pid)"
proof -
  have "trust_inv (observe n pid obs comm t) \<and>
    trust_score (observe n pid obs comm t) pid = (next_score obs ^^ n) (trust_score t pid) \<and>
    streak_of (observe n pid obs comm t) pid = (next_streak obs ^^ n) (streak_of t pid)"
    by (induction n) (use assms live_pos [OF pid] trust_inv_update update_same_pid in \<open>simp_all add: observe_def\<close>)
  then show "trust_inv (observe n pid obs comm t)"
    and "trust_score (observe n pid obs comm t) pid = (next_score obs ^^ n) (trust_score t pid)"
    and "streak_of (observe n pid obs comm t) pid = (next_streak obs ^^ n) (streak_of t pid)" by blast+
qed

lemmas observe_new = observe_run [OF trust_inv_new, unfolded trust_score_new]

text \<open>The PIDs of a table are among \<open>P\<close>; a table of few PIDs is not full.\<close>

definition tracks :: "i32 set \<Rightarrow> trust_table \<Rightarrow> bool" where
  "tracks P t \<longleftrightarrow> (\<forall>s. live (pids t s) \<longrightarrow> pids t s \<in> P)"

lemma tracks_new: "tracks P trust_new"
  by (simp add: tracks_def trust_new_def live_def)

lemma tracks_update: "tracks P t \<Longrightarrow> pid \<in> P \<Longrightarrow> tracks P (update_on_exit t pid pid obs comm)"
proof -
  assume P: "tracks P t" "pid \<in> P"
  obtain s t1 where ins: "get_or_insert_slot t pid = (s, t1)" by fastforce
  then have "tracks P t1"
    using P by (auto simp: get_or_insert_slot_def reset_slot_def tracks_def split: probe_result.splits)
  then show ?thesis using P(2) by (auto simp: tracks_def update_on_exit_effect(5) [OF ins])
qed

lemma tracks_observe: "tracks P t \<Longrightarrow> pid \<in> P \<Longrightarrow> tracks P (observe n pid obs comm t)"
  by (induction n) (simp_all add: observe_def tracks_update)

lemma few_not_full:
  assumes "trust_inv t" and "tracks P t" and "finite P" and "card P < TABLE_SIZE"
  shows "\<not> table_full (pids t)"
proof
  assume full: "table_full (pids t)"
  then have "inj_on (pids t) {..<TABLE_SIZE}"
    using assms(1) pids_valid_unique by (auto simp: inj_on_def table_full_def trust_inv_def)
  moreover have "pids t ` {..<TABLE_SIZE} \<subseteq> P" using full assms(2) by (auto simp: table_full_def tracks_def)
  ultimately have "card {..<TABLE_SIZE} \<le> card P" using card_inj_on_le assms(3) by blast
  then show False using assms(4) by simp
qed

lemma observe_other:
  assumes "trust_inv t" and "tracks P t" and "finite P" and "card P < TABLE_SIZE"
    and "pid \<in> P" and pos: "is_pos_i32 pid" "is_pos_i32 q" and "q \<noteq> pid"
  shows "trust_score (observe n pid obs comm t) q = trust_score t q"
proof (induction n)
  case (Suc n)
  let ?t = "observe n pid obs comm t"
  have "\<not> table_full (pids ?t)"
    using few_not_full [OF observe_run(1) [OF assms(1) pos(1)] tracks_observe [OF assms(2,5)] assms(3,4)] .
  then have "trust_score (update_on_exit ?t pid pid obs (ascii comm)) q = trust_score ?t q"
    using update_other_pid(1) [OF observe_run(1) [OF assms(1) pos(1)]] live_pos pos assms(8) by blast
  then show ?case using Suc.IH by (simp add: observe_def)
qed (simp add: observe_def)

text \<open>Where the scores go.\<close>

lemma adverse_step: "next_score obs_adverse x = lower_score (90/100) (30/100) (lower_score (93/100) (7/100) x)"
  by (simp add: next_score_def guarded_def obs_adverse_def)

lemma adverse_first: "next_score obs_adverse 0 \<le> - 91 / 256"
  using adverse_round [of 0 0 0 "- 17" "- 15" "- 91"] by (simp add: adverse_step trust_lits trust_lits_reduced)

lemma adverse_many: "4 \<le> n \<Longrightarrow> (next_score obs_adverse ^^ n) 0 \<le> - 225 / 256"
proof (induction n rule: dec_induct)
  case base
  let ?f = "next_score obs_adverse"
  have 1: "?f 0 \<le> of_int (- 91) / 256" using adverse_first by simp
  have 2: "?f (?f 0) \<le> of_int (- 166) / 256"
    unfolding adverse_step [of "?f 0"]
    by (rule adverse_round [OF 1, of "- 84" "- 101" "- 90"]) (simp_all add: trust_lits trust_lits_reduced)
  have 3: "?f (?f (?f 0)) \<le> of_int (- 225) / 256"
    unfolding adverse_step [of "?f (?f 0)"]
    by (rule adverse_round [OF 2, of "- 154" "- 171" "- 153"]) (simp_all add: trust_lits trust_lits_reduced)
  have "?f (?f (?f (?f 0))) \<le> of_int (- 225) / 256"
    unfolding adverse_step [of "?f (?f (?f 0))"]
    by (rule adverse_round [OF 3, of "- 209" "- 226" "- 203"]) (simp_all add: trust_lits trust_lits_reduced)
  then show ?case by (simp add: numeral_eq_Suc)
next
  case (step n)
  then have "(next_score obs_adverse ^^ n) 0 \<le> of_int (- 225) / 256" by simp
  then have "next_score obs_adverse ((next_score obs_adverse ^^ n) 0) \<le> of_int (- 225) / 256"
    unfolding adverse_step
    by (rule adverse_round [of _ _ "- 209" "- 226" "- 203"]) (simp_all add: trust_lits trust_lits_reduced)
  then show ?case by simp
qed

lemma raise_pos:
  assumes "0 \<le> x" and "0 \<le> a" and "of_int v / 256 \<le> rnd32 b" and "0 < v" and "v \<le> 256"
  shows "0 < raise_score a b x"
proof -
  have "0 \<le> mul32 x (rnd32 a)"
    unfolding mul32_def using assms(1,2) by (intro f32.nonneg mult_nonneg_nonneg) auto
  then have "of_int v / 256 \<le> mul32 x (rnd32 a) + rnd32 b" using assms(3) by linarith
  then have "of_int v / 256 \<le> add32 (mul32 x (rnd32 a)) (rnd32 b)"
    using f32.mono dyadic32 [of v] assms(4,5) unfolding add32_def by fastforce
  moreover have "(0 :: rat) < of_int v / 256" using assms(4) by simp
  ultimately show ?thesis by (simp add: raise_score_def)
qed

lemma cooperative_step: "0 \<le> x \<Longrightarrow> 0 < next_score obs_cooperative x"
proof -
  assume "0 \<le> x"
  then have "0 < raise_score (95/100) (10/100) x"
    by (rule raise_pos [where v = 25]) (simp_all add: trust_lits trust_lits_reduced)
  then have "0 < raise_score (97/100) (6/100) (raise_score (95/100) (10/100) x)"
    by (intro raise_pos [where v = 15]) (simp_all add: trust_lits trust_lits_reduced)
  then show ?thesis by (simp add: next_score_def guarded_def obs_cooperative_def obs_quiet_def)
qed

lemma cooperative_many: "0 < n \<Longrightarrow> 0 < (next_score obs_cooperative ^^ n) 0"
proof (induction n)
  case (Suc n)
  have "0 \<le> (next_score obs_cooperative ^^ n) 0" using Suc.IH by (cases n) simp_all
  then show ?case using cooperative_step by simp
qed simp

lemma cheat_step: "x \<le> 0 \<Longrightarrow> next_score obs_cheat x < 0"
proof -
  assume "x \<le> 0"
  then have "lower_score (90/100) (30/100) x \<le> of_int (- 76) / 256"
    by (intro lower_score_le [of x 0 _ 0]) (simp_all add: trust_lits trust_lits_reduced)
  then show ?thesis by (simp add: next_score_def guarded_def obs_cheat_def obs_quiet_def)
qed

lemma cheat_many: "0 < n \<Longrightarrow> (next_score obs_cheat ^^ n) 0 < 0"
proof (induction n)
  case (Suc n)
  have "(next_score obs_cheat ^^ n) 0 \<le> 0" using Suc.IH by (cases n) simp_all
  then show ?case using cheat_step by simp
qed simp

lemma adverse_table:
  assumes "4 \<le> n" and "is_pos_i32 pid"
  shows "trust_score (observe n pid obs_adverse comm trust_new) pid \<le> - 225 / 256"
  using observe_new(2) [OF assms(2)] adverse_many [OF assms(1)] by simp

lemma quarantine_score: "x \<le> - 225 / 256 \<Longrightarrow> x < TRUST_THRESHOLD"
  by (simp add: TRUST_THRESHOLD_def trust_lits trust_lits_reduced)

lemma not_quarantined: "0 \<le> x \<Longrightarrow> \<not> x < TRUST_THRESHOLD"
  by (simp add: TRUST_THRESHOLD_def trust_lits trust_lits_reduced)

lemma streak_new: "streak_of trust_new pid = 0"
  by (simp add: streak_of_def trust_new_def split: option.splits)

lemma streak_many: "cheat_flagged obs \<Longrightarrow> unat ((next_streak obs ^^ n) 0) = min n 255"
  by (induction n) (simp_all add: next_streak_def unat_sat_add)

lemma flagged_many:
  assumes "2 \<le> n" and "is_pos_i32 pid" and "cheat_flagged obs"
  shows "is_flagged (observe n pid obs comm trust_new) pid"
  using is_flagged_streak [OF observe_new(1) [OF assms(2)]] observe_new(3) [OF assms(2)] streak_many [OF assms(3)] assms(1)
  by (simp add: streak_new word_le_nat_alt)

text \<open>The table of two PIDs that most of the tests build.\<close>

lemma two_pids:
  assumes "is_pos_i32 p" "is_pos_i32 q" "p \<noteq> q"
    and t_def: "t = observe m q obs' comm' (observe n p obs comm trust_new)"
  shows "trust_inv t" "tracks {p, q} t" "trust_score t p = (next_score obs ^^ n) 0" "trust_score t q = (next_score obs' ^^ m) 0"
proof -
  let ?u = "observe n p obs comm trust_new"
  have u: "trust_inv ?u" "tracks {p, q} ?u" using observe_new(1) assms(1) tracks_observe tracks_new by auto
  show "trust_inv t" "tracks {p, q} t" unfolding t_def using observe_run(1) tracks_observe u assms(2) by auto
  have card: "card {p, q} < TABLE_SIZE" "card {p, q} < TABLE_SIZE" using assms(3) by (simp_all add: TABLE_SIZE_def)
  show "trust_score t p = (next_score obs ^^ n) 0"
    unfolding t_def using observe_other [OF u _ card(1), of q p] observe_new(2) assms by simp
  have "trust_score ?u q = 0"
    using observe_other [OF trust_inv_new tracks_new _ card(1), of p q] assms by (simp add: trust_score_new)
  then show "trust_score t q = (next_score obs' ^^ m) 0" unfolding t_def using observe_run(2) [OF u(1) assms(2)] by simp
qed

lemma quarantined_tracked: "tracks P t \<Longrightarrow> is_pos_i32 q \<Longrightarrow> is_quarantined t q \<Longrightarrow> q \<in> P"
proof -
  assume t: "tracks P t" "is_pos_i32 q" "is_quarantined t q"
  then obtain s where "find_slot (pids t) q = Some s"
    using not_quarantined [of 0] by (cases "find_slot (pids t) q") (auto simp: is_quarantined_def trust_score_def)
  then show "q \<in> P" using find_slot_Some live_pos [OF t(2)] t(1) by (auto simp: tracks_def)
qed

lemma slice_factor_low: "trust_score t p \<le> - 225 / 256 \<Longrightarrow> slice_factor t p < rnd64 (35/100)"
proof -
  let ?x = "trust_score t p"
  assume x: "?x \<le> - 225 / 256"
  have exact: "rnd64 (of_int m / 1024) = of_int m / 1024" if "\<bar>m\<bar> < 2 ^ 53" for m
    unfolding rnd64_def by (rule rnd_exact [of _ m "- 10"]) (use that in \<open>simp_all add: pow2_def\<close>)
  have "mul64 ?x (3/4) \<le> of_int (- 675) / 1024"
    unfolding mul64_def using x exact [of "- 675"] f64.mono [of "?x * (3/4)" "of_int (- 675) / 1024"] by simp
  then have "1 + mul64 ?x (3/4) \<le> of_int 349 / 1024" by simp
  then have "add64 1 (mul64 ?x (3/4)) \<le> of_int 349 / 1024"
    unfolding add64_def using f64.mono exact [of 349] by fastforce
  moreover have "of_int 350 / 1024 \<le> rnd64 (35/100)"
    using f64.mono [of "of_int 350 / 1024" "35/100"] exact [of 350] by simp
  ultimately show ?thesis using x by (simp add: slice_factor_def Let_def clamp_def)
qed

lemma trust_tests_pass:
  "passes neutral_initial_score" "passes cooperative_exits_improve_trust"
  "passes adversarial_exits_lower_trust_to_quarantine" "passes clean_exit_clears_cheat_flag"
  "passes evict_clears_slot"
proof -
  show "passes neutral_initial_score"
    using is_flagged_streak [OF trust_inv_new] not_quarantined
    by (simp add: neutral_initial_score_def is_quarantined_def trust_score_new streak_new word_le_nat_alt)
  show "passes cooperative_exits_improve_trust"
    using observe_new(2) [of 999 20 obs_cooperative] cooperative_many [of 20] by (simp add: cooperative_exits_improve_trust_def)
  show "passes adversarial_exits_lower_trust_to_quarantine"
    using quarantine_score [OF adverse_table [of 10 42 "''badproc''"]] flagged_many [of 10 42 obs_adverse "''badproc''"]
    by (simp add: adversarial_exits_lower_trust_to_quarantine_def is_quarantined_def obs_adverse_def)
  have "\<not> is_flagged (observe 1 7 obs_clean ''x'' (observe 3 7 obs_cheat ''x'' trust_new)) 7"
    using is_flagged_streak [OF observe_run(1) [OF observe_new(1)], of 7 7 1 obs_clean "''x''" 3 obs_cheat "''x''" 7]
      observe_run(3) [OF observe_new(1), of 7 7 1 obs_clean "''x''" 3 obs_cheat "''x''"]
    by (simp add: next_streak_def obs_clean_def obs_quiet_def word_le_nat_alt)
  then show "passes clean_exit_clears_cheat_flag"
    using flagged_many [of 3 7 obs_cheat "''x''"] by (simp add: clean_exit_clears_cheat_flag_def obs_cheat_def Let_def)
  show "passes evict_clears_slot"
    using observe_new(2) [of 7 10 obs_cheat "''x''"] cheat_many [of 10]
      evict_pid(1) [OF observe_new(1), of 7 7 7 10 obs_cheat "''x''"] live_pos [of 7]
    by (simp add: evict_clears_slot_def Let_def)
qed

lemma trust_tables_tests_pass:
  "passes slice_factor_ranges" "passes worst_actors_finds_low_trust_entries"
  "passes colliding_pids_keep_independent_trust" "passes str_to_comm_truncates_at_15"
proof -
  let ?t = "observe 50 2 obs_adverse ''bad'' (observe 100 1 obs_cooperative ''good'' trust_new)"
  have "(0 :: rat) < rnd64 (1/100)" using f64.mono [of "1/128" "1/100"] f64.mono [of "1/256" "1/128"]
    by - (rule less_le_trans [of _ "1/128"], simp, rule order_trans [of _ "rnd64 (1/128)"],
      simp add: rnd64_def rnd_exact [of _ 1 "- 7"] pow2_def, simp)
  moreover have "rnd64 (9/10) < 1"
    by (rule le_less_trans [of _ "rnd64 (15/16)"], rule f64.mono, simp, simp add: rnd64_def rnd_exact [of _ 15 "- 4"] pow2_def)
  moreover have "slice_factor (observe 100 1 obs_cooperative ''good'' trust_new) 1 = 1"
    using observe_new(2) [of 1 100 obs_cooperative] cooperative_many [of 100] by (simp add: slice_factor_def)
  moreover have "slice_factor ?t 2 < rnd64 (35/100)"
    using two_pids(4) [of 1 2 ?t 50 obs_adverse "''bad''" 100, OF _ _ _ refl] adverse_many [of 50] by (intro slice_factor_low) simp
  ultimately show "passes slice_factor_ranges"
    by (simp add: slice_factor_ranges_def slice_factor_def [of trust_new] trust_score_new f64.zero Let_def)
  let ?w = "observe 20 2 obs_cooperative ''normal'' (observe 15 1 obs_adverse ''malicious'' trust_new)"
  note w = two_pids [of 1 2 ?w 20 obs_cooperative "''normal''" 15 obs_adverse "''malicious''", OF _ _ _ refl, simplified]
  have bad: "is_quarantined ?w 1" and good: "\<not> is_quarantined ?w 2"
    using w(3,4) quarantine_score [OF adverse_many [of 15]] not_quarantined cooperative_many [of 20]
    by (auto simp: is_quarantined_def less_imp_le)
  obtain entries n where wa: "worst_actors ?w = (entries, n)" by fastforce
  from worst_actors_sound [OF w(1)] wa
  have all: "\<forall>e \<in> set (take n entries). is_pos_i32 (se_pid e) \<and> is_quarantined ?w (se_pid e)"
    and "\<exists>e \<in> set (take n entries). se_trust e \<le> trust_score ?w 1"
    using bad by auto
  then obtain e where e: "e \<in> set (take n entries)" by blast
  have only: "se_pid e = 1" if "e \<in> set (take n entries)" for e
    using all that quarantined_tracked [OF w(2)] good by fastforce
  have "1 \<le> n" using e by (cases n) simp_all
  with e only show "passes worst_actors_finds_low_trust_entries"
    by (auto simp: worst_actors_finds_low_trust_entries_def wa list_ex_iff)
  show "passes colliding_pids_keep_independent_trust"
    using two_pids(3,4) [of 2 2586 _ 1 obs_adverse "''bad''" 1 obs_cooperative "''good''", OF _ _ _ refl] cooperative_step [of 0] adverse_first
    by (simp add: colliding_pids_keep_independent_trust_def)
  show "passes str_to_comm_truncates_at_15" by code_simp
qed

end
