(* ===== verification/Spec2Isabelle.thy ===== *)
theory Spec2Isabelle
  imports Main_Run Rendering Profile Topology_Export Stats Lifecycle Terminal Bpf_Queues Bpf_Accounting Fallback_Path Unit_Tests
begin

text \<open>
  A verification library for scx_cognis, a Linux scheduler in two halves: the BPF program
  \<open>src/main.bpf.c\<close> in the kernel and the Rust program of \<open>src/src/\<close>, which loads it and, as a fallback,
  receives tasks from it, orders them and hands them back. This development models both.

  The BPF program. \<open>ops.enqueue\<close> puts a task that becomes ready on the local queue of an idle CPU, or, by
  virtual deadline, on the first queue with room of its CPU, its LLC, its node or the machine. \<open>ops.dispatch\<close>
  takes what user space has sent back, then the earliest deadline of those queues, then steals from other
  CPUs, LLCs and nodes, then extends the slice. The other callbacks keep the accounts of a task's runs;
  \<open>ops.init\<close> creates the queues from the topology the Rust program exports.

  The Rust program. \<open>main.rs\<close> runs a loop (\<open>run\<close>): a scheduling cycle (\<open>schedule\<close>) drains a bounded batch of
  tasks from a ring shared with the kernel, derives a policy for each (label, slice, virtual deadline,
  wake credit), queues it in one of three lanes, dispatches all lanes back through a second ring and reports
  what is left; then exited PIDs are evicted, a stats request is answered, every 50 ms the slice controller
  and the trust table are brought up to date, and the dashboard takes its turn. \<open>bpf.rs\<close> owns the rings and
  counters, \<open>task_queue.rs\<close> the lanes' rings, \<open>ai/\<close> the classifier, the slice controller and the trust
  table, \<open>stats.rs\<close> the metrics, \<open>tui/dashboard.rs\<close> the dashboard. Around the loop, \<open>Scheduler::init\<close> loads and
  attaches the BPF program, dropping the scheduler waits for the detach, and \<open>main\<close> decides from how an
  instance ended whether to restart, to re-execute or to exit.

  The theories, in the order they build on each other:
  \<^item> \<open>Cognis_Prelude\<close>: fixed-width integers with Rust's saturating operators, faults (a panic, undefined
    behaviour, divergence) as values, and actions on mutable state with a weakest precondition of total
    correctness.
  \<^item> \<open>Task_Queue\<close> (\<open>task_queue.rs\<close>): the ring of possibly uninitialised slots and its deferred slot; the
    locale \<open>bounded_fifo\<close> states what a bounded queue promises and is interpreted on the code's model.
  \<^item> \<open>Pid_Table\<close>: linear probing shared by both PID tables; the locale \<open>pid_store\<close> is interpreted on the
    trust table in \<open>Trust_Table\<close> and on the lifetime table in \<open>Lifetime_Table\<close>.
  \<^item> \<open>Ieee_Float\<close>: f32 and f64 operators as rounding to nearest even of exact rationals; the locale
    \<open>rounding\<close> holds the laws that monotonicity and bounds arguments use.
  \<^item> \<open>Trust_Table\<close> (\<open>ai/trust.rs\<close>), \<open>Slice_Policy\<close> (\<open>ai/policy.rs\<close>), \<open>Classifier\<close> (\<open>ai/classifier.rs\<close> and
    the heuristics of \<open>main.rs\<close>), \<open>Profile\<close> (options and profile of \<open>main.rs\<close>).
  \<^item> \<open>Bpf_Messages\<close> and \<open>Bpf_Scheduler\<close> (\<open>bpf.rs\<close>): the byte layout of the messages, and the calls on rings
    and counters over an environment \<open>os\<close>, the kernel and libbpf, whose documented contract is \<open>libbpf_ok\<close>.
  \<^item> \<open>Stats\<close> (\<open>stats.rs\<close>): the metrics, their difference, a stats connection, the health summary and the text
    form. \<open>Dashboard\<close> (\<open>tui/dashboard.rs\<close>): the history ring, the dashboard's state and what its panels compute.
    \<open>Dashboard_Drawing\<close> (\<open>tui/dashboard.rs\<close>): one frame, its widgets, texts, styles and rectangles; the layout
    solver is a parameter, and the watchlist slice panics when more entries are announced than the array has. \<open>Terminal\<close>
    (\<open>tui/dashboard.rs\<close>): setting up and restoring the terminal when any call may fail.
  \<^item> \<open>Lifetime_Table\<close>, \<open>Lanes\<close>, \<open>Task_Policy\<close>, \<open>Pipeline\<close>, \<open>Observability\<close>, \<open>Housekeeping\<close>, \<open>Main_Run\<close>
    (\<open>main.rs\<close>): the
    per-PID history, the lanes and the scheduler record, \<open>derive_task_policy\<close>, the scheduling cycle, the
    metrics snapshot with the dashboard's turn, and the periodic work with the main loop, as a step
    relation and as the function \<open>run\<close>. \<open>Rendering\<close>: every dashboard state the loop leaves can be drawn.
  \<^item> \<open>Topology_Export\<close> (\<open>bpf.rs\<close>): the export of the CPU topology. \<open>Startup\<close> (\<open>bpf.rs\<close>, \<open>main.rs\<close>):
    \<open>BpfScheduler::init\<close>, \<open>Scheduler::init\<close>, \<open>wait_for_detach\<close> and the drop of the scheduler. \<open>Supervisor\<close>
    (\<open>main.rs\<close>): \<open>main\<close>, with the restart loop, the failure counter and the exit codes. \<open>Lifecycle\<close>: one instance from
    \<open>Scheduler::init\<close> over \<open>run\<close> to the drop.
  \<^item> \<open>Bpf_Kernel\<close> (\<open>main.bpf.c\<close>, \<open>intf.h\<close>): the globals and the per-task storage of the BPF program, the
    kernel as the record \<open>kern\<close> of functions, and the trace \<open>requests\<close> of what was asked of it; two calculi
    hold for every kernel: \<open>asks\<close> for actions that only ask, and the \<open>vcg\<close> rules. \<open>Bpf_Routing\<close>: queue
    identifiers, thresholds, slices, deadlines, idle CPUs. \<open>Bpf_Dispatch\<close>: \<open>ops.dispatch\<close> with its steals.
    \<open>Bpf_Callbacks\<close>: the other callbacks, the timer and \<open>ops.init\<close>. \<open>Bpf_Program\<close>: the step relation
    \<open>bpf_step\<close> over all callbacks in any order, the calculus \<open>sound\<close> for invariants, the counters and where a
    task is put. \<open>Bpf_Queues\<close>: with the topology that \<open>detect\<close> exports every queue that is named exists.
    \<open>Bpf_Accounting\<close>: the charge of a run and the virtual clock.
  \<^item> \<open>Fallback_Path\<close>: both halves together, from the messages a scheduling cycle leaves in the user ring buffer to
    what the BPF program places. \<open>Unit_Tests\<close>: the unit tests of the repository as programs over the model.

  State. A Rust struct is a record with the source's fields; a method on \<open>&mut self\<close> is an action on the
  record and the world \<open>'w\<close> of the environment. Integers keep their width: \<open>+\<close> wraps, as in a release
  build, and \<open>saturating_\<close> operators are \<open>sat_add\<close>, \<open>sat_sub\<close>, \<open>sat_mul\<close>. Signed 32-bit values are words read
  with \<open>sint\<close>. Messages are bytes in little-endian order, the order of the platforms sched_ext runs on.
  Fixed arrays of the tables are functions from the slot index, every index being masked by the code;
  the arrays of the queues are lists with explicit bounds. Instants are natural numbers of nanoseconds.
  Log lines have no effect in the model, but for those of the supervisor, which are calls of its world.
  Everything outside the program is a record of functions on a world: \<open>os\<close> (kernel and libbpf), \<open>host\<close>
  (/proc, the stats channel, the terminal's events and frames), \<open>sysfs\<close> (the root ops file, clock and
  sleep), \<open>kern\<close> (the functions of the kernel a BPF callback calls), \<open>tty\<close> (terminal calls), \<open>process\<close> (signals, the clock, re-execution, one scheduler instance), and
  during start-up an oracle that says which calls succeed. What is assumed of them is a named predicate
  (\<open>libbpf_ok\<close>, \<open>host_ok\<close>, \<open>clock_ok\<close>, \<open>stays_up\<close>, \<open>counts_attempts\<close>, \<open>probe_counts\<close>, \<open>quiet_exit\<close>, \<open>is_ended\<close>, \<open>reports_no_panic\<close>; \<open>clocks_ok\<close>,
  \<open>standing\<close>, \<open>grants\<close> and \<open>user_ring\<close> of the kernel; \<open>parses\<close> of clap, for the tests), and each has an instance.
  A BPF callback is one step. The kernel may change every \<open>task_struct\<close> and its own state at each call the
  callback makes, so what is proved for every kernel holds under concurrency there; the globals and the
  per-task storage are taken to change only between callbacks, but for the three counters that user space
  writes, at any time between them. The machine \<open>bench\<close> of the witnesses has two CPUs and queues that are lists.
  The call \<open>terminal.draw\<close> of \<open>tick_tui\<close> is one of the host that returns; \<open>loop_frames_can_be_drawn\<close> shows that
  \<open>draw\<close> does not panic on a state it is handed while the label counts do not wrap.
  Pending terminal events are one finite list per poll; the timers that \<open>Scheduler::init\<close> reads one after the
  other start at one instant.

  Loops. The probes of the PID tables are \<open>function\<close>s with a measure of at most 4096 steps. The drain loops
  recurse on the budget they are given. The dispatch loop of \<open>schedule\<close> has no bound in the source: it is a
  partial function, and \<open>dispatch_loop_terminates_in_order\<close> shows that it ends. The loops of the BPF program
  recurse on the list of their indices; the drain of the user ring buffer is bounded by \<open>k_max_user_samples\<close>,
  which the kernel fixes. The main loop is the step
  relation \<open>run_step\<close>; what holds of \<open>reachable\<close> states holds for ever. The loops of \<open>wait_for_detach\<close> and of
  \<open>main\<close> are partial functions: the first ends within 51 polls since a poll sleeps 10 ms of the 500 ms it
  waits; the second may run for ever by design, and \<open>restarts_in_place_are_bounded\<close> and
  \<open>runtime_exit_never_restarts\<close> say when it ends.

  What the lemmas show. Each data structure refines an abstract one: the task queue a bounded list, the
  PID tables a map, the lanes one priority list (\<open>backlog\<close>). On top of it \<open>ledger\<close> is the conservation law:
  the tasks received are the tasks queued plus the tasks submitted. \<open>sched_ok\<close> is the invariant of the
  scheduler; every operation keeps it, whatever the kernel does within \<open>libbpf_ok\<close>, and no operation
  panics under it.
  The composition \<open>run_one\<close> of start-up, loop and drop returns without a panic once it is
  ended by a stop request, by the kernel or by the user, so the supervisor never counts a failure. Around the loop, start-up attaches or cleans up,
  sched_ext exits are never restarted, the failure counter is the length of the current burst of failures, and
  the terminal is given back. Some theorems state that the code falls short of what its comments say
  (\<open>drain_stops_while_slots_are_left\<close>, \<open>generations_are_never_counted\<close>, \<open>queues_are_created_once\<close>,
  \<open>watchlist_always_empty\<close>, \<open>reexec_defeats_the_limit\<close>,
  \<open>first_page_faults_hidden\<close>, \<open>sched_class_failure_unnoticed\<close>,
  \<open>drop_waits_before_detaching\<close>, \<open>raw_mode_is_given_up\<close>, \<open>failed_setup_leaves_alternate_screen\<close>).

  For the BPF program, whatever the kernel answers: no queue is named that does not exist, an enqueued task is
  put on exactly one queue, which the kernel's answers determine, the counters add up, and in the default mode the progress guard never runs; while
  the queues stand still, a CPU is served by earliest deadline, the remote steals look at every other LLC and node,
  and it never idles beside a waiting CPU queue.
  Across both halves, what is placed for the Rust program was enqueued, and is placed once
  (\<open>user_dispatch_settles_enqueues\<close>).

  Not modelled: the generated bindings, the debug messages and the exit record of the BPF program; what ratatui makes of a
  widget and how it solves a layout; the stats server's sockets and JSON; logging and option parsing. These are foreign code, or
  output with no state of its own.
\<close>

end
